(* ===== verification/Prelude.thy ===== *)
theory Prelude
  imports Main "HOL-Library.Word" "HOL-Library.Sublist"
begin

text \<open>
  What every component of the development shares: Go errors and fallible results, the parts of the
  package \<open>strings\<close> the program uses (on byte strings, with the UTF-8 encodings of Go's white
  space written out), the sliding window over message pairs that three stores trim with, and the
  collections of facts the component proofs use.

  A Go string is a sequence of bytes; HOL's \<^typ>\<open>string\<close> is a list of 8-bit characters, so
  byte for byte the same data.
\<close>

named_theorems step_defs "definitions of handlers and state transformers, unfolded in component proofs"
named_theorems go_string "evaluation of the string functions"

type_synonym int64 = "64 word"

section \<open>Errors\<close>

text \<open>
  The sentinel errors of the program, one constructor each. \<open>ErrText\<close> is an \<open>errors.New\<close> or
  \<open>fmt.Errorf\<close> without a wrapped error, \<open>ErrWrap\<close> a \<open>fmt.Errorf\<close> with \<open>%w\<close>, \<open>ErrExternal\<close> an
  error that a library or a service returned, \<open>Canceled\<close> and \<open>DeadlineExceeded\<close> the two errors of
  a finished context.
\<close>

datatype go_error =
    ErrInvalidSessionKey | ErrInvalidMessage | ErrVersionConflict | ErrIdempotencyConflict
  | ErrSQLStoreRequired | ErrConversationBackend | ErrPostgresDSNRequired
  | ErrCacheMiss | ErrRedisClient | ErrLockUnavailable | ErrLockReleased
  | ErrRunLimiterClosed | ErrTurnLoopStopped | ErrTurnInput
  | ErrTurnLoopRegistryFull | ErrTurnLoopFactoryRequired
  | ErrInvalidCredentials | ErrInvalidToken | ErrTokenExpired | ErrUnauthenticated
  | ErrToolDenied | ErrMysqlDSNRequired | ErrMysqlWriteDenied | ErrMysqlSQLInvalid
  | ErrTenantScopeRequired | ErrUnavailable
  | Canceled | DeadlineExceeded
  | ErrText string | ErrWrap string go_error | ErrExternal string

type_synonym 'a result = "go_error + 'a"

text \<open>\<open>errors.Is\<close>: the error itself or one it wraps.\<close>

fun errors_is :: "go_error \<Rightarrow> go_error \<Rightarrow> bool" where
  "errors_is (ErrWrap msg e) t = (t = ErrWrap msg e \<or> errors_is e t)"
| "errors_is e t = (t = e)"

lemma errors_is_refl [simp]: "errors_is e e"
  by (cases e) auto

text \<open>
  A fallible operation on a state returns the new state with the result. \<open>st_bind\<close> is the Go idiom
  \<open>if err != nil { return err }\<close>.
\<close>

type_synonym ('s, 'a) op = "'s \<Rightarrow> 's \<times> 'a result"

definition st_return :: "'a \<Rightarrow> ('s, 'a) op" where
  "st_return x s = (s, Inr x)"

definition st_fail :: "go_error \<Rightarrow> ('s, 'a) op" where
  "st_fail e s = (s, Inl e)"

definition st_bind :: "('s, 'a) op \<Rightarrow> ('a \<Rightarrow> ('s, 'b) op) \<Rightarrow> ('s, 'b) op" where
  "st_bind m f s = (case m s of (s', Inl e) \<Rightarrow> (s', Inl e) | (s', Inr x) \<Rightarrow> f x s')"

definition st_lift :: "'a result \<Rightarrow> ('s, 'a) op" where
  "st_lift r s = (s, r)"

lemmas st_defs = st_return_def st_fail_def st_lift_def

lemma st_bind_Inr:
  "st_bind m f s = (s', Inr y) \<longleftrightarrow> (\<exists>s1 x. m s = (s1, Inr x) \<and> f x s1 = (s', Inr y))"
  by (auto simp: st_bind_def split: prod.splits sum.splits)

lemma st_bind_Inl:
  "st_bind m f s = (s', Inl e) \<longleftrightarrow>
     m s = (s', Inl e) \<or> (\<exists>s1 x. m s = (s1, Inr x) \<and> f x s1 = (s', Inl e))"
  by (auto simp: st_bind_def split: prod.splits sum.splits)

lemma st_bind_eq:
  "st_bind m f s = (case m s of (s', Inl e) \<Rightarrow> (s', Inl e) | (s', Inr x) \<Rightarrow> f x s')"
  by (simp add: st_bind_def)

lemma distinct_set_single: "distinct xs \<Longrightarrow> set xs = {x} \<Longrightarrow> xs = [x]"
  by (cases xs; cases "tl xs") auto

section \<open>Strings\<close>

text \<open>The UTF-8 encodings of the code points for which \<open>unicode.IsSpace\<close> holds.\<close>

definition go_spaces :: "string list" where
  "go_spaces =
     [[CHR 0x20], [CHR 0x09], [CHR 0x0A], [CHR 0x0B], [CHR 0x0C], [CHR 0x0D],
      [CHR 0xC2, CHR 0x85], [CHR 0xC2, CHR 0xA0], [CHR 0xE1, CHR 0x9A, CHR 0x80],
      [CHR 0xE2, CHR 0x80, CHR 0x80], [CHR 0xE2, CHR 0x80, CHR 0x81], [CHR 0xE2, CHR 0x80, CHR 0x82],
      [CHR 0xE2, CHR 0x80, CHR 0x83], [CHR 0xE2, CHR 0x80, CHR 0x84], [CHR 0xE2, CHR 0x80, CHR 0x85],
      [CHR 0xE2, CHR 0x80, CHR 0x86], [CHR 0xE2, CHR 0x80, CHR 0x87], [CHR 0xE2, CHR 0x80, CHR 0x88],
      [CHR 0xE2, CHR 0x80, CHR 0x89], [CHR 0xE2, CHR 0x80, CHR 0x8A], [CHR 0xE2, CHR 0x80, CHR 0xA8],
      [CHR 0xE2, CHR 0x80, CHR 0xA9], [CHR 0xE2, CHR 0x80, CHR 0xAF], [CHR 0xE2, CHR 0x81, CHR 0x9F],
      [CHR 0xE3, CHR 0x80, CHR 0x80]]"

definition space_prefix :: "string \<Rightarrow> nat" where
  "space_prefix s = (case find (\<lambda>w. prefix w s) go_spaces of None \<Rightarrow> 0 | Some w \<Rightarrow> length w)"

definition space_suffix :: "string \<Rightarrow> nat" where
  "space_suffix s = (case find (\<lambda>w. suffix w s) go_spaces of None \<Rightarrow> 0 | Some w \<Rightarrow> length w)"

lemma space_suffix_le: "space_suffix s \<le> length s"
  by (auto simp: space_suffix_def find_Some_iff suffix_length_le split: option.splits)

function trim_left :: "string \<Rightarrow> string" where
  "trim_left s = (if s = [] \<or> space_prefix s = 0 then s else trim_left (drop (space_prefix s) s))"
  by pat_completeness auto
termination
  by (relation "measure length") auto

function trim_right :: "string \<Rightarrow> string" where
  "trim_right s =
     (if s = [] \<or> space_suffix s = 0 then s else trim_right (take (length s - space_suffix s) s))"
  by pat_completeness auto
termination
  by (relation "measure length") auto

declare trim_left.simps [simp del] trim_right.simps [simp del]

text \<open>\<open>strings.TrimSpace\<close>.\<close>

definition trim_space :: "string \<Rightarrow> string" where
  "trim_space s = trim_right (trim_left s)"

lemma trim_left_Nil [simp]: "trim_left [] = []"
  by (simp add: trim_left.simps)

lemma trim_right_Nil [simp]: "trim_right [] = []"
  by (simp add: trim_right.simps)

lemma trim_space_Nil [simp]: "trim_space [] = []"
  by (simp add: trim_space_def)

text \<open>Trimming is idempotent.\<close>

lemma go_spaces_nonempty: "w \<in> set go_spaces \<Longrightarrow> w \<noteq> []"
  by (auto simp: go_spaces_def)

lemma space_prefix_0: "space_prefix s = 0 \<longleftrightarrow> (\<forall>w \<in> set go_spaces. \<not> prefix w s)"
  using go_spaces_nonempty by (auto simp: space_prefix_def find_None_iff find_Some_iff split: option.splits)

lemma trim_left_clean: "trim_left s = [] \<or> space_prefix (trim_left s) = 0"
  by (induction s rule: trim_left.induct) (metis trim_left.simps)

lemma trim_left_fixed: "s = [] \<or> space_prefix s = 0 \<Longrightarrow> trim_left s = s"
  by (simp add: trim_left.simps)

lemma trim_right_clean: "trim_right s = [] \<or> space_suffix (trim_right s) = 0"
  by (induction s rule: trim_right.induct) (metis trim_right.simps)

lemma trim_right_fixed: "s = [] \<or> space_suffix s = 0 \<Longrightarrow> trim_right s = s"
  by (simp add: trim_right.simps)

lemma trim_right_prefix: "prefix (trim_right s) s"
proof (induction s rule: trim_right.induct)
  case (1 s)
  show ?case
  proof (cases "s = [] \<or> space_suffix s = 0")
    case False
    then have "prefix (trim_right s) (take (length s - space_suffix s) s)"
      using 1 by (simp add: trim_right.simps [of s])
    then show ?thesis using take_is_prefix prefix_order.trans by blast
  qed (simp add: trim_right_fixed)
qed

lemma trim_space_idem [simp]: "trim_space (trim_space s) = trim_space s"
proof -
  have "trim_left (trim_right (trim_left s)) = trim_right (trim_left s)"
  proof (rule trim_left_fixed)
    show "trim_right (trim_left s) = [] \<or> space_prefix (trim_right (trim_left s)) = 0"
      using trim_left_clean [of s] trim_right_prefix [of "trim_left s"]
      by (metis prefix_order.trans space_prefix_0 trim_right_Nil)
  qed
  moreover have "trim_right (trim_right (trim_left s)) = trim_right (trim_left s)"
    using trim_right_clean by (rule trim_right_fixed)
  ultimately show ?thesis by (simp add: trim_space_def)
qed

text \<open>\<open>strings.Fields\<close>: the maximal runs between white space, none of them empty.\<close>

function fields_from :: "string \<Rightarrow> string \<Rightarrow> string list" where
  "fields_from cur s =
     (case s of
        [] \<Rightarrow> (if cur = [] then [] else [cur])
      | c # cs \<Rightarrow>
          if space_prefix s \<noteq> 0
          then (if cur = [] then [] else [cur]) @ fields_from [] (drop (space_prefix s) s)
          else fields_from (cur @ [c]) cs)"
  by pat_completeness auto
termination
  by (relation "measure (\<lambda>(cur, s). length s)") auto

declare fields_from.simps [simp del]

definition str_fields :: "string \<Rightarrow> string list" where
  "str_fields s = fields_from [] s"

lemma fields_from_nonempty: "f \<in> set (fields_from cur s) \<Longrightarrow> f \<noteq> []"
proof (induction cur s rule: fields_from.induct)
  case (1 cur s)
  show ?case
  proof (cases s)
    case Nil
    with "1.prems" show ?thesis by (auto simp: fields_from.simps [of cur "[]"] split: if_splits)
  next
    case (Cons c cs)
    with 1 show ?thesis by (auto simp: fields_from.simps [of cur "c # cs"] split: if_splits)
  qed
qed

lemma str_fields_nonempty: "f \<in> set (str_fields s) \<Longrightarrow> f \<noteq> []"
  unfolding str_fields_def by (rule fields_from_nonempty)

text \<open>\<open>strings.Split\<close> with a one-byte separator.\<close>

fun split_char :: "char \<Rightarrow> string \<Rightarrow> string list" where
  "split_char sep [] = [[]]"
| "split_char sep (c # cs) =
     (if c = sep then [] # split_char sep cs
      else case split_char sep cs of [] \<Rightarrow> [[c]] | w # ws \<Rightarrow> (c # w) # ws)"

lemma split_char_not_Nil [simp]: "split_char sep s \<noteq> []"
  by (induction s) (auto split: list.splits)

text \<open>
  Letter case. \<open>strings.ToLower\<close> and \<open>strings.ToUpper\<close> map code points; the program only compares the
  result with ASCII literals and with Han phrases, which no other code point maps to. Besides the
  ASCII letters the four code points that map into ASCII are written out (U+0130 and U+212A to
  \<open>i\<close> and \<open>k\<close>; U+0131 and U+017F to \<open>I\<close> and \<open>S\<close>); every other byte is kept, which changes neither
  a comparison with such a literal nor the white space of the string.
\<close>

definition upper_letters :: string where
  "upper_letters = ''ABCDEFGHIJKLMNOPQRSTUVWXYZ''"

definition lower_letters :: string where
  "lower_letters = ''abcdefghijklmnopqrstuvwxyz''"

definition ascii_lower :: "char \<Rightarrow> char" where
  "ascii_lower c = (case map_of (zip upper_letters lower_letters) c of None \<Rightarrow> c | Some d \<Rightarrow> d)"

definition ascii_upper :: "char \<Rightarrow> char" where
  "ascii_upper c = (case map_of (zip lower_letters upper_letters) c of None \<Rightarrow> c | Some d \<Rightarrow> d)"

fun to_lower :: "string \<Rightarrow> string" where
  "to_lower [] = []"
| "to_lower (c # d # e # cs) =
     (if c = CHR 0xC4 \<and> d = CHR 0xB0 then CHR ''i'' # to_lower (e # cs)
      else if c = CHR 0xE2 \<and> d = CHR 0x84 \<and> e = CHR 0xAA then CHR ''k'' # to_lower cs
      else ascii_lower c # to_lower (d # e # cs))"
| "to_lower [c, d] =
     (if c = CHR 0xC4 \<and> d = CHR 0xB0 then ''i'' else [ascii_lower c, ascii_lower d])"
| "to_lower [c] = [ascii_lower c]"

fun to_upper :: "string \<Rightarrow> string" where
  "to_upper [] = []"
| "to_upper (c # d # cs) =
     (if c = CHR 0xC4 \<and> d = CHR 0xB1 then CHR ''I'' # to_upper cs
      else if c = CHR 0xC5 \<and> d = CHR 0xBF then CHR ''S'' # to_upper cs
      else ascii_upper c # to_upper (d # cs))"
| "to_upper [c] = [ascii_upper c]"

text \<open>\<open>strings.EqualFold\<close> against an ASCII word without \<open>k\<close> and \<open>s\<close> (the letters that fold with
  code points outside ASCII).\<close>

definition equal_fold :: "string \<Rightarrow> string \<Rightarrow> bool" where
  "equal_fold s t \<longleftrightarrow> map ascii_lower s = map ascii_lower t"

lemma equal_fold_refl [simp]: "equal_fold s s"
  by (simp add: equal_fold_def)

text \<open>\<open>strings.Join\<close>.\<close>

fun join_with :: "string \<Rightarrow> string list \<Rightarrow> string" where
  "join_with sep [] = []"
| "join_with sep [w] = w"
| "join_with sep (w # ws) = w @ sep @ join_with sep ws"

section \<open>Decimal numbers\<close>

text \<open>Go's \<open>%d\<close>.\<close>

fun digits :: "nat \<Rightarrow> string" where
  "digits n = (if n < 10 then [char_of (48 + n)] else digits (n div 10) @ [char_of (48 + n mod 10)])"

declare digits.simps [simp del]

definition show_int :: "int \<Rightarrow> string" where
  "show_int i = (if i < 0 then CHR ''-'' # digits (nat (- i)) else digits (nat i))"

lemma digits_chars: "c \<in> set (digits n) \<Longrightarrow> c \<in> set ''0123456789''"
proof (induction n rule: digits.induct)
  case (1 n)
  have d: "char_of (48 + k) \<in> set ''0123456789''" if "k < 10" for k :: nat
  proof -
    have "list_all (\<lambda>k. char_of (48 + k) \<in> set ''0123456789'') [0..<10]" by code_simp
    with that show ?thesis by (auto simp: list_all_iff)
  qed
  show ?case
  proof (cases "n < 10")
    case True
    with 1 d [OF True] show ?thesis by (simp add: digits.simps [of n])
  next
    case False
    with 1 d [of "n mod 10"] show ?thesis by (auto simp: digits.simps [of n])
  qed
qed

definition digits_value :: "string \<Rightarrow> nat" where
  "digits_value s = fold (\<lambda>c acc. acc * 10 + (of_char c - 48)) s 0"

lemma digits_value_digits: "digits_value (digits n) = n"
proof (induction n rule: digits.induct)
  case (1 n)
  show ?case
  proof (cases "n < 10")
    case True
    then show ?thesis by (simp add: digits.simps [of n] digits_value_def)
  next
    case False
    have "digits_value (digits n) = digits_value (digits (n div 10)) * 10 + n mod 10"
      using False by (simp add: digits.simps [of n] digits_value_def)
    with 1 False show ?thesis by simp
  qed
qed

lemma show_int_inj: "show_int i = show_int j \<Longrightarrow> i = j"
proof -
  have minus: "digits n \<noteq> CHR ''-'' # xs" for n xs using digits_chars [of "CHR ''-''" n] by auto
  have "digits n = digits m \<longleftrightarrow> n = m" for n m by (metis digits_value_digits)
  then show "show_int i = show_int j \<Longrightarrow> i = j"
    using minus minus [symmetric] by (auto simp: show_int_def split: if_splits)
qed

definition is_digit :: "char \<Rightarrow> bool" where
  "is_digit c \<longleftrightarrow> c \<in> set ''0123456789''"

lemma digits_are_digits: "list_all is_digit (digits n)"
  unfolding is_digit_def list_all_iff using digits_chars by blast

section \<open>Hexadecimal digits\<close>

definition hex_digit :: "nat \<Rightarrow> char" where
  "hex_digit n = ''0123456789abcdef'' ! n"

definition hex_value :: "char \<Rightarrow> nat" where
  "hex_value c = (if c \<in> set ''0123456789'' then of_char c - 48 else of_char c - 87)"

lemma hex_value_digit: "n < 16 \<Longrightarrow> hex_value (hex_digit n) = n"
proof -
  have "list_all (\<lambda>n. hex_value (hex_digit n) = n) [0..<16]" by code_simp
  then show "n < 16 \<Longrightarrow> hex_value (hex_digit n) = n" by (auto simp: list_all_iff)
qed

text \<open>\<open>hex.EncodeToString\<close>.\<close>

definition hex_encode :: "8 word list \<Rightarrow> string" where
  "hex_encode bs = concat (map (\<lambda>b. [hex_digit (unat b div 16), hex_digit (unat b mod 16)]) bs)"

lemma hex_encode_inj: "hex_encode bs = hex_encode bs' \<Longrightarrow> bs = bs'"
proof (induction bs arbitrary: bs')
  case Nil
  then show ?case by (cases bs') (auto simp: hex_encode_def)
next
  case (Cons b bs)
  then obtain b' bs1 where b': "bs' = b' # bs1" by (cases bs') (auto simp: hex_encode_def)
  have lt: "unat x div 16 < 16" for x :: "8 word"
  proof -
    have "unat x < 2 ^ LENGTH(8)" by (rule unsigned_less)
    then show ?thesis by simp
  qed
  from Cons.prems b' have d: "hex_digit (unat b div 16) = hex_digit (unat b' div 16)"
    "hex_digit (unat b mod 16) = hex_digit (unat b' mod 16)" and rest: "hex_encode bs = hex_encode bs1"
    by (auto simp: hex_encode_def)
  have "unat b div 16 = unat b' div 16" using arg_cong [OF d(1), of hex_value] lt by (simp add: hex_value_digit)
  moreover have "unat b mod 16 = unat b' mod 16" using arg_cong [OF d(2), of hex_value] by (simp add: hex_value_digit)
  ultimately have "unat b = unat b'" by (metis div_mult_mod_eq)
  then have "b = b'" by (rule unsigned_word_eqI)
  with Cons.IH [OF rest] b' show ?case by simp
qed

section \<open>The window over message pairs\<close>

text \<open>
  \<open>excess := len - max; if excess%2 != 0 { excess++ }; xs = xs[excess:]\<close>, executed when \<open>len > max\<close>.
\<close>

definition pair_excess :: "int \<Rightarrow> int \<Rightarrow> int" where
  "pair_excess len mx = (let excess = len - mx in if excess mod 2 \<noteq> 0 then excess + 1 else excess)"

definition keep_recent :: "int \<Rightarrow> 'a list \<Rightarrow> 'a list" where
  "keep_recent mx xs =
     (if int (length xs) > mx then drop (nat (pair_excess (int (length xs)) mx)) xs else xs)"

text \<open>The slice expression never panics: the excess is at most the length.\<close>

lemma pair_excess_le:
  assumes "2 \<le> mx" and "len > mx"
  shows "0 < pair_excess len mx \<and> pair_excess len mx \<le> len"
  using assms by (auto simp: pair_excess_def Let_def)

lemma pair_excess_even: "even (pair_excess len mx)"
  by (auto simp: pair_excess_def Let_def) presburger

lemma length_keep_recent_le:
  assumes "0 \<le> mx"
  shows "int (length (keep_recent mx xs)) \<le> mx"
  using assms by (auto simp: keep_recent_def pair_excess_def Let_def)

lemma even_length_keep_recent:
  assumes "2 \<le> mx" and "even (length xs)"
  shows "even (length (keep_recent mx xs))"
proof (cases "int (length xs) > mx")
  case True
  let ?e = "pair_excess (int (length xs)) mx"
  have "0 < ?e \<and> ?e \<le> int (length xs)" using pair_excess_le [OF assms(1) True] .
  moreover have "even (nat ?e)" using pair_excess_even [of "int (length xs)" mx] calculation
    by (simp add: even_nat_iff)
  ultimately show ?thesis using assms(2) True by (simp add: keep_recent_def)
qed (use assms in \<open>simp add: keep_recent_def\<close>)

lemma suffix_keep_recent: "suffix (keep_recent mx xs) xs"
  by (simp add: keep_recent_def suffix_drop)

lemma set_keep_recent: "set (keep_recent mx xs) \<subseteq> set xs"
  by (simp add: keep_recent_def set_drop_subset)

text \<open>For an even limit and an even length, the window is exactly the last \<open>mx\<close> elements.\<close>

lemma keep_recent_even:
  assumes "even mx" and "even (length xs)" and "0 \<le> mx"
  shows "keep_recent mx xs = drop (length xs - nat mx) xs"
  using assms by (auto simp: keep_recent_def pair_excess_def Let_def nat_diff_distrib')

lemma keep_recent_append:
  assumes "even mx" "2 \<le> mx" "even (length xs)" "even (length ys)"
  shows "keep_recent mx (keep_recent mx xs @ ys) = keep_recent mx (xs @ ys)"
proof -
  have xs: "keep_recent mx xs = drop (length xs - nat mx) xs"
    using assms by (simp add: keep_recent_even)
  have "even (length (keep_recent mx xs @ ys))"
    using even_length_keep_recent [OF assms(2,3)] assms(4) by simp
  then have "keep_recent mx (keep_recent mx xs @ ys) =
      drop (length (keep_recent mx xs @ ys) - nat mx) (keep_recent mx xs @ ys)"
    using assms(1,2) by (intro keep_recent_even) auto
  also have "\<dots> = drop (length (xs @ ys) - nat mx) (xs @ ys)"
    by (cases "nat mx \<le> length xs") (auto simp: xs add.commute)
  also have "\<dots> = keep_recent mx (xs @ ys)"
    using assms by (simp add: keep_recent_even)
  finally show ?thesis .
qed

end
