(* ===== verification/Session_Types.thy ===== *)
theory Session_Types
  imports Prelude
begin

text \<open>
  The values that travel through every component: the authenticated principal and the request
  context that carries it (internal/auth/types.go, internal/auth/context.go,
  internal/observability/context.go), the session key of a conversation and its two string keys
  (internal/conversation/store.go, lock.go), and chat messages with the copy the stores make of
  them. The lemmas show what the string keys identify: they are injective as long as the tenant and
  user IDs hold no colon, and not otherwise.
\<close>

section \<open>Principals and contexts\<close>

record principal =
  p_user_id :: string
  p_tenant_id :: string
  p_username :: string
  p_roles :: "string list"

record request_info =
  ri_request_id :: string
  ri_conversation_id :: string
  ri_tenant_id :: string
  ri_user_id :: string

text \<open>The component that a callback of the agent library is about.\<close>

record run_info =
  ri_component :: string
  ri_name :: string
  ri_type :: string

text \<open>
  What the program reads of a \<open>context.Context\<close>: the error of a finished context and the two values
  stored under the program's own keys. A nil context is \<open>None\<close>.
\<close>

record ctx =
  ctx_err :: "go_error option"
  ctx_principal :: "principal option"
  ctx_info :: "request_info option"

definition background :: ctx where
  "background = \<lparr>ctx_err = None, ctx_principal = None, ctx_info = None\<rparr>"

definition with_principal :: "ctx \<Rightarrow> principal \<Rightarrow> ctx" where
  "with_principal c p = c\<lparr>ctx_principal := Some p\<rparr>"

definition principal_from_context :: "ctx \<Rightarrow> principal option" where
  "principal_from_context c = ctx_principal c"

definition with_request_info :: "ctx \<Rightarrow> request_info \<Rightarrow> ctx" where
  "with_request_info c i = c\<lparr>ctx_info := Some i\<rparr>"

definition empty_request_info :: request_info where
  "empty_request_info =
     \<lparr>ri_request_id = [], ri_conversation_id = [], ri_tenant_id = [], ri_user_id = []\<rparr>"

definition request_info_from_context :: "ctx \<Rightarrow> request_info" where
  "request_info_from_context c = (case ctx_info c of None \<Rightarrow> empty_request_info | Some i \<Rightarrow> i)"

definition context_err :: "ctx option \<Rightarrow> go_error option" where
  "context_err c = (case c of None \<Rightarrow> None | Some c' \<Rightarrow> ctx_err c')"

lemma principal_with [simp]: "principal_from_context (with_principal c p) = Some p"
  by (simp add: principal_from_context_def with_principal_def)

lemma request_info_with [simp]: "request_info_from_context (with_request_info c i) = i"
  by (simp add: request_info_from_context_def with_request_info_def)

lemma principal_with_request_info [simp]:
  "principal_from_context (with_request_info c i) = principal_from_context c"
  by (simp add: principal_from_context_def with_request_info_def)

lemma ctx_err_with [simp]:
  "ctx_err (with_principal c p) = ctx_err c" "ctx_err (with_request_info c i) = ctx_err c"
  by (simp_all add: with_principal_def with_request_info_def)

lemma context_err_simps [simp]:
  "context_err None = None" "context_err (Some c) = ctx_err c" "ctx_err background = None"
  by (simp_all add: context_err_def background_def)

section \<open>Session keys\<close>

record session_key =
  sk_tenant :: string
  sk_user :: string
  sk_conversation :: string

definition validate_key :: "session_key \<Rightarrow> go_error option" where
  "validate_key k =
     (if sk_tenant k = [] \<or> sk_user k = [] \<or> sk_conversation k = []
      then Some ErrInvalidSessionKey else None)"

definition storage_key :: "session_key \<Rightarrow> string" where
  "storage_key k =
     ''conversation:'' @ sk_tenant k @ '':'' @ sk_user k @ '':'' @ sk_conversation k"

definition redis_lock_key :: "session_key \<Rightarrow> string" where
  "redis_lock_key k = ''conversation:lock:'' @ storage_key k"

text \<open>A key whose tenant and user IDs hold no colon; the conversation ID may hold any.\<close>

definition colon_free :: "session_key \<Rightarrow> bool" where
  "colon_free k \<longleftrightarrow> CHR '':'' \<notin> set (sk_tenant k) \<and> CHR '':'' \<notin> set (sk_user k)"

lemma sep_append_eq:
  assumes "c \<notin> set a" and "c \<notin> set b" and "a @ c # x = b @ c # y"
  shows "a = b \<and> x = y"
  using assms
proof (induction a arbitrary: b)
  case Nil
  then show ?case by (cases b) auto
next
  case (Cons d a)
  then show ?case by (cases b) auto
qed

lemma storage_key_inj_colon_free:
  assumes "colon_free k" and "colon_free k'" and "storage_key k = storage_key k'"
  shows "k = k'"
proof -
  have "sk_tenant k @ CHR '':'' # sk_user k @ CHR '':'' # sk_conversation k =
        sk_tenant k' @ CHR '':'' # sk_user k' @ CHR '':'' # sk_conversation k'"
    using assms(3) by (simp add: storage_key_def)
  then have "sk_tenant k = sk_tenant k' \<and>
      sk_user k @ CHR '':'' # sk_conversation k = sk_user k' @ CHR '':'' # sk_conversation k'"
    using assms(1,2) by (intro sep_append_eq) (auto simp: colon_free_def)
  moreover from this have "sk_user k = sk_user k' \<and> sk_conversation k = sk_conversation k'"
    using assms(1,2) by (intro sep_append_eq) (auto simp: colon_free_def)
  ultimately show ?thesis by (cases k, cases k') simp
qed

lemma validate_key_None:
  "validate_key k = None \<longleftrightarrow> sk_tenant k \<noteq> [] \<and> sk_user k \<noteq> [] \<and> sk_conversation k \<noteq> []"
  by (simp add: validate_key_def)

lemma validate_key_Some: "validate_key k = Some e \<longleftrightarrow> validate_key k \<noteq> None \<and> e = ErrInvalidSessionKey"
  by (auto simp: validate_key_def)

section \<open>Messages\<close>

text \<open>
  \<open>schema.Message\<close> is a type of the library; the record holds the fields the program touches. Parts
  and tool calls are opaque values; a nil slice or map is \<open>None\<close>. A \<open>*schema.Message\<close> is an option.
\<close>

datatype role = User | Assistant | System | Tool

record message =
  msg_role :: role
  msg_content :: string
  msg_multi_content :: "string list option"
  msg_user_multi :: "string list option"
  msg_assistant_multi :: "string list option"
  msg_tool_calls :: "string list option"
  msg_extra :: "(string \<times> string) list option"

type_synonym msgptr = "message option"

definition plain_message :: "role \<Rightarrow> string \<Rightarrow> message" where
  "plain_message r s =
     \<lparr>msg_role = r, msg_content = s, msg_multi_content = None, msg_user_multi = None,
      msg_assistant_multi = None, msg_tool_calls = None, msg_extra = None\<rparr>"

abbreviation user_message :: "string \<Rightarrow> message" where
  "user_message \<equiv> plain_message User"

abbreviation assistant_message :: "string \<Rightarrow> message" where
  "assistant_message \<equiv> plain_message Assistant"

text \<open>\<open>append([]T(nil), xs...)\<close>: a copy, nil for an empty slice.\<close>

definition clone_slice :: "'a list option \<Rightarrow> 'a list option" where
  "clone_slice xs = (case xs of None \<Rightarrow> None | Some [] \<Rightarrow> None | Some ys \<Rightarrow> Some ys)"

definition clone_message :: "message \<Rightarrow> message" where
  "clone_message m =
     m\<lparr>msg_multi_content := clone_slice (msg_multi_content m),
       msg_user_multi := clone_slice (msg_user_multi m),
       msg_assistant_multi := clone_slice (msg_assistant_multi m),
       msg_tool_calls := clone_slice (msg_tool_calls m)\<rparr>"

definition clone_messages :: "msgptr list \<Rightarrow> msgptr list" where
  "clone_messages ms = map (map_option clone_message) ms"

lemma clone_slice_idem [simp]: "clone_slice (clone_slice xs) = clone_slice xs"
  by (simp add: clone_slice_def split: option.splits list.splits)

lemma clone_message_idem [simp]: "clone_message (clone_message m) = clone_message m"
  by (simp add: clone_message_def)

lemma clone_message_role [simp]: "msg_role (clone_message m) = msg_role m"
  and clone_message_content [simp]: "msg_content (clone_message m) = msg_content m"
  by (simp_all add: clone_message_def)

lemma clone_message_plain [simp]: "clone_message (plain_message r s) = plain_message r s"
  by (simp add: clone_message_def plain_message_def clone_slice_def)

lemma plain_message_sel [simp]:
  "msg_role (plain_message r s) = r" "msg_content (plain_message r s) = s"
  by (simp_all add: plain_message_def)

lemma plain_message_inject [simp]: "plain_message r s = plain_message r' s' \<longleftrightarrow> r = r' \<and> s = s'"
  by (auto simp: plain_message_def)

lemma length_clone_messages [simp]: "length (clone_messages ms) = length ms"
  by (simp add: clone_messages_def)

text \<open>Messages already copied once are fixed points of the copy.\<close>

definition cloned :: "msgptr \<Rightarrow> bool" where
  "cloned p \<longleftrightarrow> (\<exists>m. p = Some m \<and> clone_message m = m)"

lemma cloned_clone [simp]: "cloned (Some (clone_message m))"
  by (simp add: cloned_def)

lemma clone_messages_fixed: "list_all cloned ms \<Longrightarrow> clone_messages ms = ms"
  by (induction ms) (auto simp: clone_messages_def cloned_def)

section \<open>Digests and random names\<close>

text \<open>\<open>messagePairHash\<close>: the hash over the JSON of both messages. The stores take it as an argument.\<close>

definition message_pair_hash ::
  "(message list \<Rightarrow> string result) \<Rightarrow> (string \<Rightarrow> 8 word list) \<Rightarrow> message \<Rightarrow> message \<Rightarrow> string result" where
  "message_pair_hash marshal sha256 u a =
     (case marshal [u, a] of
        Inl e \<Rightarrow> Inl (ErrWrap ''encode idempotency payload: '' e)
      | Inr payload \<Rightarrow> Inr (hex_encode (sha256 payload)))"

text \<open>\<open>randomLockToken\<close> and \<open>randomID\<close> on what \<open>rand.Read\<close> gives for a buffer of 16 bytes.\<close>

definition randomLockToken :: "8 word list result \<Rightarrow> string result" where
  "randomLockToken raw = (case raw of Inl e \<Rightarrow> Inl e | Inr bs \<Rightarrow> Inr (hex_encode bs))"

definition randomID :: "8 word list result \<Rightarrow> string result" where
  "randomID raw = (case raw of Inl e \<Rightarrow> Inl e | Inr bs \<Rightarrow> Inr (hex_encode bs))"

text \<open>Equal hashes mean equal payloads up to a collision of the hash; equal tokens mean equal random bytes.\<close>

lemma message_pair_hash_eq:
  assumes "message_pair_hash marshal sha256 u a = Inr h" and "message_pair_hash marshal sha256 u' a' = Inr h"
  obtains p p' where "marshal [u, a] = Inr p" "marshal [u', a'] = Inr p'" "sha256 p = sha256 p'"
  using assms by (auto simp: message_pair_hash_def dest: hex_encode_inj split: sum.splits)

lemma random_tokens_differ:
  "randomLockToken (Inr bs) = randomLockToken (Inr bs') \<longleftrightarrow> bs = bs'" "randomID (Inr bs) = randomID (Inr bs') \<longleftrightarrow> bs = bs'"
  by (auto simp: randomLockToken_def randomID_def dest: hex_encode_inj)

end
