(* ===== verification/Store_Interface.thy ===== *)
theory Store_Interface
  imports Session_Types
begin

text \<open>
  The Go interfaces \<open>ConversationStore\<close> and \<open>IdempotentConversationStore\<close>
  (internal/conversation/store.go) as locales: the operations as parameters, an abstract view of a
  store (for every session key the window of messages and the version; every message of a window is non-nil
  and a fixed point of the copy the stores make), and the laws every
  implementation promises. The client lemmas are proved once here: a sequence of appended turns
  leaves the last messages of the whole transcript, an append with a stale version never
  overwrites, and a retried turn is stored at most once.

  An append that reports an error has either no effect or its whole effect: the SQL store cannot
  tell, when the acknowledgement of a commit is lost, which of the two happened.
\<close>

type_synonym 's loader = "ctx option \<Rightarrow> session_key \<Rightarrow> ('s, msgptr list \<times> int64) op"
type_synonym 's appender = "ctx option \<Rightarrow> session_key \<Rightarrow> msgptr \<Rightarrow> msgptr \<Rightarrow> ('s, unit) op"
type_synonym 's versioned =
  "ctx option \<Rightarrow> session_key \<Rightarrow> int64 \<Rightarrow> msgptr \<Rightarrow> msgptr \<Rightarrow> ('s, bool) op"
type_synonym 's idempotent =
  "ctx option \<Rightarrow> session_key \<Rightarrow> string \<Rightarrow> msgptr \<Rightarrow> msgptr \<Rightarrow> ('s, bool) op"
type_synonym transcript = "msgptr list \<times> int64"

text \<open>The abstract effect of one committed turn on one conversation.\<close>

definition spec_turn :: "int \<Rightarrow> message \<Rightarrow> message \<Rightarrow> transcript \<Rightarrow> transcript" where
  "spec_turn lim u a t = (keep_recent lim (fst t @ [Some u, Some a]), snd t + 1)"

definition window_ok :: "int \<Rightarrow> transcript \<Rightarrow> bool" where
  "window_ok lim t \<longleftrightarrow>
     even (length (fst t)) \<and> int (length (fst t)) \<le> lim \<and> list_all cloned (fst t)"

lemma window_ok_spec_turn:
  assumes "2 \<le> lim" and "window_ok lim t" and "cloned (Some u)" and "cloned (Some a)"
  shows "window_ok lim (spec_turn lim u a t)"
proof -
  have "list_all cloned (fst t @ [Some u, Some a])"
    using assms by (simp add: window_ok_def)
  then have "list_all cloned (keep_recent lim (fst t @ [Some u, Some a]))"
    using set_keep_recent [of lim "fst t @ [Some u, Some a]"] by (auto simp: list_all_iff)
  with assms show ?thesis
    by (simp add: window_ok_def spec_turn_def length_keep_recent_le even_length_keep_recent)
qed

lemma window_ok_empty [simp]: "2 \<le> lim \<Longrightarrow> window_ok lim ([], v)"
  by (simp add: window_ok_def)

locale conversation_store =
  fixes load :: "'s loader"
    and append :: "'s appender"
    and append_if :: "'s versioned"
    and view :: "'s \<Rightarrow> session_key \<Rightarrow> transcript"
    and inv :: "'s \<Rightarrow> bool"
    and limit :: "'s \<Rightarrow> int"
    and canon :: "message \<Rightarrow> message"
    and ok_key :: "session_key \<Rightarrow> bool"
  assumes limit_ok: "inv s \<Longrightarrow> even (limit s) \<and> 2 \<le> limit s"
    and view_window: "inv s \<Longrightarrow> window_ok (limit s) (view s k)"
    and load_keeps: "inv s \<Longrightarrow> ok_key k \<Longrightarrow> load c k s = (s', r) \<Longrightarrow>
      inv s' \<and> limit s' = limit s \<and> view s' = view s"
    and load_ok: "inv s \<Longrightarrow> ok_key k \<Longrightarrow> load c k s = (s', Inr t) \<Longrightarrow> t = view s k"
    and append_keeps: "inv s \<Longrightarrow> ok_key k \<Longrightarrow> append c k u a s = (s', ra) \<Longrightarrow>
      inv s' \<and> limit s' = limit s"
    and append_ok: "inv s \<Longrightarrow> ok_key k \<Longrightarrow> append c k u a s = (s', Inr x) \<Longrightarrow>
      \<exists>mu ma. u = Some mu \<and> a = Some ma \<and> validate_key k = None \<and>
        view s' = (view s)(k := spec_turn (limit s) (canon mu) (canon ma) (view s k))"
    and append_err: "inv s \<Longrightarrow> ok_key k \<Longrightarrow> append c k u a s = (s', Inl e) \<Longrightarrow>
      view s' = view s \<or>
      (\<exists>mu ma. u = Some mu \<and> a = Some ma \<and> validate_key k = None \<and>
        view s' = (view s)(k := spec_turn (limit s) (canon mu) (canon ma) (view s k)))"
    and append_if_keeps: "inv s \<Longrightarrow> ok_key k \<Longrightarrow> append_if c k v u a s = (s', rb) \<Longrightarrow>
      inv s' \<and> limit s' = limit s"
    and append_if_true: "inv s \<Longrightarrow> ok_key k \<Longrightarrow> append_if c k v u a s = (s', Inr True) \<Longrightarrow>
      \<exists>mu ma. u = Some mu \<and> a = Some ma \<and> snd (view s k) = v \<and>
        view s' = (view s)(k := spec_turn (limit s) (canon mu) (canon ma) (view s k))"
    and append_if_false: "inv s \<Longrightarrow> ok_key k \<Longrightarrow> append_if c k v u a s = (s', Inr False) \<Longrightarrow>
      snd (view s k) \<noteq> v \<and> view s' = view s"
    and append_if_err: "inv s \<Longrightarrow> ok_key k \<Longrightarrow> append_if c k v u a s = (s', Inl e) \<Longrightarrow>
      view s' = view s \<or>
      (\<exists>mu ma. u = Some mu \<and> a = Some ma \<and> snd (view s k) = v \<and>
        view s' = (view s)(k := spec_turn (limit s) (canon mu) (canon ma) (view s k)))"

locale idempotent_store = conversation_store +
  fixes append_idem :: "'a idempotent"
    and used :: "'a \<Rightarrow> session_key \<Rightarrow> string \<rightharpoonup> string"
    and turn_hash :: "message \<Rightarrow> message \<Rightarrow> string result"
  assumes load_used: "inv s \<Longrightarrow> ok_key k \<Longrightarrow> load c k s = (s', r) \<Longrightarrow> used s' = used s"
    and append_used: "inv s \<Longrightarrow> ok_key k \<Longrightarrow> append c k u a s = (s', ra) \<Longrightarrow> used s' = used s"
    and idem_keeps: "inv s \<Longrightarrow> ok_key k \<Longrightarrow> append_idem c k ik u a s = (s', rb) \<Longrightarrow>
      inv s' \<and> limit s' = limit s"
    and idem_true: "inv s \<Longrightarrow> ok_key k \<Longrightarrow> append_idem c k ik u a s = (s', Inr True) \<Longrightarrow>
      \<exists>mu ma h. u = Some mu \<and> a = Some ma \<and> turn_hash mu ma = Inr h \<and> used s k ik = None \<and>
        view s' = (view s)(k := spec_turn (limit s) (canon mu) (canon ma) (view s k)) \<and>
        used s' = (used s)(k := (used s k)(ik \<mapsto> h))"
    and idem_false: "inv s \<Longrightarrow> ok_key k \<Longrightarrow> append_idem c k ik u a s = (s', Inr False) \<Longrightarrow>
      \<exists>mu ma h. u = Some mu \<and> a = Some ma \<and> turn_hash mu ma = Inr h \<and> used s k ik = Some h \<and>
        view s' = view s \<and> used s' = used s"
    and idem_err: "inv s \<Longrightarrow> ok_key k \<Longrightarrow> append_idem c k ik u a s = (s', Inl e) \<Longrightarrow>
      (view s' = view s \<and> used s' = used s) \<or>
      (\<exists>mu ma h. u = Some mu \<and> a = Some ma \<and> turn_hash mu ma = Inr h \<and> used s k ik = None \<and>
        view s' = (view s)(k := spec_turn (limit s) (canon mu) (canon ma) (view s k)) \<and>
        used s' = (used s)(k := (used s k)(ik \<mapsto> h)))"

text \<open>
  A store that respects its context: an append under a finished context fails and has no effect. It is
  what lets a lost lock stop a turn.
\<close>

locale cancellable_store = idempotent_store +
  assumes append_finished: "append c k u a s = (s', ra) \<Longrightarrow> context_err c \<noteq> None \<Longrightarrow>
      view s' = view s \<and> (\<exists>e. ra = Inl e)"
    and idem_finished: "append_idem c k ik u a s = (s', rb) \<Longrightarrow> context_err c \<noteq> None \<Longrightarrow>
      view s' = view s \<and> (\<exists>e. rb = Inl e)"

section \<open>Clients\<close>

text \<open>A run of turns on one conversation, stopped at the first error.\<close>

fun append_turns :: "'s appender \<Rightarrow> session_key \<Rightarrow> (ctx option \<times> message \<times> message) list \<Rightarrow> ('s, unit) op" where
  "append_turns app k [] s = (s, Inr ())"
| "append_turns app k ((c, u, a) # ts) s =
     (case app c k (Some u) (Some a) s of
        (s', Inl e) \<Rightarrow> (s', Inl e)
      | (s', Inr _) \<Rightarrow> append_turns app k ts s')"

text \<open>The same turn sent again and again with the same idempotency key; the results in order.\<close>

fun resend :: "'s idempotent \<Rightarrow> session_key \<Rightarrow> string \<Rightarrow> message \<Rightarrow> message \<Rightarrow> ctx option list \<Rightarrow> 's \<Rightarrow> 's \<times> bool result list" where
  "resend app k ik u a [] s = (s, [])"
| "resend app k ik u a (c # cs) s =
     (let (s', r) = app c k ik (Some u) (Some a) s; (s'', rs) = resend app k ik u a cs s'
      in (s'', r # rs))"

definition flat_turns :: "(message \<Rightarrow> message) \<Rightarrow> (ctx option \<times> message \<times> message) list \<Rightarrow> msgptr list" where
  "flat_turns f ts = concat (map (\<lambda>(c, u, a). [Some (f u), Some (f a)]) ts)"

lemma even_length_flat_turns [simp]: "even (length (flat_turns f ts))"
  by (induction ts) (auto simp: flat_turns_def)

lemma flat_turns_Cons: "flat_turns f ((c, u, a) # ts) = [Some (f u), Some (f a)] @ flat_turns f ts"
  by (simp add: flat_turns_def)

context conversation_store
begin

lemma view_even: "inv s \<Longrightarrow> even (length (fst (view s k)))"
  using view_window [of s k] by (simp add: window_ok_def)

lemma append_turns_view:
  assumes "inv s" and "ok_key k" and "append_turns append k ts s = (s', Inr ())" and "ts \<noteq> []"
  shows "view s' k = (keep_recent (limit s) (fst (view s k) @ flat_turns canon ts),
                      snd (view s k) + of_nat (length ts)) \<and>
         (\<forall>k'. k' \<noteq> k \<longrightarrow> view s' k' = view s k') \<and> inv s' \<and> limit s' = limit s"
  using assms
proof (induction ts arbitrary: s)
  case (Cons t ts)
  obtain c u a where t: "t = (c, u, a)" by (cases t)
  from Cons.prems(3) t obtain s1 where
    s1: "append c k (Some u) (Some a) s = (s1, Inr ())" "append_turns append k ts s1 = (s', Inr ())"
    by (auto split: prod.splits sum.splits)
  have v1: "view s1 = (view s)(k := spec_turn (limit s) (canon u) (canon a) (view s k))"
    using append_ok [OF Cons.prems(1,2) s1(1)] by auto
  have k1: "inv s1" "limit s1 = limit s"
    using append_keeps [OF Cons.prems(1,2) s1(1)] by auto
  note even = view_even [OF Cons.prems(1), of k] limit_ok [OF Cons.prems(1)]
  show ?case
  proof (cases "ts = []")
    case True
    with s1 v1 k1 t show ?thesis by (auto simp: spec_turn_def flat_turns_def)
  next
    case False
    from Cons.IH [OF k1(1) Cons.prems(2) s1(2) False] v1 k1(2) t even show ?thesis
      by (auto simp: spec_turn_def flat_turns_Cons keep_recent_append
          simp del: append_Cons append_Nil)
  qed
qed simp

lemma stale_append_if:
  assumes "inv s" and "ok_key k" and "snd (view s k) \<noteq> v"
    and "append_if c k v u a s = (s', r)"
  shows "view s' = view s \<and> r \<noteq> Inr True"
proof (cases r)
  case (Inl e)
  with append_if_err [OF assms(1,2)] assms(3,4) show ?thesis by blast
next
  case (Inr b)
  show ?thesis
  proof (cases b)
    case True
    with Inr append_if_true [OF assms(1,2)] assms(3,4) show ?thesis by fastforce
  next
    case False
    with Inr append_if_false [OF assms(1,2)] assms(3,4) show ?thesis by auto
  qed
qed

end

context idempotent_store
begin

lemma resend_done:
  assumes "inv s" and "ok_key k" and "used s k ik = Some h"
    and "resend append_idem k ik u a cs s = (s', rs)"
  shows "view s' = view s \<and> used s' = used s \<and> Inr True \<notin> set rs \<and> inv s'"
  using assms
proof (induction cs arbitrary: s rs)
  case (Cons c cs)
  obtain s1 r where s1: "append_idem c k ik (Some u) (Some a) s = (s1, r)" by fastforce
  obtain rs' where rs': "resend append_idem k ik u a cs s1 = (s', rs')" "rs = r # rs'"
    using Cons.prems(4) s1 by (auto split: prod.splits)
  have same: "view s1 = view s \<and> used s1 = used s \<and> r \<noteq> Inr True"
  proof (cases r)
    case (Inl e)
    with idem_err [OF Cons.prems(1,2)] Cons.prems(3) s1 show ?thesis by fastforce
  next
    case (Inr b)
    with idem_true [OF Cons.prems(1,2)] idem_false [OF Cons.prems(1,2)] Cons.prems(3) s1
    show ?thesis by (cases b) fastforce+
  qed
  have "inv s1" using idem_keeps [OF Cons.prems(1,2) s1] by simp
  with Cons.IH [OF _ Cons.prems(2) _ rs'(1)] same Cons.prems(3) rs'(2) show ?case by auto
qed simp

text \<open>At most one effect, and exactly one as soon as one attempt reports no error.\<close>

lemma resend_once:
  assumes "inv s" and "ok_key k" and "used s k ik = None"
    and "resend append_idem k ik u a cs s = (s', rs)"
  shows "(view s' = view s \<and> (\<forall>r \<in> set rs. \<exists>e. r = Inl e)) \<or>
         view s' = (view s)(k := spec_turn (limit s) (canon u) (canon a) (view s k))"
  using assms
proof (induction cs arbitrary: s rs)
  case (Cons c cs)
  obtain s1 r where s1: "append_idem c k ik (Some u) (Some a) s = (s1, r)" by fastforce
  obtain rs' where rs': "resend append_idem k ik u a cs s1 = (s', rs')" "rs = r # rs'"
    using Cons.prems(4) s1 by (auto split: prod.splits)
  have i1: "inv s1" and l1: "limit s1 = limit s" using idem_keeps [OF Cons.prems(1,2) s1] by auto
  consider (same) e where "r = Inl e" "view s1 = view s" "used s1 = used s"
    | (stored) h where "used s1 k ik = Some h"
        "view s1 = (view s)(k := spec_turn (limit s) (canon u) (canon a) (view s k))"
  proof (cases r)
    case (Inl e)
    with idem_err [OF Cons.prems(1,2)] s1 that show ?thesis by fastforce
  next
    case (Inr b)
    with idem_true [OF Cons.prems(1,2)] idem_false [OF Cons.prems(1,2)] Cons.prems(3) s1 that
    show ?thesis by (cases b) fastforce+
  qed
  then show ?case
  proof cases
    case same
    with Cons.IH [OF i1 Cons.prems(2) _ rs'(1)] Cons.prems(3) rs'(2) l1 show ?thesis by auto
  next
    case stored
    with resend_done [OF i1 Cons.prems(2) _ rs'(1)] show ?thesis by auto
  qed
qed simp

lemma reused_key_rejected:
  assumes "inv s" and "ok_key k" and "used s k ik = Some h" and "turn_hash u a = Inr h'" and "h' \<noteq> h"
    and "append_idem c k ik (Some u) (Some a) s = (s', r)"
  shows "view s' = view s \<and> used s' = used s \<and> (\<exists>e. r = Inl e)"
proof (cases r)
  case (Inl e)
  with idem_err [OF assms(1,2)] assms(3,6) show ?thesis by fastforce
next
  case (Inr b)
  with idem_true [OF assms(1,2)] idem_false [OF assms(1,2)] assms(3-6) show ?thesis
    by (cases b) fastforce+
qed

end

end
