(* ===== verification/Memory_Store.thy ===== *)
theory Memory_Store
  imports Store_Interface
begin

text \<open>
  \<open>MemoryStore\<close> of internal/conversation/store.go: the two concurrent maps as one state, one
  definition per operation. Each operation holds the mutex of the entry (of the idempotency marker)
  for its whole body, so one call is one atomic step. The invariant: an even limit of at least two,
  and in every entry an even number of non-nil copied messages within the limit. The theory
  interprets both store interfaces on these operations.

  \<open>messagePairHash\<close> (SHA-256 over the JSON of the library's message type) is the argument \<open>hash\<close>.
\<close>

record memory_entry =
  me_messages :: "msgptr list"
  me_version :: int64

record memory_store =
  ms_max :: int
  ms_entries :: "session_key \<rightharpoonup> memory_entry"
  ms_idem :: "session_key \<rightharpoonup> (string \<rightharpoonup> string)"

definition new_memory_store :: "int \<Rightarrow> memory_store" where
  "new_memory_store max_messages =
     (let m = (if max_messages < 2 then 6 else max_messages);
          m' = (if m mod 2 \<noteq> 0 then m - 1 else m)
      in \<lparr>ms_max = m', ms_entries = Map.empty, ms_idem = Map.empty\<rparr>)"

definition empty_entry :: memory_entry where
  "empty_entry = \<lparr>me_messages = [], me_version = 0\<rparr>"

text \<open>\<open>LoadOrStore\<close>: the entry of a key, created when it is missing.\<close>

definition ms_entry :: "session_key \<Rightarrow> memory_store \<Rightarrow> memory_store \<times> memory_entry" where
  "ms_entry k s =
     (case ms_entries s k of
        Some e \<Rightarrow> (s, e)
      | None \<Rightarrow> (s\<lparr>ms_entries := (ms_entries s)(k \<mapsto> empty_entry)\<rparr>, empty_entry))"

definition ms_marker :: "session_key \<Rightarrow> memory_store \<Rightarrow> memory_store \<times> (string \<rightharpoonup> string)" where
  "ms_marker k s =
     (case ms_idem s k of
        Some m \<Rightarrow> (s, m)
      | None \<Rightarrow> (s\<lparr>ms_idem := (ms_idem s)(k \<mapsto> Map.empty)\<rparr>, Map.empty))"

definition mem_load :: "memory_store loader" where
  "mem_load c k s =
     (case context_err c of Some e \<Rightarrow> (s, Inl e) | None \<Rightarrow>
      case validate_key k of Some e \<Rightarrow> (s, Inl e) | None \<Rightarrow>
      (let (s1, e) = ms_entry k s
       in (s1, Inr (clone_messages (me_messages e), me_version e))))"

definition mem_append_core ::
  "ctx option \<Rightarrow> session_key \<Rightarrow> int64 \<Rightarrow> msgptr \<Rightarrow> msgptr \<Rightarrow> bool \<Rightarrow> (memory_store, bool) op" where
  "mem_append_core c k expected u a check_version s =
     (case context_err c of Some e \<Rightarrow> (s, Inl e) | None \<Rightarrow>
      case validate_key k of Some e \<Rightarrow> (s, Inl e) | None \<Rightarrow>
      case (u, a) of
        (Some mu, Some ma) \<Rightarrow>
          (let (s1, e) = ms_entry k s
           in if check_version \<and> me_version e \<noteq> expected then (s1, Inr False)
              else
                let msgs = me_messages e @ [Some (clone_message mu), Some (clone_message ma)];
                    e' = \<lparr>me_messages = keep_recent (ms_max s1) msgs, me_version = me_version e + 1\<rparr>
                in (s1\<lparr>ms_entries := (ms_entries s1)(k \<mapsto> e')\<rparr>, Inr True))
      | _ \<Rightarrow> (s, Inl ErrInvalidMessage))"

definition mem_append :: "memory_store appender" where
  "mem_append c k u a s =
     (case mem_append_core c k 0 u a False s of
        (s', Inl e) \<Rightarrow> (s', Inl e) | (s', Inr _) \<Rightarrow> (s', Inr ()))"

definition mem_append_if_version :: "memory_store versioned" where
  "mem_append_if_version c k v u a s = mem_append_core c k v u a True s"

definition mem_append_idempotent ::
  "(message \<Rightarrow> message \<Rightarrow> string result) \<Rightarrow> memory_store idempotent" where
  "mem_append_idempotent hash c k ik u a s =
     (case context_err c of Some e \<Rightarrow> (s, Inl e) | None \<Rightarrow>
      case validate_key k of Some e \<Rightarrow> (s, Inl e) | None \<Rightarrow>
      if trim_space ik = [] then (s, Inl (ErrText ''idempotency key is required'')) else
      case (u, a) of
        (Some mu, Some ma) \<Rightarrow>
          (case hash mu ma of
             Inl e \<Rightarrow> (s, Inl e)
           | Inr h \<Rightarrow>
               (let (s1, marker) = ms_marker k s
                in case marker ik of
                     Some previous \<Rightarrow>
                       (s1, if previous \<noteq> h then Inl ErrIdempotencyConflict else Inr False)
                   | None \<Rightarrow>
                       (case mem_append c k u a s1 of
                          (s2, Inl e) \<Rightarrow> (s2, Inl e)
                        | (s2, Inr _) \<Rightarrow>
                            (s2\<lparr>ms_idem := (ms_idem s2)(k \<mapsto> marker(ik \<mapsto> h))\<rparr>, Inr True))))
      | _ \<Rightarrow> (s, Inl ErrInvalidMessage))"

section \<open>Abstract view and invariant\<close>

definition entry_transcript :: "memory_entry option \<Rightarrow> transcript" where
  "entry_transcript e = (case e of None \<Rightarrow> ([], 0) | Some e' \<Rightarrow> (me_messages e', me_version e'))"

definition mem_view :: "memory_store \<Rightarrow> session_key \<Rightarrow> transcript" where
  "mem_view s k = entry_transcript (ms_entries s k)"

definition mem_used :: "memory_store \<Rightarrow> session_key \<Rightarrow> string \<rightharpoonup> string" where
  "mem_used s k = (case ms_idem s k of None \<Rightarrow> Map.empty | Some m \<Rightarrow> m)"

definition mem_inv :: "memory_store \<Rightarrow> bool" where
  "mem_inv s \<longleftrightarrow> even (ms_max s) \<and> 2 \<le> ms_max s \<and>
     (\<forall>k. window_ok (ms_max s) (mem_view s k))"

lemma mem_inv_new [simp]: "mem_inv (new_memory_store n)"
  by (auto simp: new_memory_store_def mem_inv_def mem_view_def entry_transcript_def window_ok_def Let_def) presburger+

lemma mem_view_new [simp]: "mem_view (new_memory_store n) k = ([], 0)"
  by (simp add: new_memory_store_def mem_view_def entry_transcript_def Let_def)

lemma mem_used_new [simp]: "mem_used (new_memory_store n) k = Map.empty"
  by (simp add: new_memory_store_def mem_used_def Let_def)

text \<open>Creating an entry or a marker is invisible.\<close>

lemma ms_entry_view:
  assumes "ms_entry k s = (s1, e)"
  shows "mem_view s1 = mem_view s" "(me_messages e, me_version e) = mem_view s k"
    "ms_max s1 = ms_max s" "mem_used s1 = mem_used s" "ms_idem s1 = ms_idem s"
  using assms
  by (auto simp: ms_entry_def mem_view_def mem_used_def entry_transcript_def empty_entry_def fun_eq_iff
      split: option.splits if_splits)

lemma ms_marker_view:
  assumes "ms_marker k s = (s1, m)"
  shows "mem_view s1 = mem_view s" "m = mem_used s k" "ms_max s1 = ms_max s"
    "mem_used s1 = mem_used s" "ms_entries s1 = ms_entries s"
  using assms
  by (auto simp: ms_marker_def mem_view_def mem_used_def entry_transcript_def fun_eq_iff
      split: option.splits if_splits)

lemma mem_inv_cong:
  assumes "mem_view s1 = mem_view s" and "ms_max s1 = ms_max s"
  shows "mem_inv s1 \<longleftrightarrow> mem_inv s"
  using assms by (simp add: mem_inv_def)

lemma mem_inv_turn:
  assumes "mem_inv s" and "ms_max s1 = ms_max s"
    and "mem_view s1 = (mem_view s)(k := spec_turn (ms_max s) (clone_message mu) (clone_message ma) (mem_view s k))"
  shows "mem_inv s1"
  using assms by (auto simp: mem_inv_def intro: window_ok_spec_turn)

lemma mem_inv_step:
  assumes "mem_inv s" and "ms_max s1 = ms_max s"
    and "mem_view s1 = mem_view s \<or> (\<exists>mu ma. mem_view s1 =
      (mem_view s)(k := spec_turn (ms_max s) (clone_message mu) (clone_message ma) (mem_view s k)))"
  shows "mem_inv s1"
  using assms(3)
proof
  assume "mem_view s1 = mem_view s"
  with assms(1,2) show ?thesis using mem_inv_cong by blast
next
  assume "\<exists>mu ma. mem_view s1 =
      (mem_view s)(k := spec_turn (ms_max s) (clone_message mu) (clone_message ma) (mem_view s k))"
  with assms(1,2) show ?thesis using mem_inv_turn by blast
qed

section \<open>Every operation, on every branch\<close>

lemma mem_load_cases:
  assumes "mem_load c k s = (s', r)"
  shows "mem_view s' = mem_view s \<and> mem_used s' = mem_used s \<and> ms_max s' = ms_max s \<and>
    (\<forall>t. r = Inr t \<longrightarrow> t = (clone_messages (fst (mem_view s k)), snd (mem_view s k)))"
  using assms
  by (auto simp: mem_load_def split: option.splits prod.splits dest: ms_entry_view)
    (metis ms_entry_view(2) fst_conv snd_conv)+

lemma mem_append_core_cases:
  assumes "mem_append_core c k v u a chk s = (s', r)"
  shows "ms_max s' = ms_max s \<and> mem_used s' = mem_used s \<and>
    ((\<exists>mu ma. r = Inr True \<and> u = Some mu \<and> a = Some ma \<and> validate_key k = None \<and>
        (chk \<longrightarrow> snd (mem_view s k) = v) \<and>
        mem_view s' = (mem_view s)(k := spec_turn (ms_max s) (clone_message mu) (clone_message ma) (mem_view s k)))
     \<or> (r = Inr False \<and> chk \<and> snd (mem_view s k) \<noteq> v \<and> mem_view s' = mem_view s)
     \<or> ((\<exists>e. r = Inl e) \<and> s' = s))"
proof (cases "context_err c = None \<and> validate_key k = None \<and> u \<noteq> None \<and> a \<noteq> None")
  case False
  with assms show ?thesis by (auto simp: mem_append_core_def split: option.splits)
next
  case True
  then obtain mu ma where g: "context_err c = None" "validate_key k = None" "u = Some mu" "a = Some ma"
    by auto
  obtain s1 e where e: "ms_entry k s = (s1, e)" by fastforce
  note v = ms_entry_view [OF e]
  show ?thesis
  proof (cases "chk \<and> me_version e \<noteq> v")
    case True
    with assms g e v show ?thesis by (auto simp: mem_append_core_def simp flip: v(2))
  next
    case False
    define e' where "e' = \<lparr>me_messages = keep_recent (ms_max s1) (me_messages e @ [Some (clone_message mu), Some (clone_message ma)]),
        me_version = me_version e + 1\<rparr>"
    from assms g e False have s': "s' = s1\<lparr>ms_entries := (ms_entries s1)(k \<mapsto> e')\<rparr>" "r = Inr True"
      by (auto simp: mem_append_core_def e'_def Let_def)
    then have "mem_view s' = (mem_view s1)(k := (me_messages e', me_version e'))"
      by (auto simp: mem_view_def entry_transcript_def)
    with v s' g False show ?thesis
      by (auto simp: mem_used_def e'_def spec_turn_def simp flip: v(2))
  qed
qed

lemma mem_append_cases:
  assumes "mem_append c k u a s = (s', r)"
  shows "ms_max s' = ms_max s \<and> mem_used s' = mem_used s \<and>
    ((\<exists>mu ma. r = Inr () \<and> u = Some mu \<and> a = Some ma \<and> validate_key k = None \<and>
        mem_view s' = (mem_view s)(k := spec_turn (ms_max s) (clone_message mu) (clone_message ma) (mem_view s k)))
     \<or> ((\<exists>e. r = Inl e) \<and> s' = s))"
proof -
  obtain s1 r1 where core: "mem_append_core c k 0 u a False s = (s1, r1)" by fastforce
  from assms core mem_append_core_cases [OF core] show ?thesis
    by (auto simp: mem_append_def)
qed

lemma mem_append_idempotent_cases:
  assumes "mem_append_idempotent hash c k ik u a s = (s', r)"
  shows "ms_max s' = ms_max s \<and>
    ((\<exists>mu ma h. r = Inr True \<and> u = Some mu \<and> a = Some ma \<and> hash mu ma = Inr h \<and> mem_used s k ik = None \<and>
        mem_view s' = (mem_view s)(k := spec_turn (ms_max s) (clone_message mu) (clone_message ma) (mem_view s k)) \<and>
        mem_used s' = (mem_used s)(k := (mem_used s k)(ik \<mapsto> h)))
     \<or> (\<exists>mu ma h. r = Inr False \<and> u = Some mu \<and> a = Some ma \<and> hash mu ma = Inr h \<and> mem_used s k ik = Some h \<and>
        mem_view s' = mem_view s \<and> mem_used s' = mem_used s)
     \<or> ((\<exists>e. r = Inl e) \<and> mem_view s' = mem_view s \<and> mem_used s' = mem_used s))"
proof (cases "context_err c = None \<and> validate_key k = None \<and> trim_space ik \<noteq> [] \<and>
    (\<exists>mu ma h. u = Some mu \<and> a = Some ma \<and> hash mu ma = Inr h)")
  case False
  with assms show ?thesis
    by (auto simp: mem_append_idempotent_def split: option.splits if_splits sum.splits)
next
  case True
  then obtain mu ma h where g: "context_err c = None" "validate_key k = None" "trim_space ik \<noteq> []"
    "u = Some mu" "a = Some ma" "hash mu ma = Inr h" by auto
  obtain s1 m where m: "ms_marker k s = (s1, m)" by fastforce
  note v = ms_marker_view [OF m]
  show ?thesis
  proof (cases "m ik")
    case (Some h')
    with assms g m v show ?thesis by (auto simp: mem_append_idempotent_def split: if_splits)
  next
    case None
    obtain s2 r2 where app: "mem_append c k u a s1 = (s2, r2)" by fastforce
    note ac = mem_append_cases [OF app]
    show ?thesis
    proof (cases r2)
      case (Inl e)
      with ac assms g m v None app show ?thesis
        by (auto simp: mem_append_idempotent_def)
    next
      case (Inr x)
      with assms g m None app have s': "s' = s2\<lparr>ms_idem := (ms_idem s2)(k \<mapsto> m(ik \<mapsto> h))\<rparr>" "r = Inr True"
        by (auto simp: mem_append_idempotent_def)
      then have "mem_view s' = mem_view s2" "mem_used s' = (mem_used s2)(k := m(ik \<mapsto> h))"
        by (auto simp: mem_view_def mem_used_def)
      with ac Inr v g s' None show ?thesis by auto
    qed
  qed
qed

interpretation mem: idempotent_store mem_load mem_append mem_append_if_version mem_view mem_inv ms_max
  clone_message "\<lambda>_. True" "mem_append_idempotent hash" mem_used hash
  for hash
proof (unfold_locales, goal_cases)
  case (1 s) then show ?case by (simp add: mem_inv_def)
next
  case (2 s k) then show ?case by (simp add: mem_inv_def)
next
  case (3 s k c s' r) then show ?case using mem_load_cases mem_inv_cong by blast
next
  case (4 s k c s' t) then show ?case
    using mem_load_cases [OF 4(3)] by (simp add: mem_inv_def window_ok_def clone_messages_fixed)
next
  case (5 s k c u a s' r) then show ?case
    using mem_append_cases [OF 5(3)] mem_inv_turn by blast
next
  case (6 s k c u a s' x) then show ?case using mem_append_cases [OF 6(3)] by blast
next
  case (7 s k c u a s' e) then show ?case using mem_append_cases [OF 7(3)] by blast
next
  case (8 s k c v u a s' r) then show ?case
    unfolding mem_append_if_version_def
    using mem_append_core_cases [of c k v u a True s s' r] mem_inv_step [OF 8(1), of s' k] by blast
next
  case (9 s k c v u a s') then show ?case
    unfolding mem_append_if_version_def using mem_append_core_cases by blast
next
  case (10 s k c v u a s') then show ?case
    unfolding mem_append_if_version_def using mem_append_core_cases by blast
next
  case (11 s k c v u a s' e) then show ?case
    unfolding mem_append_if_version_def using mem_append_core_cases by blast
next
  case (12 s k c s' r) then show ?case using mem_load_cases by blast
next
  case (13 s k c u a s' r) then show ?case using mem_append_cases by blast
next
  case (14 s k c ik u a s' r) then show ?case
    using mem_append_idempotent_cases [OF 14(3)] mem_inv_step [OF 14(1), of s' k] by blast
next
  case (15 s k c ik u a s') then show ?case using mem_append_idempotent_cases [OF 15(3)] by blast
next
  case (16 s k c ik u a s') then show ?case using mem_append_idempotent_cases [OF 16(3)] by blast
next
  case (17 s k c ik u a s' e) then show ?case using mem_append_idempotent_cases [OF 17(3)] by blast
qed

interpretation memc: cancellable_store mem_load mem_append mem_append_if_version mem_view mem_inv ms_max
  clone_message "\<lambda>_. True" "mem_append_idempotent hash" mem_used hash
  for hash
  by unfold_locales
    (auto simp: mem_append_def mem_append_core_def mem_append_idempotent_def split: option.splits)

end
