(* ===== verification/SQL_Store.thy ===== *)
theory SQL_Store
  imports Store_Interface
begin

text \<open>
  \<open>SQLStore\<close> of internal/conversation/sql_store.go. The three tables of the migration are the state
  (the timestamp columns are left out: nothing reads them); a statement of the source is one
  definition that reads or updates the tables the way its SQL text says; a transaction works on its
  own copy of the tables, which a commit installs and a rollback drops. The row sequence is not
  transactional: a rolled-back insert still consumes its number.

  The database may fail at every statement: \<open>ss_fault\<close> gives the outcome of the n-th statement the
  store issues, \<open>CommitLost\<close> a commit that took effect and whose acknowledgement was lost. The JSON
  encoding of a message and the normal form that a JSONB column keeps are the record \<open>codec\<close>.

  \<open>SQL_Store_Laws\<close> interprets both store interfaces on these operations, for every codec and every
  schedule of faults.
\<close>

record codec =
  cod_marshal :: "message \<Rightarrow> string result"
  cod_jsonb :: "string \<Rightarrow> string"
  cod_unmarshal :: "string \<Rightarrow> message result"
  cod_hash :: "message \<Rightarrow> message \<Rightarrow> string result"

record msg_row =
  row_seq :: nat
  row_key :: session_key
  row_turn :: int64
  row_json :: string

record sql_tables =
  t_conversations :: "session_key \<rightharpoonup> int64"
  t_messages :: "msg_row list"
  t_idempotency :: "session_key \<times> string \<rightharpoonup> string"

datatype sql_outcome = StmtOk | StmtFail go_error | CommitLost go_error

record sql_store =
  ss_max :: int
  ss_tables :: sql_tables
  ss_seq :: nat
  ss_clock :: nat
  ss_fault :: "nat \<Rightarrow> sql_outcome"

type_synonym tx = "sql_store \<times> sql_tables"

definition new_sql_store :: "bool \<Rightarrow> int \<Rightarrow> sql_tables \<Rightarrow> nat \<Rightarrow> (nat \<Rightarrow> sql_outcome) \<Rightarrow> sql_store result" where
  "new_sql_store db_given max_messages tables seq fault =
     (if \<not> db_given then Inl ErrSQLStoreRequired
      else
        let m = (if max_messages < 2 then 20 else max_messages);
            m' = (if m mod 2 \<noteq> 0 then m - 1 else m)
        in Inr \<lparr>ss_max = m', ss_tables = tables, ss_seq = seq, ss_clock = 0, ss_fault = fault\<rparr>)"

text \<open>The outcome of the next statement; it advances the clock whatever it is.\<close>

definition sql_tick :: "sql_store \<Rightarrow> sql_store \<times> sql_outcome" where
  "sql_tick s = (s\<lparr>ss_clock := ss_clock s + 1\<rparr>, ss_fault s (ss_clock s))"

text \<open>\<open>normalizeContext\<close>: a nil context is the background context.\<close>

definition normalize_context :: "ctx option \<Rightarrow> ctx" where
  "normalize_context c = (case c of None \<Rightarrow> background | Some c' \<Rightarrow> c')"

lemma ctx_err_normalize [simp]: "ctx_err (normalize_context c) = context_err c"
  by (cases c) (simp_all add: normalize_context_def)

text \<open>
  A call that takes a connection (\<open>BeginTx\<close>, \<open>QueryRowContext\<close>): \<open>database/sql\<close> returns the error of a
  finished context without issuing anything, so a cancelled request never starts a transaction. A
  context that ends later makes the statements and the commit of the transaction fail, which the
  schedule of faults covers.
\<close>

definition sql_call :: "ctx option \<Rightarrow> (sql_store, unit) op" where
  "sql_call c s =
     (case ctx_err (normalize_context c) of
        Some e \<Rightarrow> (s, Inl e)
      | None \<Rightarrow>
          (case sql_tick s of
             (s', StmtOk) \<Rightarrow> (s', Inr ())
           | (s', StmtFail e) \<Rightarrow> (s', Inl e)
           | (s', CommitLost e) \<Rightarrow> (s', Inl e)))"

definition tx_exec :: "(tx, 'a) op \<Rightarrow> (tx, 'a) op" where
  "tx_exec f st =
     (case sql_tick (fst st) of
        (s', StmtOk) \<Rightarrow> f (s', snd st)
      | (s', StmtFail e) \<Rightarrow> ((s', snd st), Inl e)
      | (s', CommitLost e) \<Rightarrow> ((s', snd st), Inl e))"

section \<open>The statements\<close>

text \<open>\<open>INSERT INTO conversations ... VALUES (..., 0, ...) ON CONFLICT DO NOTHING\<close>\<close>

definition tx_insert_conversation :: "session_key \<Rightarrow> (tx, unit) op" where
  "tx_insert_conversation k = tx_exec (\<lambda>(s, t).
     ((s, case t_conversations t k of
            Some _ \<Rightarrow> t
          | None \<Rightarrow> t\<lparr>t_conversations := (t_conversations t)(k \<mapsto> 0)\<rparr>), Inr ()))"

text \<open>\<open>INSERT INTO conversation_idempotency ... ON CONFLICT DO NOTHING\<close>, with the rows affected\<close>

definition tx_insert_idempotency :: "session_key \<Rightarrow> string \<Rightarrow> string \<Rightarrow> (tx, nat) op" where
  "tx_insert_idempotency k ik h = tx_exec (\<lambda>(s, t).
     (case t_idempotency t (k, ik) of
        Some _ \<Rightarrow> ((s, t), Inr 0)
      | None \<Rightarrow> ((s, t\<lparr>t_idempotency := (t_idempotency t)((k, ik) \<mapsto> h)\<rparr>), Inr 1)))"

text \<open>\<open>result.RowsAffected()\<close> may fail by itself.\<close>

definition tx_rows_affected :: "nat \<Rightarrow> (tx, nat) op" where
  "tx_rows_affected n = tx_exec (\<lambda>st. (st, Inr n))"

definition no_rows :: go_error where
  "no_rows = ErrExternal ''sql: no rows in result set''"

definition tx_select_hash :: "session_key \<Rightarrow> string \<Rightarrow> (tx, string) op" where
  "tx_select_hash k ik = tx_exec (\<lambda>(s, t).
     ((s, t), case t_idempotency t (k, ik) of None \<Rightarrow> Inl no_rows | Some h \<Rightarrow> Inr h))"

text \<open>\<open>SELECT version ... FOR UPDATE\<close>\<close>

definition tx_select_version :: "session_key \<Rightarrow> (tx, int64) op" where
  "tx_select_version k = tx_exec (\<lambda>(s, t).
     ((s, t), case t_conversations t k of None \<Rightarrow> Inl no_rows | Some v \<Rightarrow> Inr v))"

definition tx_update_version :: "session_key \<Rightarrow> int64 \<Rightarrow> (tx, unit) op" where
  "tx_update_version k v = tx_exec (\<lambda>(s, t).
     ((s, case t_conversations t k of
            None \<Rightarrow> t
          | Some _ \<Rightarrow> t\<lparr>t_conversations := (t_conversations t)(k \<mapsto> v)\<rparr>), Inr ()))"

text \<open>\<open>INSERT INTO conversation_messages\<close>: the sequence number is taken from the store.\<close>

definition tx_insert_message :: "codec \<Rightarrow> session_key \<Rightarrow> int64 \<Rightarrow> string \<Rightarrow> (tx, unit) op" where
  "tx_insert_message cod k v raw = tx_exec (\<lambda>(s, t).
     ((s\<lparr>ss_seq := ss_seq s + 1\<rparr>,
       t\<lparr>t_messages := t_messages t @
           [\<lparr>row_seq = ss_seq s, row_key = k, row_turn = v, row_json = cod_jsonb cod raw\<rparr>]\<rparr>), Inr ()))"

definition rows_of :: "sql_tables \<Rightarrow> session_key \<Rightarrow> msg_row list" where
  "rows_of t k = filter (\<lambda>r. row_key r = k) (t_messages t)"

definition tx_count_messages :: "session_key \<Rightarrow> (tx, int) op" where
  "tx_count_messages k = tx_exec (\<lambda>(s, t). ((s, t), Inr (int (length (rows_of t k)))))"

text \<open>\<open>DELETE ... WHERE sequence_no IN (SELECT ... ORDER BY sequence_no LIMIT n)\<close>\<close>

definition delete_oldest :: "session_key \<Rightarrow> nat \<Rightarrow> sql_tables \<Rightarrow> sql_tables" where
  "delete_oldest k n t =
     (let victims = map row_seq (take n (sort_key row_seq (rows_of t k)))
      in t\<lparr>t_messages := filter (\<lambda>r. row_seq r \<notin> set victims) (t_messages t)\<rparr>)"

definition tx_delete_oldest :: "session_key \<Rightarrow> nat \<Rightarrow> (tx, unit) op" where
  "tx_delete_oldest k n = tx_exec (\<lambda>(s, t). ((s, delete_oldest k n t), Inr ()))"

section \<open>The operations\<close>

definition trim_tx :: "int \<Rightarrow> session_key \<Rightarrow> (tx, unit) op" where
  "trim_tx mx k =
     st_bind (tx_count_messages k) (\<lambda>count.
       if count - mx \<le> 0 then st_return ()
       else tx_delete_oldest k (nat (pair_excess count mx)))"

text \<open>The block \<open>if idempotencyKey != "" {...}\<close>: true when the turn was already committed.\<close>

definition tx_idempotency :: "codec \<Rightarrow> session_key \<Rightarrow> string \<Rightarrow> message \<Rightarrow> message \<Rightarrow> (tx, bool) op" where
  "tx_idempotency cod k ik u a =
     (if ik = [] then st_return False
      else
        st_bind (st_lift (cod_hash cod u a)) (\<lambda>hash.
        st_bind (tx_insert_idempotency k ik hash) (\<lambda>result.
        st_bind (tx_rows_affected result) (\<lambda>inserted.
          if inserted = 0 then
            st_bind (tx_select_hash k ik) (\<lambda>previous.
              if previous \<noteq> hash then st_fail ErrIdempotencyConflict else st_return True)
          else st_return False))))"

text \<open>
  The body of the transaction. It returns false or true at the three points where the code commits,
  and an error wherever the code returns one and the deferred rollback runs.
\<close>

definition append_body ::
  "codec \<Rightarrow> int \<Rightarrow> session_key \<Rightarrow> int64 \<Rightarrow> message \<Rightarrow> message \<Rightarrow> string \<Rightarrow> string \<Rightarrow> bool \<Rightarrow> string \<Rightarrow> (tx, bool) op" where
  "append_body cod mx k expected u a user_json assistant_json check_version ik =
     st_bind (tx_insert_conversation k) (\<lambda>_.
     st_bind (tx_idempotency cod k ik u a) (\<lambda>duplicate.
       if duplicate then st_return False
       else
         st_bind (tx_select_version k) (\<lambda>version.
           if check_version \<and> version \<noteq> expected then st_return False
           else
             st_bind (tx_update_version k (version + 1)) (\<lambda>_.
             st_bind (tx_insert_message cod k (version + 1) user_json) (\<lambda>_.
             st_bind (tx_insert_message cod k (version + 1) assistant_json) (\<lambda>_.
             st_bind (trim_tx mx k) (\<lambda>_. st_return True)))))))"

text \<open>\<open>tx.Commit()\<close> followed by \<open>return b\<close>, and the deferred rollback of a failed body.\<close>

definition finish_tx :: "(tx \<times> bool result) \<Rightarrow> sql_store \<times> bool result" where
  "finish_tx out =
     (case out of
        ((s, t), Inl e) \<Rightarrow> (s, Inl e)
      | ((s, t), Inr b) \<Rightarrow>
          (case sql_tick s of
             (s', StmtOk) \<Rightarrow> (s'\<lparr>ss_tables := t\<rparr>, Inr b)
           | (s', StmtFail e) \<Rightarrow> (s', Inl e)
           | (s', CommitLost e) \<Rightarrow> (s'\<lparr>ss_tables := t\<rparr>, Inl e)))"

definition sql_append_with_key ::
  "codec \<Rightarrow> ctx option \<Rightarrow> session_key \<Rightarrow> int64 \<Rightarrow> msgptr \<Rightarrow> msgptr \<Rightarrow> bool \<Rightarrow> string \<Rightarrow> (sql_store, bool) op" where
  "sql_append_with_key cod c k expected u a check_version ik s =
     (case validate_key k of Some e \<Rightarrow> (s, Inl e) | None \<Rightarrow>
      case (u, a) of
        (Some mu, Some ma) \<Rightarrow>
          (case cod_marshal cod mu of
             Inl e \<Rightarrow> (s, Inl (ErrWrap ''encode user message: '' e))
           | Inr user_json \<Rightarrow>
               (case cod_marshal cod ma of
                  Inl e \<Rightarrow> (s, Inl (ErrWrap ''encode assistant message: '' e))
                | Inr assistant_json \<Rightarrow>
                    (case sql_call c s of
                       (s1, Inl e) \<Rightarrow> (s1, Inl e)
                     | (s1, Inr _) \<Rightarrow>
                         finish_tx (append_body cod (ss_max s1) k expected mu ma user_json assistant_json
                                      check_version ik (s1, ss_tables s1)))))
      | _ \<Rightarrow> (s, Inl ErrInvalidMessage))"

definition sql_append :: "codec \<Rightarrow> sql_store appender" where
  "sql_append cod c k u a s =
     (case sql_append_with_key cod c k 0 u a False [] s of
        (s', Inl e) \<Rightarrow> (s', Inl e) | (s', Inr _) \<Rightarrow> (s', Inr ()))"

definition sql_append_if_version :: "codec \<Rightarrow> sql_store versioned" where
  "sql_append_if_version cod c k v u a s = sql_append_with_key cod c k v u a True [] s"

definition sql_append_idempotent :: "codec \<Rightarrow> sql_store idempotent" where
  "sql_append_idempotent cod c k ik u a s =
     (if trim_space ik = [] then (s, Inl (ErrText ''idempotency key is required''))
      else sql_append_with_key cod c k 0 u a False ik s)"

fun decode_rows :: "codec \<Rightarrow> msg_row list \<Rightarrow> msgptr list result" where
  "decode_rows cod [] = Inr []"
| "decode_rows cod (r # rs) =
     (case cod_unmarshal cod (row_json r) of
        Inl e \<Rightarrow> Inl (ErrWrap ''decode conversation message: '' e)
      | Inr m \<Rightarrow> (case decode_rows cod rs of Inl e \<Rightarrow> Inl e | Inr ms \<Rightarrow> Inr (Some m # ms)))"

text \<open>\<open>Load\<close>: two queries outside a transaction; the last tick is \<open>rows.Err()\<close>.\<close>

definition sql_load :: "codec \<Rightarrow> sql_store loader" where
  "sql_load cod c k s =
     (case validate_key k of Some e \<Rightarrow> (s, Inl e) | None \<Rightarrow>
      case sql_call c s of
        (s1, Inl e) \<Rightarrow> (s1, Inl e)
      | (s1, Inr _) \<Rightarrow>
          (case t_conversations (ss_tables s1) k of
             None \<Rightarrow> (s1, Inr ([], 0))
           | Some version \<Rightarrow>
               (case sql_tick s1 of
                  (s2, StmtFail e) \<Rightarrow> (s2, Inl e)
                | (s2, CommitLost e) \<Rightarrow> (s2, Inl e)
                | (s2, StmtOk) \<Rightarrow>
                    (case decode_rows cod (sort_key row_seq (rows_of (ss_tables s2) k)) of
                       Inl e \<Rightarrow> (s2, Inl e)
                     | Inr messages \<Rightarrow>
                         (case sql_tick s2 of
                            (s3, StmtFail e) \<Rightarrow> (s3, Inl e)
                          | (s3, CommitLost e) \<Rightarrow> (s3, Inl e)
                          | (s3, StmtOk) \<Rightarrow> (s3, Inr (messages, version)))))))"

end
