(* ===== verification/SQL_Store_Laws.thy ===== *)
theory SQL_Store_Laws
  imports SQL_Store
begin

text \<open>
  The invariant of the SQL store and the laws of its operations: strictly increasing row numbers
  below the sequence, every stored row decodes and belongs to a conversation, every conversation
  has an even number of rows within the limit. A transaction body either changes nothing that a
  reader sees or appends exactly one turn; the commit decides which, so every operation is atomic
  under every schedule of faults. The last section interprets the store interfaces.
\<close>

section \<open>Frame: what a statement leaves alone\<close>

definition frame :: "sql_store \<Rightarrow> sql_store \<Rightarrow> bool" where
  "frame s s1 \<longleftrightarrow> ss_max s1 = ss_max s \<and> ss_tables s1 = ss_tables s \<and> ss_fault s1 = ss_fault s \<and>
     ss_seq s \<le> ss_seq s1"

definition keeps :: "(tx, 'a) op \<Rightarrow> bool" where
  "keeps m \<longleftrightarrow> (\<forall>s t s1 t1 r. m (s, t) = ((s1, t1), r) \<longrightarrow> frame s s1)"

lemma frame_refl [simp]: "frame s s"
  by (simp add: frame_def)

lemma frame_trans: "frame s s1 \<Longrightarrow> frame s1 s2 \<Longrightarrow> frame s s2"
  by (simp add: frame_def)

lemma frame_tick: "sql_tick s = (s1, out) \<Longrightarrow> frame s s1 \<and> ss_seq s1 = ss_seq s"
  by (auto simp: sql_tick_def frame_def)

lemma frame_call: "sql_call c s = (s1, out) \<Longrightarrow> frame s s1"
  by (auto simp: sql_call_def frame_def sql_tick_def split: option.splits sql_outcome.splits)

lemma sql_call_fault: "sql_call c s = (s1, out) \<Longrightarrow> ss_fault s1 = ss_fault s"
  by (drule frame_call) (simp add: frame_def)

lemma sql_call_cancelled: "context_err c = Some e \<Longrightarrow> sql_call c s = (s, Inl e)"
  by (simp add: sql_call_def)

lemma keepsD: "keeps m \<Longrightarrow> m (s, t) = ((s1, t1), r) \<Longrightarrow> frame s s1"
  unfolding keeps_def by blast

lemma keeps_if [intro]: "keeps m \<Longrightarrow> keeps m' \<Longrightarrow> keeps (if b then m else m')"
  by simp

lemma keeps_return [intro]: "keeps (st_return x)" "keeps (st_fail e)" "keeps (st_lift r')"
  by (auto simp: keeps_def st_defs)

lemma keeps_bind [intro]:
  assumes "keeps m" and "\<And>x. keeps (f x)"
  shows "keeps (st_bind m f)"
  unfolding keeps_def
proof (intro allI impI)
  fix s t s1 t1 r
  assume run: "st_bind m f (s, t) = ((s1, t1), r)"
  obtain s2 t2 r2 where m: "m (s, t) = ((s2, t2), r2)" by (metis surj_pair)
  show "frame s s1"
  proof (cases r2)
    case (Inl e)
    with run m have "s1 = s2" by (simp add: st_bind_def)
    with keepsD [OF assms(1) m] show ?thesis by simp
  next
    case (Inr x)
    with run m have "f x (s2, t2) = ((s1, t1), r)" by (simp add: st_bind_def)
    with keepsD [OF assms(1) m] keepsD [OF assms(2)] show ?thesis by (blast intro: frame_trans)
  qed
qed

lemma keeps_exec [intro]:
  assumes "keeps f"
  shows "keeps (tx_exec f)"
  unfolding keeps_def
proof (intro allI impI)
  fix s t s1 t1 r
  assume run: "tx_exec f (s, t) = ((s1, t1), r)"
  obtain s2 out where t2: "sql_tick s = (s2, out)" by fastforce
  note fr = frame_tick [OF t2, THEN conjunct1]
  from run t2 fr show "frame s s1"
    by (cases out) (auto simp: tx_exec_def intro: frame_trans dest: keepsD [OF assms])
qed

lemma keeps_stmts [intro]:
  "keeps (tx_insert_conversation k)" "keeps (tx_insert_idempotency k ik h)" "keeps (tx_rows_affected n)"
  "keeps (tx_select_hash k ik)" "keeps (tx_select_version k)" "keeps (tx_update_version k v)"
  "keeps (tx_insert_message cod k v raw)" "keeps (tx_count_messages k)" "keeps (tx_delete_oldest k j)"
  unfolding tx_insert_conversation_def tx_insert_idempotency_def tx_rows_affected_def tx_select_hash_def
    tx_select_version_def tx_update_version_def tx_insert_message_def tx_count_messages_def tx_delete_oldest_def
  by (rule keeps_exec; auto simp: keeps_def frame_def split: option.splits)+

lemma keeps_trim: "keeps (trim_tx mx k)"
  unfolding trim_tx_def by (intro keeps_bind keeps_if keeps_return keeps_stmts)

lemma keeps_idempotency: "keeps (tx_idempotency cod k ik u a)"
  unfolding tx_idempotency_def by (intro keeps_bind keeps_if keeps_return keeps_stmts)

lemma keeps_body: "keeps (append_body cod mx k expected u a uj aj chk ik)"
  unfolding append_body_def tx_idempotency_def trim_tx_def
  by (intro keeps_bind keeps_if keeps_return keeps_stmts)

text \<open>The effect of each statement when it succeeds.\<close>

lemma tx_exec_Inr:
  "tx_exec f (s, t) = (st1, Inr x) \<longleftrightarrow>
     (\<exists>s'. sql_tick s = (s', StmtOk) \<and> f (s', t) = (st1, Inr x))"
  by (auto simp: tx_exec_def split: prod.splits sql_outcome.splits)

lemmas tx_stmt_defs = tx_insert_conversation_def tx_insert_idempotency_def tx_rows_affected_def
  tx_select_hash_def tx_select_version_def tx_update_version_def tx_insert_message_def
  tx_count_messages_def tx_delete_oldest_def

section \<open>Rows, views and the invariant\<close>

definition codec_ok :: "codec \<Rightarrow> bool" where
  "codec_ok cod \<longleftrightarrow>
     (\<forall>m raw. cod_marshal cod m = Inr raw \<longrightarrow> 
       (\<exists>m'. cod_unmarshal cod (cod_jsonb cod raw) = Inr m' \<and> clone_message m' = m'))"

definition decode_row :: "codec \<Rightarrow> msg_row \<Rightarrow> msgptr" where
  "decode_row cod r = (case cod_unmarshal cod (row_json r) of Inl _ \<Rightarrow> None | Inr m \<Rightarrow> Some m)"

text \<open>What a message becomes after a round trip through the database.\<close>

definition sql_canon :: "codec \<Rightarrow> message \<Rightarrow> message" where
  "sql_canon cod m =
     (case cod_marshal cod m of
        Inl _ \<Rightarrow> m
      | Inr raw \<Rightarrow> (case cod_unmarshal cod (cod_jsonb cod raw) of Inl _ \<Rightarrow> m | Inr m' \<Rightarrow> m'))"

definition tables_view :: "codec \<Rightarrow> sql_tables \<Rightarrow> session_key \<Rightarrow> transcript" where
  "tables_view cod t k =
     (case t_conversations t k of
        None \<Rightarrow> ([], 0)
      | Some v \<Rightarrow> (map (decode_row cod) (rows_of t k), v))"

definition sql_view :: "codec \<Rightarrow> sql_store \<Rightarrow> session_key \<Rightarrow> transcript" where
  "sql_view cod s = tables_view cod (ss_tables s)"

definition sql_used :: "sql_store \<Rightarrow> session_key \<Rightarrow> string \<rightharpoonup> string" where
  "sql_used s k ik = t_idempotency (ss_tables s) (k, ik)"

definition rows_ok :: "codec \<Rightarrow> nat \<Rightarrow> sql_tables \<Rightarrow> bool" where
  "rows_ok cod n t \<longleftrightarrow>
     sorted_wrt (<) (map row_seq (t_messages t)) \<and>
     (\<forall>r \<in> set (t_messages t). row_seq r < n \<and> cloned (decode_row cod r) \<and> t_conversations t (row_key r) \<noteq> None)"

definition tables_ok :: "codec \<Rightarrow> int \<Rightarrow> nat \<Rightarrow> sql_tables \<Rightarrow> bool" where
  "tables_ok cod mx n t \<longleftrightarrow> rows_ok cod n t \<and>
     (\<forall>k. even (length (rows_of t k)) \<and> int (length (rows_of t k)) \<le> mx)"

definition sql_inv :: "codec \<Rightarrow> sql_store \<Rightarrow> bool" where
  "sql_inv cod s \<longleftrightarrow> codec_ok cod \<and> even (ss_max s) \<and> 2 \<le> ss_max s \<and>
     tables_ok cod (ss_max s) (ss_seq s) (ss_tables s)"

lemma tables_ok_mono: "tables_ok cod mx n t \<Longrightarrow> n \<le> n' \<Longrightarrow> tables_ok cod mx n' t"
  by (fastforce simp: tables_ok_def rows_ok_def)

lemma rows_of_sorted:
  assumes "sorted_wrt (<) (map row_seq (t_messages t))"
  shows "sort_key row_seq (rows_of t k) = rows_of t k"
proof -
  have "sorted (map row_seq (t_messages t))"
    using assms by (rule strict_sorted_imp_sorted)
  then show ?thesis by (simp add: rows_of_def sort_key_id_if_sorted sorted_filter)
qed

lemma decode_rows_ok:
  assumes "\<forall>r \<in> set rs. cloned (decode_row cod r)"
  shows "decode_rows cod rs = Inr (map (decode_row cod) rs)"
  using assms by (induction rs) (auto simp: decode_row_def cloned_def split: sum.splits)

lemma decode_row_marshal:
  assumes "codec_ok cod" and "cod_marshal cod m = Inr raw"
  shows "decode_row cod \<lparr>row_seq = n, row_key = k, row_turn = v, row_json = cod_jsonb cod raw\<rparr> = Some (sql_canon cod m) \<and>
     cloned (Some (sql_canon cod m))"
  using assms by (fastforce simp: codec_ok_def decode_row_def sql_canon_def cloned_def split: sum.splits)

section \<open>Deleting the oldest rows\<close>

lemma filter_not_taken:
  assumes "distinct (map f rs)"
  shows "filter (\<lambda>r. f r \<notin> f ` set (take n rs)) rs = drop n rs"
  using assms
proof (induction rs arbitrary: n)
  case (Cons x xs)
  show ?case
  proof (cases n)
    case 0
    then show ?thesis by simp
  next
    case (Suc m)
    have "filter (\<lambda>r. f r \<notin> insert (f x) (f ` set (take m xs))) xs =
        filter (\<lambda>r. f r \<notin> f ` set (take m xs)) xs"
      using Cons.prems by (intro filter_cong) (auto simp: rev_image_eqI)
    with Cons Suc show ?thesis by simp
  qed
qed simp

lemma rows_of_delete_oldest:
  assumes "sorted_wrt (<) (map row_seq (t_messages t))"
  shows "rows_of (delete_oldest k n t) k' = (if k' = k then drop n (rows_of t k) else rows_of t k')"
proof -
  have dist: "distinct (map row_seq (t_messages t))"
    using assms strict_sorted_iff by blast
  then have inj: "inj_on row_seq (set (t_messages t))"
    by (simp add: distinct_map)
  let ?victims = "row_seq ` set (take n (rows_of t k))"
  have del: "t_messages (delete_oldest k n t) = filter (\<lambda>r. row_seq r \<notin> ?victims) (t_messages t)"
    by (simp add: delete_oldest_def Let_def rows_of_sorted [OF assms])
  show ?thesis
  proof (cases "k' = k")
    case True
    have "distinct (map row_seq (rows_of t k))"
      using dist by (simp add: rows_of_def distinct_map_filter)
    from filter_not_taken [OF this, of n] True show ?thesis
      by (simp add: rows_of_def del conj_commute)
  next
    case False
    have "row_seq r \<notin> ?victims" if "r \<in> set (t_messages t)" "row_key r = k'" for r
    proof
      assume "row_seq r \<in> ?victims"
      then obtain r' where r': "r' \<in> set (take n (rows_of t k))" "row_seq r = row_seq r'" by auto
      then have "r' \<in> set (rows_of t k)" using set_take_subset by fastforce
      then have "r' \<in> set (t_messages t)" "row_key r' = k" by (auto simp: rows_of_def)
      with r'(2) inj that False show False by (auto dest: inj_onD)
    qed
    then have "filter (\<lambda>r. row_seq r \<notin> ?victims \<and> row_key r = k') (t_messages t) =
        filter (\<lambda>r. row_key r = k') (t_messages t)"
      by (intro filter_cong) auto
    with False show ?thesis by (simp add: rows_of_def del)
  qed
qed

lemma rows_ok_delete_oldest:
  assumes "rows_ok cod n t"
  shows "rows_ok cod n (delete_oldest k j t)"
proof -
  have "sorted_wrt (\<lambda>x y. row_seq x < row_seq y) (t_messages t)"
    using assms by (simp add: rows_ok_def sorted_wrt_map)
  then have "sorted_wrt (\<lambda>x y. row_seq x < row_seq y) (t_messages (delete_oldest k j t))"
    by (simp add: delete_oldest_def Let_def sorted_wrt_filter)
  with assms show ?thesis
    by (auto simp: rows_ok_def sorted_wrt_map delete_oldest_def Let_def)
qed

lemma delete_oldest_same [simp]:
  "t_conversations (delete_oldest k j t) = t_conversations t"
  "t_idempotency (delete_oldest k j t) = t_idempotency t"
  by (simp_all add: delete_oldest_def Let_def)

text \<open>\<open>trimTx\<close> cuts the conversation to the window of its last messages.\<close>

lemma trim_tx_Inr:
  assumes "trim_tx mx k (s, t) = ((s1, t1), Inr x)" and "rows_ok cod n t"
  shows "rows_of t1 k' = (if k' = k then keep_recent mx (rows_of t k) else rows_of t k') \<and>
    rows_ok cod n t1 \<and> t_conversations t1 = t_conversations t \<and> t_idempotency t1 = t_idempotency t \<and>
    frame s s1"
proof -
  have fr: "frame s s1"
    using keepsD [OF keeps_trim assms(1)] .
  have srt: "sorted_wrt (<) (map row_seq (t_messages t))" using assms(2) by (simp add: rows_ok_def)
  show ?thesis
  proof (cases "int (length (rows_of t k)) > mx")
    case True
    then have "t1 = delete_oldest k (nat (pair_excess (int (length (rows_of t k))) mx)) t"
      using assms(1) by (auto simp: trim_tx_def st_bind_Inr tx_count_messages_def tx_delete_oldest_def tx_exec_Inr)
    with True fr srt assms(2) show ?thesis
      by (simp add: rows_of_delete_oldest keep_recent_def rows_ok_delete_oldest)
  next
    case False
    then have "t1 = t"
      using assms(1) by (auto simp: trim_tx_def st_bind_Inr tx_count_messages_def tx_exec_Inr st_return_def)
    with False fr assms(2) show ?thesis by (simp add: keep_recent_def)
  qed
qed

section \<open>The transaction body\<close>

lemma tx_idempotency_Inr:
  assumes "tx_idempotency cod k ik u a (s, t) = ((s1, t1), Inr d)"
  shows "if ik = [] then \<not> d \<and> t1 = t
    else \<exists>h. cod_hash cod u a = Inr h \<and>
      (if d then t_idempotency t (k, ik) = Some h \<and> t1 = t
       else t_idempotency t (k, ik) = None \<and> t1 = t\<lparr>t_idempotency := (t_idempotency t)((k, ik) \<mapsto> h)\<rparr>)"
  using assms
  by (auto simp: tx_idempotency_def st_bind_Inr tx_stmt_defs tx_exec_Inr st_defs
      split: if_splits option.splits sum.splits)

definition add_row :: "msg_row \<Rightarrow> sql_tables \<Rightarrow> sql_tables" where
  "add_row r t = t\<lparr>t_messages := t_messages t @ [r]\<rparr>"

lemma rows_of_add_row: "rows_of (add_row r t) k = rows_of t k @ (if row_key r = k then [r] else [])"
  by (simp add: rows_of_def add_row_def)

lemma rows_ok_add_row:
  assumes "rows_ok cod n t" and "row_seq r = n" and "cloned (decode_row cod r)"
    and "t_conversations t (row_key r) \<noteq> None"
  shows "rows_ok cod (n + 1) (add_row r t)"
  using assms by (auto simp: rows_ok_def add_row_def sorted_wrt_append)

lemma add_row_same [simp]:
  "t_conversations (add_row r t) = t_conversations t" "t_idempotency (add_row r t) = t_idempotency t"
  by (simp_all add: add_row_def)

lemma rows_ok_cong:
  assumes "t_messages t1 = t_messages t" and "dom (t_conversations t) \<subseteq> dom (t_conversations t1)"
    and "rows_ok cod n t"
  shows "rows_ok cod n t1"
  using assms by (fastforce simp: rows_ok_def)

lemma tables_ok_cong:
  assumes "t_messages t1 = t_messages t" and "dom (t_conversations t) \<subseteq> dom (t_conversations t1)"
    and "tables_ok cod mx n t"
  shows "tables_ok cod mx n t1"
  using assms rows_ok_cong [OF assms(1,2)] by (simp add: tables_ok_def rows_of_def)

text \<open>The rows that the two inserts and the trim leave.\<close>

lemma write_turn:
  assumes ins_u: "tx_insert_message cod k v uj (s, t) = ((s1, t1), Inr ())"
    and ins_a: "tx_insert_message cod k v aj (s1, t1) = ((s2, t2), Inr ())"
    and trim: "trim_tx mx k (s2, t2) = ((s3, t3), Inr ())"
    and ok: "tables_ok cod mx (ss_seq s) t" "codec_ok cod" "even mx" "2 \<le> mx"
    and enc: "cod_marshal cod u = Inr uj" "cod_marshal cod a = Inr aj"
    and conv: "t_conversations t k = Some v"
  shows "tables_ok cod mx (ss_seq s3) t3 \<and> t_idempotency t3 = t_idempotency t \<and>
    tables_view cod t3 = (tables_view cod t)(k := (keep_recent mx (fst (tables_view cod t k) @
        [Some (sql_canon cod u), Some (sql_canon cod a)]), v))"
proof -
  define ru where "ru = \<lparr>row_seq = ss_seq s, row_key = k, row_turn = v, row_json = cod_jsonb cod uj\<rparr>"
  define ra where "ra = \<lparr>row_seq = ss_seq s + 1, row_key = k, row_turn = v, row_json = cod_jsonb cod aj\<rparr>"
  have s1: "t1 = add_row ru t" "ss_seq s1 = ss_seq s + 1"
    using ins_u by (auto simp: tx_insert_message_def tx_exec_Inr add_row_def ru_def sql_tick_def)
  have s2: "t2 = add_row ra t1" "ss_seq s2 = ss_seq s + 2"
    using ins_a s1 by (auto simp: tx_insert_message_def tx_exec_Inr add_row_def ra_def sql_tick_def)
  have dec: "decode_row cod ru = Some (sql_canon cod u)" "decode_row cod ra = Some (sql_canon cod a)"
    "cloned (Some (sql_canon cod u))" "cloned (Some (sql_canon cod a))"
    unfolding ru_def ra_def using decode_row_marshal [OF ok(2)] enc by blast+
  have r1: "rows_ok cod (ss_seq s + 1) t1"
    unfolding s1 using ok(1) dec conv by (intro rows_ok_add_row) (auto simp: tables_ok_def ru_def)
  have r2: "rows_ok cod (ss_seq s + 2) t2"
    using rows_ok_add_row [OF r1, of ra] dec conv s1 s2 by (simp add: ra_def)
  note tr = trim_tx_Inr [OF trim r2]
  have rows: "rows_of t3 k' = (if k' = k then keep_recent mx (rows_of t k @ [ru, ra]) else rows_of t k')" for k'
    using tr [of k'] s1 s2 by (simp add: rows_of_add_row ru_def ra_def)
  have ok3: "rows_ok cod (ss_seq s3) t3"
    using tr [of k] s2 by (auto simp: frame_def rows_ok_def)
  have len: "even (length (rows_of t3 k')) \<and> int (length (rows_of t3 k')) \<le> mx" for k'
    using ok rows [of k'] even_length_keep_recent [OF ok(4), of "rows_of t k @ [ru, ra]"]
      length_keep_recent_le [of mx "rows_of t k @ [ru, ra]"] by (auto simp: tables_ok_def)
  have map: "map (decode_row cod) (keep_recent mx (rows_of t k @ [ru, ra])) =
      keep_recent mx (map (decode_row cod) (rows_of t k) @ [Some (sql_canon cod u), Some (sql_canon cod a)])"
    using dec by (simp add: keep_recent_def drop_map [symmetric])
  have "tables_view cod t3 k' = ((tables_view cod t)(k := (keep_recent mx (fst (tables_view cod t k) @
        [Some (sql_canon cod u), Some (sql_canon cod a)]), v))) k'" for k'
    using tr [of k] s1 s2 conv rows [of k'] map by (auto simp: tables_view_def split: option.splits)
  with ok3 len tr [of k] s1 s2 show ?thesis by (auto simp: tables_ok_def)
qed

lemma tables_view_cong:
  assumes "t_messages t1 = t_messages t" and "t_conversations t1 = t_conversations t"
  shows "tables_view cod t1 = tables_view cod t"
  using assms by (simp add: fun_eq_iff tables_view_def rows_of_def split: option.splits)

text \<open>A new conversation row is invisible.\<close>

lemma tx_insert_conversation_Inr:
  assumes "tx_insert_conversation k (s, t) = ((s1, t1), Inr x)" and "tables_ok cod mx n t"
  shows "tables_view cod t1 = tables_view cod t \<and> tables_ok cod mx n t1 \<and>
    t_idempotency t1 = t_idempotency t \<and> ss_seq s1 = ss_seq s \<and>
    t_conversations t1 k = Some (snd (tables_view cod t k))"
proof (cases "t_conversations t k")
  case (Some v)
  with assms show ?thesis
    by (auto simp: tx_insert_conversation_def tx_exec_Inr tables_view_def sql_tick_def)
next
  case None
  then have t1: "t1 = t\<lparr>t_conversations := (t_conversations t)(k \<mapsto> 0)\<rparr>" "ss_seq s1 = ss_seq s"
    using assms(1) by (auto simp: tx_insert_conversation_def tx_exec_Inr sql_tick_def)
  have "rows_of t k = []"
    using assms(2) None by (auto simp: tables_ok_def rows_ok_def rows_of_def filter_empty_conv)
  then have "tables_view cod t1 = tables_view cod t"
    using None t1 by (auto simp: tables_view_def rows_of_def fun_eq_iff split: option.splits)
  moreover have "tables_ok cod mx n t1"
    using tables_ok_cong [OF _ _ assms(2), of t1] t1 by auto
  ultimately show ?thesis using None t1 by (simp add: tables_view_def)
qed

text \<open>What the body did when it asks for a commit.\<close>

lemma append_body_Inr:
  assumes run: "append_body cod mx k expected u a uj aj chk ik (s, t) = ((s1, t1), Inr b)"
    and ok: "tables_ok cod mx (ss_seq s) t" "codec_ok cod" "even mx" "2 \<le> mx"
    and enc: "cod_marshal cod u = Inr uj" "cod_marshal cod a = Inr aj"
    and chk: "chk \<longrightarrow> ik = []"
  shows "tables_ok cod mx (ss_seq s1) t1 \<and>
    (if b then
       (chk \<longrightarrow> snd (tables_view cod t k) = expected) \<and>
       tables_view cod t1 = (tables_view cod t)(k := spec_turn mx (sql_canon cod u) (sql_canon cod a) (tables_view cod t k)) \<and>
       (if ik = [] then t_idempotency t1 = t_idempotency t
        else \<exists>h. cod_hash cod u a = Inr h \<and> t_idempotency t (k, ik) = None \<and>
               t_idempotency t1 = (t_idempotency t)((k, ik) \<mapsto> h))
     else
       tables_view cod t1 = tables_view cod t \<and> t_idempotency t1 = t_idempotency t \<and>
       (if ik = [] then chk \<and> snd (tables_view cod t k) \<noteq> expected
        else \<exists>h. cod_hash cod u a = Inr h \<and> t_idempotency t (k, ik) = Some h))"
proof -
  from run obtain st2 st3 dup where
    conv': "tx_insert_conversation k (s, t) = (st2, Inr ())" and
    idem': "tx_idempotency cod k ik u a st2 = (st3, Inr dup)" and
    rest': "(if dup then st_return False
       else st_bind (tx_select_version k) (\<lambda>version.
           if chk \<and> version \<noteq> expected then st_return False
           else
             st_bind (tx_update_version k (version + 1)) (\<lambda>_.
             st_bind (tx_insert_message cod k (version + 1) uj) (\<lambda>_.
             st_bind (tx_insert_message cod k (version + 1) aj) (\<lambda>_.
             st_bind (trim_tx mx k) (\<lambda>_. st_return True)))))) st3 = ((s1, t1), Inr b)"
    unfolding append_body_def st_bind_Inr by auto
  obtain s2 t2 s3 t3 where st: "st2 = (s2, t2)" "st3 = (s3, t3)" by (cases st2, cases st3)
  note conv = conv' [unfolded st] and idem = idem' [unfolded st] and rest = rest' [unfolded st]
  note c = tx_insert_conversation_Inr [OF conv ok(1)]
  note i = tx_idempotency_Inr [OF idem]
  have fr: "ss_seq s \<le> ss_seq s3"
    using keepsD [OF keeps_idempotency idem] c by (simp add: frame_def)
  have t3: "t_messages t3 = t_messages t2" "t_conversations t3 = t_conversations t2"
    using i by (auto split: if_splits)
  have ok3: "tables_ok cod mx (ss_seq s3) t3"
    using tables_ok_cong [of t3 t2 cod mx "ss_seq s3"] t3 c tables_ok_mono [OF _ fr, of cod mx t2] by auto
  have view3: "tables_view cod t3 = tables_view cod t"
    using tables_view_cong [OF t3] c by simp
  show ?thesis
  proof (cases "dup \<or> chk \<and> snd (tables_view cod t k) \<noteq> expected")
    case True
    with rest have "t1 = t3" "s1 = s3 \<or> ss_seq s1 = ss_seq s3" "b = False"
      using c t3 by (auto simp: st_defs st_bind_Inr tx_select_version_def tx_exec_Inr sql_tick_def split: if_splits)
    with True ok3 view3 i c chk show ?thesis by (auto split: if_splits)
  next
    case False
    define v where "v = snd (tables_view cod t k) + 1"
    from False rest c t3 obtain s4 s5 t5 s6 t6 s7 t7 where
      upd: "tx_update_version k v (s4, t3) = ((s5, t5), Inr ())" and s4: "ss_seq s4 = ss_seq s3" and
      ins: "tx_insert_message cod k v uj (s5, t5) = ((s6, t6), Inr ())"
        "tx_insert_message cod k v aj (s6, t6) = ((s7, t7), Inr ())" and
      trim: "trim_tx mx k (s7, t7) = ((s1, t1), Inr ())" and b: "b = True"
      by (auto simp: st_defs st_bind_Inr tx_select_version_def tx_exec_Inr sql_tick_def v_def)
    have t5: "t5 = t3\<lparr>t_conversations := (t_conversations t3)(k \<mapsto> v)\<rparr>" "ss_seq s5 = ss_seq s3"
      using upd c t3 s4 by (auto simp: tx_update_version_def tx_exec_Inr sql_tick_def)
    have ok5: "tables_ok cod mx (ss_seq s5) t5"
      using tables_ok_cong [OF _ _ ok3, of t5] t5 by auto
    have view5: "tables_view cod t5 = (tables_view cod t)(k := (fst (tables_view cod t k), v))"
      using t5 c t3 unfolding view3 [symmetric] by (auto simp: tables_view_def rows_of_def fun_eq_iff split: option.splits)
    note w = write_turn [OF ins trim ok5 ok(2-4) enc]
    have "t_idempotency t1 = t_idempotency t3" using w t5 by simp
    with w view5 t5 False b i c chk show ?thesis
      by (auto simp: spec_turn_def v_def split: if_splits)
  qed
qed

section \<open>Commit, rollback and the operations\<close>

definition same_data :: "codec \<Rightarrow> sql_store \<Rightarrow> sql_store \<Rightarrow> bool" where
  "same_data cod s s' \<longleftrightarrow> sql_view cod s' = sql_view cod s \<and> sql_used s' = sql_used s"

definition turn_stored ::
  "codec \<Rightarrow> session_key \<Rightarrow> string \<Rightarrow> message \<Rightarrow> message \<Rightarrow> sql_store \<Rightarrow> sql_store \<Rightarrow> bool" where
  "turn_stored cod k ik u a s s' \<longleftrightarrow>
     sql_view cod s' = (sql_view cod s)(k := spec_turn (ss_max s) (sql_canon cod u) (sql_canon cod a) (sql_view cod s k)) \<and>
     (if ik = [] then sql_used s' = sql_used s
      else \<exists>h. cod_hash cod u a = Inr h \<and> sql_used s k ik = None \<and>
             sql_used s' = (sql_used s)(k := (sql_used s k)(ik \<mapsto> h)))"

lemma same_data_refl [simp]: "same_data cod s s"
  by (simp add: same_data_def)

lemma frame_same_data: "frame s s' \<Longrightarrow> same_data cod s s'"
  by (auto simp: frame_def same_data_def sql_view_def sql_used_def fun_eq_iff)

lemma frame_sql_inv: "frame s s' \<Longrightarrow> sql_inv cod s \<Longrightarrow> sql_inv cod s' \<and> ss_max s' = ss_max s"
  by (auto simp: frame_def sql_inv_def intro: tables_ok_mono)

lemma sql_used_upd:
  assumes "t_idempotency (ss_tables s') = (t_idempotency (ss_tables s))((k, ik) \<mapsto> h)"
  shows "sql_used s' = (sql_used s)(k := (sql_used s k)(ik \<mapsto> h))"
  using assms by (auto simp: sql_used_def fun_eq_iff)

lemma sql_used_same:
  "t_idempotency (ss_tables s') = t_idempotency (ss_tables s) \<Longrightarrow> sql_used s' = sql_used s"
  by (simp add: sql_used_def fun_eq_iff)

text \<open>The installed tables of a committed body.\<close>

lemma committed:
  assumes body: "append_body cod (ss_max s) k expected u a uj aj chk ik (s1, ss_tables s) = ((s2, t2), Inr b)"
    and fr: "frame s s1" "frame s2 s3" and inv: "sql_inv cod s" and chk: "chk \<longrightarrow> ik = []"
    and enc: "cod_marshal cod u = Inr uj" "cod_marshal cod a = Inr aj"
  shows "sql_inv cod (s3\<lparr>ss_tables := t2\<rparr>) \<and> ss_max s3 = ss_max s \<and>
    (if b then (chk \<longrightarrow> snd (sql_view cod s k) = expected) \<and> turn_stored cod k ik u a s (s3\<lparr>ss_tables := t2\<rparr>)
     else same_data cod s (s3\<lparr>ss_tables := t2\<rparr>) \<and>
       (if ik = [] then chk \<and> snd (sql_view cod s k) \<noteq> expected
        else \<exists>h. cod_hash cod u a = Inr h \<and> sql_used s k ik = Some h))"
proof -
  have ok: "tables_ok cod (ss_max s) (ss_seq s1) (ss_tables s)" "codec_ok cod" "even (ss_max s)" "2 \<le> ss_max s"
    using inv fr by (auto simp: sql_inv_def frame_def intro: tables_ok_mono)
  note eff = append_body_Inr [OF body ok enc chk]
  have fr2: "frame s s2" using keepsD [OF keeps_body body] fr by (blast intro: frame_trans)
  have inv3: "sql_inv cod (s3\<lparr>ss_tables := t2\<rparr>)" "ss_max s3 = ss_max s"
    using eff fr2 fr ok by (auto simp: sql_inv_def frame_def intro: tables_ok_mono)
  show ?thesis
  proof (cases b)
    case True
    then have "turn_stored cod k ik u a s (s3\<lparr>ss_tables := t2\<rparr>)"
      using eff sql_used_upd [of "s3\<lparr>ss_tables := t2\<rparr>" s k ik] sql_used_same [of "s3\<lparr>ss_tables := t2\<rparr>" s]
      by (auto simp: turn_stored_def sql_view_def sql_used_def [of s k] split: if_splits)
    with True inv3 eff show ?thesis by (auto simp: sql_view_def)
  next
    case False
    with inv3 eff show ?thesis
      by (auto simp: same_data_def sql_view_def sql_used_def fun_eq_iff split: if_splits)
  qed
qed

lemma sql_append_with_key_cases:
  assumes run: "sql_append_with_key cod c k expected u a chk ik s = (s', r)"
    and inv: "sql_inv cod s" and chk: "chk \<longrightarrow> ik = []"
  shows "sql_inv cod s' \<and> ss_max s' = ss_max s \<and>
    (case r of
       Inr True \<Rightarrow> \<exists>mu ma. u = Some mu \<and> a = Some ma \<and> validate_key k = None \<and>
         (chk \<longrightarrow> snd (sql_view cod s k) = expected) \<and> turn_stored cod k ik mu ma s s'
     | Inr False \<Rightarrow> same_data cod s s' \<and>
         (if ik = [] then chk \<and> snd (sql_view cod s k) \<noteq> expected
          else \<exists>mu ma h. u = Some mu \<and> a = Some ma \<and> cod_hash cod mu ma = Inr h \<and> sql_used s k ik = Some h)
     | Inl e \<Rightarrow> same_data cod s s' \<or>
         (\<exists>mu ma. u = Some mu \<and> a = Some ma \<and> validate_key k = None \<and>
           (chk \<longrightarrow> snd (sql_view cod s k) = expected) \<and> turn_stored cod k ik mu ma s s'))"
proof -
  obtain s1 out where tick: "sql_call c s = (s1, out)" by fastforce
  have fr: "frame s s1" using frame_call [OF tick] .
  show ?thesis
  proof (cases "validate_key k = None \<and> (\<exists>mu ma uj aj. u = Some mu \<and> a = Some ma \<and>
      cod_marshal cod mu = Inr uj \<and> cod_marshal cod ma = Inr aj) \<and> out = Inr ()")
    case False
    with run tick have "(s' = s \<or> s' = s1) \<and> (\<exists>e. r = Inl e)"
      by (cases out) (auto simp: sql_append_with_key_def split: option.splits sum.splits)
    with inv frame_sql_inv [OF fr inv] frame_same_data [OF fr] show ?thesis by auto
  next
    case True
    then obtain mu ma uj aj where g: "validate_key k = None" "u = Some mu" "a = Some ma"
      and enc: "cod_marshal cod mu = Inr uj" "cod_marshal cod ma = Inr aj" and out: "out = Inr ()" by auto
    obtain s2 t2 rb where body:
      "append_body cod (ss_max s) k expected mu ma uj aj chk ik (s1, ss_tables s) = ((s2, t2), rb)"
      by (metis surj_pair)
    have fr2: "frame s s2" using keepsD [OF keeps_body body] fr by (blast intro: frame_trans)
    have fin: "finish_tx ((s2, t2), rb) = (s', r)"
      using run tick g enc out body fr by (simp add: sql_append_with_key_def frame_def)
    show ?thesis
    proof (cases rb)
      case (Inl e)
      with fin fr2 inv frame_sql_inv [OF fr2 inv] frame_same_data [OF fr2] show ?thesis
        by (auto simp: finish_tx_def)
    next
      case (Inr b)
      obtain s3 out3 where tick3: "sql_tick s2 = (s3, out3)" by fastforce
      have fr3: "frame s2 s3" using frame_tick [OF tick3] by simp
      then have fr03: "frame s s3" using fr2 by (blast intro: frame_trans)
      note com = committed [OF body [unfolded Inr] fr fr3 inv chk enc]
      from fin Inr tick3 com g frame_sql_inv [OF fr03 inv] frame_same_data [OF fr03] show ?thesis
        by (cases out3; cases b) (auto simp: finish_tx_def split: if_splits)
    qed
  qed
qed

lemma sql_load_cases:
  assumes "sql_load cod c k s = (s', r)" and "sql_inv cod s"
  shows "frame s s' \<and> (\<forall>t. r = Inr t \<longrightarrow> t = sql_view cod s k)"
proof -
  obtain s1 o1 where k1: "sql_call c s = (s1, o1)" by fastforce
  obtain s2 o2 where k2: "sql_tick s1 = (s2, o2)" by fastforce
  obtain s3 o3 where k3: "sql_tick s2 = (s3, o3)" by fastforce
  have fr: "frame s s1" "frame s s2" "frame s s3"
    using frame_call [OF k1] frame_tick [OF k2] frame_tick [OF k3] frame_trans by blast+
  have srt: "sorted_wrt (<) (map row_seq (t_messages (ss_tables s)))"
    and dec: "\<forall>r \<in> set (rows_of (ss_tables s) k). cloned (decode_row cod r)"
    using assms(2) by (auto simp: sql_inv_def tables_ok_def rows_ok_def rows_of_def)
  from assms(1) k1 k2 k3 fr srt decode_rows_ok [OF dec] show ?thesis
    by (cases o1; cases o2; cases o3)
      (auto simp: sql_load_def frame_def sql_view_def tables_view_def rows_of_sorted split: option.splits)
qed

section \<open>The SQL store implements the store interfaces\<close>

lemma sql_append_cases:
  assumes "sql_append cod c k u a s = (s', r)" and "sql_inv cod s"
  shows "sql_inv cod s' \<and> ss_max s' = ss_max s \<and> sql_used s' = sql_used s \<and>
    (let stored = (\<exists>mu ma. u = Some mu \<and> a = Some ma \<and> validate_key k = None \<and> turn_stored cod k [] mu ma s s')
     in case r of Inr x \<Rightarrow> stored | Inl e \<Rightarrow> same_data cod s s' \<or> stored)"
proof -
  obtain s1 r1 where core: "sql_append_with_key cod c k 0 u a False [] s = (s1, r1)" by fastforce
  from sql_append_with_key_cases [OF core assms(2)] core assms(1) show ?thesis
    by (auto simp: sql_append_def Let_def turn_stored_def same_data_def split: sum.splits bool.splits)
qed

interpretation sql: idempotent_store "sql_load cod" "sql_append cod" "sql_append_if_version cod" "sql_view cod"
  "sql_inv cod" ss_max "sql_canon cod" "\<lambda>_. True" "sql_append_idempotent cod" sql_used "cod_hash cod"
  for cod
proof (unfold_locales, goal_cases)
  case (1 s) then show ?case by (simp add: sql_inv_def)
next
  case (2 s k)
  then have ok: "tables_ok cod (ss_max s) (ss_seq s) (ss_tables s)" "2 \<le> ss_max s" by (auto simp: sql_inv_def)
  then have "list_all cloned (map (decode_row cod) (rows_of (ss_tables s) k))"
    by (auto simp: tables_ok_def rows_ok_def rows_of_def list_all_iff)
  with ok show ?case
    by (auto simp: window_ok_def sql_view_def tables_view_def tables_ok_def split: option.splits)
next
  case (3 s k c s' r)
  then have fr: "frame s s'" using sql_load_cases by blast
  from frame_sql_inv [OF fr 3(1)] frame_same_data [OF fr] show ?case by (simp add: same_data_def)
next
  case (4 s k c s' t) then show ?case using sql_load_cases by blast
next
  case (5 s k c u a s' r) then show ?case using sql_append_cases by blast
next
  case (6 s k c u a s' x) then show ?case
    using sql_append_cases [OF 6(3,1)] by (auto simp: turn_stored_def Let_def)
next
  case (7 s k c u a s' e) then show ?case
    using sql_append_cases [OF 7(3,1)] by (auto simp: turn_stored_def same_data_def Let_def)
next
  case (8 s k c v u a s' r) then show ?case
    unfolding sql_append_if_version_def using sql_append_with_key_cases by blast
next
  case (9 s k c v u a s') then show ?case
    using sql_append_with_key_cases [OF 9(3) [unfolded sql_append_if_version_def] 9(1)] by (auto simp: turn_stored_def)
next
  case (10 s k c v u a s') then show ?case
    using sql_append_with_key_cases [OF 10(3) [unfolded sql_append_if_version_def] 10(1)] by (auto simp: same_data_def)
next
  case (11 s k c v u a s' e) then show ?case
    using sql_append_with_key_cases [OF 11(3) [unfolded sql_append_if_version_def] 11(1)]
    by (auto simp: turn_stored_def same_data_def)
next
  case (12 s k c s' r)
  then have "frame s s'" using sql_load_cases by blast
  then show ?case using frame_same_data by (simp add: same_data_def)
next
  case (13 s k c u a s' r) then show ?case using sql_append_cases by blast
next
  case (14 s k c ik u a s' r) then show ?case
    using sql_append_with_key_cases [of cod c k 0 u a False ik s s' r]
    by (auto simp: sql_append_idempotent_def split: if_splits)
next
  case (15 s k c ik u a s')
  then have "ik \<noteq> []" "sql_append_with_key cod c k 0 u a False ik s = (s', Inr True)"
    by (auto simp: sql_append_idempotent_def split: if_splits)
  with sql_append_with_key_cases [OF this(2) 15(1)] show ?case by (auto simp: turn_stored_def)
next
  case (16 s k c ik u a s')
  then have "ik \<noteq> []" "sql_append_with_key cod c k 0 u a False ik s = (s', Inr False)"
    by (auto simp: sql_append_idempotent_def split: if_splits)
  with sql_append_with_key_cases [OF this(2) 16(1)] show ?case by (auto simp: same_data_def)
next
  case (17 s k c ik u a s' e)
  then consider "s' = s" | "ik \<noteq> []" "sql_append_with_key cod c k 0 u a False ik s = (s', Inl e)"
    by (cases "ik = []") (auto simp: sql_append_idempotent_def split: if_splits)
  then show ?case
  proof cases
    case 2
    with sql_append_with_key_cases [OF this(2) 17(1)] show ?thesis by (auto simp: turn_stored_def same_data_def)
  qed simp
qed

text \<open>
  When no acknowledgement of a commit is lost, an operation that reports an error left the tables
  alone.
\<close>

definition acks_reliable :: "sql_store \<Rightarrow> bool" where
  "acks_reliable s \<longleftrightarrow> (\<forall>n e. ss_fault s n \<noteq> CommitLost e)"

lemma sql_append_exact:
  assumes "sql_append_with_key cod c k expected u a chk ik s = (s', r)"
  shows "ss_fault s' = ss_fault s \<and> (acks_reliable s \<longrightarrow> (\<forall>e. r = Inl e \<longrightarrow> ss_tables s' = ss_tables s))"
proof -
  have fin: "ss_fault s2 = ss_fault s1 \<and>
      (acks_reliable s1 \<longrightarrow> (\<forall>e. r = Inl e \<longrightarrow> ss_tables s2 = ss_tables s1))"
    if fr: "frame s1 st" and "finish_tx ((st, t), rb) = (s2, r)" for s1 st t rb s2 r
    using that by (cases rb)
      (auto simp: finish_tx_def sql_tick_def frame_def acks_reliable_def split: sql_outcome.splits)
  obtain s1 out where tick: "sql_call c s = (s1, out)" by fastforce
  have fr: "frame s s1" using frame_call [OF tick] .
  show ?thesis
  proof (cases "\<exists>mu ma uj aj. validate_key k = None \<and> u = Some mu \<and> a = Some ma \<and>
      cod_marshal cod mu = Inr uj \<and> cod_marshal cod ma = Inr aj \<and> out = Inr ()")
    case False
    with assms tick have "s' = s \<or> s' = s1"
      by (cases out) (auto simp: sql_append_with_key_def split: option.splits sum.splits)
    with fr show ?thesis by (auto simp: frame_def)
  next
    case True
    then obtain mu ma uj aj where g: "validate_key k = None" "u = Some mu" "a = Some ma"
      "cod_marshal cod mu = Inr uj" "cod_marshal cod ma = Inr aj" "out = Inr ()" by auto
    obtain s2 t2 rb where body:
      "append_body cod (ss_max s) k expected mu ma uj aj chk ik (s1, ss_tables s) = ((s2, t2), rb)"
      by (metis surj_pair)
    have "frame s s2" using keepsD [OF keeps_body body] fr by (blast intro: frame_trans)
    moreover have "finish_tx ((s2, t2), rb) = (s', r)"
      using assms tick g body fr by (simp add: sql_append_with_key_def frame_def)
    ultimately show ?thesis using fin by blast
  qed
qed

lemma acks_reliable_cong: "ss_fault s' = ss_fault s \<Longrightarrow> acks_reliable s' = acks_reliable s"
  by (simp add: acks_reliable_def)

lemma tables_same_data: "ss_tables s' = ss_tables s \<Longrightarrow> same_data cod s s'"
  by (simp add: same_data_def sql_view_def sql_used_def fun_eq_iff)

text \<open>A store opened on empty tables satisfies the invariant.\<close>

definition empty_tables :: sql_tables where
  "empty_tables = \<lparr>t_conversations = Map.empty, t_messages = [], t_idempotency = Map.empty\<rparr>"

lemma sql_inv_new:
  assumes "codec_ok cod" and "new_sql_store True n empty_tables q fault = Inr s"
  shows "sql_inv cod s \<and> sql_view cod s k = ([], 0) \<and> sql_used s k ik = None"
proof -
  have "even (ss_max s) \<and> 2 \<le> ss_max s"
    using assms(2) by (auto simp: new_sql_store_def Let_def split: if_splits) presburger+
  with assms show ?thesis
    by (auto simp: new_sql_store_def Let_def sql_inv_def tables_ok_def rows_ok_def rows_of_def empty_tables_def
        sql_view_def sql_used_def tables_view_def)
qed

text \<open>A finished context stops an append before its transaction begins.\<close>

lemma sql_append_with_key_finished:
  assumes "sql_append_with_key cod c k expected u a chk ik s = (s', r)" and "context_err c \<noteq> None"
  shows "s' = s \<and> (\<exists>e. r = Inl e)"
  using assms by (auto simp: sql_append_with_key_def sql_call_cancelled split: option.splits sum.splits)

interpretation sqlx: cancellable_store "sql_load cod" "sql_append cod" "sql_append_if_version cod" "sql_view cod"
  "sql_inv cod" ss_max "sql_canon cod" "\<lambda>_. True" "sql_append_idempotent cod" sql_used "cod_hash cod"
  for cod
proof (unfold_locales, goal_cases)
  case (1 c k u a s s' r)
  obtain s1 r1 where core: "sql_append_with_key cod c k 0 u a False [] s = (s1, r1)" by fastforce
  from sql_append_with_key_finished [OF core 1(2)] core 1(1) show ?case
    by (auto simp: sql_append_def)
next
  case (2 c k ik u a s s' r)
  then show ?case
    using sql_append_with_key_finished [of cod c k 0 u a False ik s s' r]
    by (auto simp: sql_append_idempotent_def split: if_splits)
qed

end
