(* ===== verification/Cached_Store.thy ===== *)
theory Cached_Store
  imports Store_Interface
begin

text \<open>
  \<open>CachedStore\<close> and \<open>RedisConversationCache\<close> of internal/conversation/cache.go over any primary store:
  the operations of the primary are arguments. The cache maps string keys to encoded snapshots; it
  may fail at every call (\<open>ca_fault\<close>, by kind of call and by the number of the call). Expiry only
  removes entries, which \<open>coherent_expire\<close> covers.

  The layer is a locale that extends the idempotent store interface; the sublocale shows that the
  cached store keeps the whole contract of its primary as long as cache deletes succeed, the
  primary never loses the acknowledgement of a commit, and the tenant and user IDs hold no colon.
  The last section shows what happens without each of the three.
\<close>

datatype cache_call = CGet | CSet | CDel

record cache_state =
  ca_data :: "string \<rightharpoonup> string"
  ca_clock :: nat
  ca_fault :: "cache_call \<Rightarrow> nat \<Rightarrow> go_error option"

record snapshot_codec =
  snap_marshal :: "transcript \<Rightarrow> string result"
  snap_unmarshal :: "string \<Rightarrow> transcript result"

section \<open>The Redis cache\<close>

definition redis_nil :: go_error where
  "redis_nil = ErrExternal ''redis: nil''"

definition cache_tick :: "cache_state \<Rightarrow> cache_state" where
  "cache_tick ca = ca\<lparr>ca_clock := ca_clock ca + 1\<rparr>"

definition client_get :: "string \<Rightarrow> (cache_state, string) op" where
  "client_get key ca =
     (cache_tick ca,
      case ca_fault ca CGet (ca_clock ca) of
        Some e \<Rightarrow> Inl e
      | None \<Rightarrow> (case ca_data ca key of None \<Rightarrow> Inl redis_nil | Some raw \<Rightarrow> Inr raw))"

definition redis_get :: "string \<Rightarrow> (cache_state, string) op" where
  "redis_get key ca =
     (case client_get key ca of
        (ca', Inl e) \<Rightarrow> (ca', Inl (if errors_is e redis_nil then ErrCacheMiss else e))
      | (ca', Inr raw) \<Rightarrow> (ca', Inr raw))"

definition redis_set :: "string \<Rightarrow> string \<Rightarrow> (cache_state, unit) op" where
  "redis_set key raw ca =
     (case ca_fault ca CSet (ca_clock ca) of
        Some e \<Rightarrow> (cache_tick ca, Inl e)
      | None \<Rightarrow> ((cache_tick ca)\<lparr>ca_data := (ca_data ca)(key \<mapsto> raw)\<rparr>, Inr ()))"

definition redis_delete :: "string \<Rightarrow> (cache_state, unit) op" where
  "redis_delete key ca =
     (case ca_fault ca CDel (ca_clock ca) of
        Some e \<Rightarrow> (cache_tick ca, Inl e)
      | None \<Rightarrow> ((cache_tick ca)\<lparr>ca_data := (ca_data ca)(key := None)\<rparr>, Inr ()))"

section \<open>The cached store\<close>

definition cached_ttl :: "int \<Rightarrow> int" where
  "cached_ttl ttl = (if ttl \<le> 0 then 5 * 60 * 1000000000 else ttl)"

text \<open>\<open>invalidate\<close>: its error is dropped by every caller.\<close>

definition invalidate :: "session_key \<Rightarrow> cache_state \<Rightarrow> cache_state" where
  "invalidate k ca = fst (redis_delete (storage_key k) ca)"

text \<open>The read of the primary and the best-effort write of its snapshot.\<close>

definition cached_fill :: "'s loader \<Rightarrow> snapshot_codec \<Rightarrow> ('s \<times> cache_state) loader" where
  "cached_fill load sc c k st =
     (case load c k (fst st) of
        (s', Inl e) \<Rightarrow> ((s', snd st), Inl e)
      | (s', Inr t) \<Rightarrow>
          (case snap_marshal sc t of
             Inl _ \<Rightarrow> ((s', snd st), Inr t)
           | Inr raw \<Rightarrow> ((s', fst (redis_set (storage_key k) raw (snd st))), Inr t)))"

definition cached_load :: "'s loader \<Rightarrow> snapshot_codec \<Rightarrow> ('s \<times> cache_state) loader" where
  "cached_load load sc c k st =
     (case validate_key k of Some e \<Rightarrow> (st, Inl e) | None \<Rightarrow>
      case redis_get (storage_key k) (snd st) of
        (ca, Inl e) \<Rightarrow> cached_fill load sc c k (fst st, ca)
      | (ca, Inr raw) \<Rightarrow>
          (case snap_unmarshal sc raw of
             Inl _ \<Rightarrow> cached_fill load sc c k (fst st, ca)
           | Inr t \<Rightarrow> ((fst st, ca), Inr (clone_messages (fst t), snd t))))"

definition cached_append :: "'s appender \<Rightarrow> ('s \<times> cache_state) appender" where
  "cached_append app c k u a st =
     (case app c k u a (fst st) of
        (s', Inl e) \<Rightarrow> ((s', snd st), Inl e)
      | (s', Inr x) \<Rightarrow> ((s', invalidate k (snd st)), Inr ()))"

definition cached_append_if_version :: "'s versioned \<Rightarrow> ('s \<times> cache_state) versioned" where
  "cached_append_if_version app c k v u a st =
     (case app c k v u a (fst st) of
        (s', Inl e) \<Rightarrow> ((s', snd st), Inl e)
      | (s', Inr False) \<Rightarrow> ((s', snd st), Inr False)
      | (s', Inr True) \<Rightarrow> ((s', invalidate k (snd st)), Inr True))"

text \<open>\<open>s.primary.(IdempotentConversationStore)\<close>: the primary may not implement the interface.\<close>

definition cached_append_idempotent :: "'s idempotent option \<Rightarrow> ('s \<times> cache_state) idempotent" where
  "cached_append_idempotent primary c k ik u a st =
     (case primary of
        None \<Rightarrow> (st, Inl (ErrText ''primary conversation store does not support idempotency keys''))
      | Some app \<Rightarrow>
          (case app c k ik u a (fst st) of
             (s', Inl e) \<Rightarrow> ((s', snd st), Inl e)
           | (s', Inr False) \<Rightarrow> ((s', snd st), Inr False)
           | (s', Inr True) \<Rightarrow> ((s', invalidate k (snd st)), Inr True)))"

section \<open>Coherence\<close>

definition coherent ::
  "('s \<Rightarrow> session_key \<Rightarrow> transcript) \<Rightarrow> snapshot_codec \<Rightarrow> 's \<Rightarrow> cache_state \<Rightarrow> bool" where
  "coherent view sc s ca \<longleftrightarrow>
     (\<forall>k raw t. colon_free k \<longrightarrow> ca_data ca (storage_key k) = Some raw \<longrightarrow> snap_unmarshal sc raw = Inr t \<longrightarrow>
        (clone_messages (fst t), snd t) = view s k)"

definition snap_ok :: "snapshot_codec \<Rightarrow> bool" where
  "snap_ok sc \<longleftrightarrow>
     (\<forall>t raw t'. list_all cloned (fst t) \<longrightarrow> snap_marshal sc t = Inr raw \<longrightarrow> snap_unmarshal sc raw = Inr t' \<longrightarrow>
        (clone_messages (fst t'), snd t') = t)"

definition deletes_ok :: "cache_state \<Rightarrow> bool" where
  "deletes_ok ca \<longleftrightarrow> (\<forall>n. ca_fault ca CDel n = None)"

lemma coherent_expire:
  "coherent view sc s ca \<Longrightarrow> ca_data ca' \<subseteq>\<^sub>m ca_data ca \<Longrightarrow> coherent view sc s ca'"
  by (fastforce simp: coherent_def map_le_def dom_def)

lemma cache_get_frame:
  assumes "redis_get key ca = (ca', r)"
  shows "ca_data ca' = ca_data ca \<and> deletes_ok ca' = deletes_ok ca \<and> (\<forall>raw. r = Inr raw \<longrightarrow> ca_data ca key = Some raw)"
  using assms
  by (auto simp: redis_get_def client_get_def cache_tick_def deletes_ok_def
      split: option.splits sum.splits if_splits prod.splits)

lemma deletes_ok_ops [simp]:
  "deletes_ok (fst (redis_set key raw ca)) = deletes_ok ca"
  "deletes_ok (invalidate k ca) = deletes_ok ca"
  by (auto simp: redis_set_def redis_delete_def invalidate_def cache_tick_def deletes_ok_def split: option.splits)

lemma coherent_same_view:
  "coherent view sc s ca \<Longrightarrow> view s' = view s \<Longrightarrow> ca_data ca' = ca_data ca \<Longrightarrow> coherent view sc s' ca'"
  by (simp add: coherent_def)

text \<open>A snapshot of the primary's own state, and an entry deleted after a commit.\<close>

lemma coherent_set:
  assumes "coherent view sc s ca" and "snap_ok sc" and "list_all cloned (fst (view s k))"
    and "snap_marshal sc (view s k) = Inr raw" and "colon_free k"
  shows "coherent view sc s (fst (redis_set (storage_key k) raw ca))"
  unfolding coherent_def
proof (intro allI impI)
  fix k' raw' t
  assume a: "colon_free k'" "ca_data (fst (redis_set (storage_key k) raw ca)) (storage_key k') = Some raw'"
    "snap_unmarshal sc raw' = Inr t"
  show "(clone_messages (fst t), snd t) = view s k'"
  proof (cases "ca_data ca (storage_key k') = Some raw'")
    case True
    with a assms(1) show ?thesis by (auto simp: coherent_def)
  next
    case False
    with a(2) have "storage_key k' = storage_key k" "raw' = raw"
      by (auto simp: redis_set_def cache_tick_def split: option.splits if_splits)
    then have "k' = k" using a(1) assms(5) storage_key_inj_colon_free by blast
    moreover have "snap_unmarshal sc raw = Inr t" using a(3) \<open>raw' = raw\<close> by simp
    ultimately show ?thesis
      using assms(2) [unfolded snap_ok_def, rule_format, OF assms(3,4)] by simp
  qed
qed

lemma coherent_invalidate:
  assumes "coherent view sc s ca" and "deletes_ok ca" and "view s' = (view s)(k := t)" and "colon_free k"
  shows "coherent view sc s' (invalidate k ca)"
  unfolding coherent_def
proof (intro allI impI)
  fix k' raw t'
  assume a: "colon_free k'" "ca_data (invalidate k ca) (storage_key k') = Some raw"
    "snap_unmarshal sc raw = Inr t'"
  have "ca_data (invalidate k ca) = (ca_data ca)(storage_key k := None)"
    using assms(2) by (simp add: invalidate_def redis_delete_def deletes_ok_def cache_tick_def)
  with a(2) have "storage_key k' \<noteq> storage_key k" "ca_data ca (storage_key k') = Some raw"
    by (auto split: if_splits)
  with a assms show "(clone_messages (fst t'), snd t') = view s' k'"
    by (auto simp: coherent_def)
qed

definition cached_inv ::
  "('s \<Rightarrow> bool) \<Rightarrow> ('s \<Rightarrow> session_key \<Rightarrow> transcript) \<Rightarrow> ('s \<Rightarrow> bool) \<Rightarrow> snapshot_codec \<Rightarrow> 's \<times> cache_state \<Rightarrow> bool" where
  "cached_inv pinv view exact sc st \<longleftrightarrow>
     pinv (fst st) \<and> exact (fst st) \<and> snap_ok sc \<and> deletes_ok (snd st) \<and> coherent view sc (fst st) (snd st)"

section \<open>The cached store keeps the contract of its primary\<close>

locale cache_layer = idempotent_store +
  fixes exact :: "'a \<Rightarrow> bool"
    and sc :: snapshot_codec
  assumes load_exact: "load c k s = (s', r) \<Longrightarrow> exact s' = exact s"
    and append_exact: "append c k u a s = (s', ra) \<Longrightarrow> exact s \<Longrightarrow>
      exact s' \<and> (\<forall>e. ra = Inl e \<longrightarrow> view s' = view s)"
    and append_if_exact: "append_if c k v u a s = (s', rb) \<Longrightarrow> exact s \<Longrightarrow>
      exact s' \<and> (\<forall>e. rb = Inl e \<longrightarrow> view s' = view s)"
    and idem_exact: "append_idem c k ik u a s = (s', rb) \<Longrightarrow> exact s \<Longrightarrow>
      exact s' \<and> (\<forall>e. rb = Inl e \<longrightarrow> view s' = view s \<and> used s' = used s)"
begin

abbreviation cinv :: "'a \<times> cache_state \<Rightarrow> bool" where
  "cinv \<equiv> cached_inv inv view exact sc"

lemma cached_fill_cases:
  assumes "cinv (s, ca)" and "ok_key k" and "colon_free k"
    and "cached_fill load sc c k (s, ca) = (st', r)"
  shows "cinv st' \<and> limit (fst st') = limit s \<and> view (fst st') = view s \<and> used (fst st') = used s \<and>
    (\<forall>t. r = Inr t \<longrightarrow> t = view s k)"
proof -
  have i: "inv s" "exact s" "snap_ok sc" "deletes_ok ca" "coherent view sc s ca"
    using assms(1) by (auto simp: cached_inv_def)
  obtain s1 r1 where l: "load c k s = (s1, r1)" by fastforce
  note k1 = load_keeps [OF i(1) assms(2) l] and u1 = load_used [OF i(1) assms(2) l] and e1 = load_exact [OF l]
  have co: "coherent view sc s1 ca" using coherent_same_view [OF i(5)] k1 by blast
  show ?thesis
  proof (cases r1)
    case (Inl e)
    with assms(4) l k1 u1 e1 i co show ?thesis by (auto simp: cached_fill_def cached_inv_def)
  next
    case (Inr t)
    have t: "t = view s k" using load_ok [OF i(1) assms(2) l [unfolded Inr]] .
    have cl: "list_all cloned (fst (view s1 k))" using view_window [OF i(1), of k] k1 by (simp add: window_ok_def)
    show ?thesis
    proof (cases "snap_marshal sc t")
      case (Inl e)
      with Inr assms(4) l k1 u1 e1 i co t show ?thesis by (auto simp: cached_fill_def cached_inv_def)
    next
      case raw: (Inr raw)
      have "coherent view sc s1 (fst (redis_set (storage_key k) raw ca))"
        using coherent_set [OF co i(3) cl _ assms(3)] raw t k1 by simp
      with raw Inr assms(4) l k1 u1 e1 i t show ?thesis by (auto simp: cached_fill_def cached_inv_def)
    qed
  qed
qed

lemma cached_load_cases:
  assumes "cinv st" and "ok_key k" and "colon_free k" and "cached_load load sc c k st = (st', r)"
  shows "cinv st' \<and> limit (fst st') = limit (fst st) \<and> view (fst st') = view (fst st) \<and>
    used (fst st') = used (fst st) \<and> (\<forall>t. r = Inr t \<longrightarrow> t = view (fst st) k)"
proof (cases "validate_key k")
  case (Some e)
  with assms show ?thesis by (auto simp: cached_load_def)
next
  case None
  obtain ca g where get: "redis_get (storage_key k) (snd st) = (ca, g)" by fastforce
  note fr = cache_get_frame [OF get]
  have i: "cinv (fst st, ca)"
    using assms(1) fr coherent_same_view [of view sc "fst st" "snd st" "fst st" ca] by (auto simp: cached_inv_def)
  show ?thesis
  proof (cases "\<exists>raw t. g = Inr raw \<and> snap_unmarshal sc raw = Inr t")
    case True
    then obtain raw t where t: "g = Inr raw" "snap_unmarshal sc raw = Inr t" by auto
    then have "(clone_messages (fst t), snd t) = view (fst st) k"
      using fr assms(1,3) by (auto simp: cached_inv_def coherent_def)
    with t None get assms(4) i show ?thesis by (auto simp: cached_load_def)
  next
    case False
    then have "cached_fill load sc c k (fst st, ca) = (st', r)"
      using None get assms(4) by (auto simp: cached_load_def split: sum.splits)
    from cached_fill_cases [OF i assms(2,3) this] show ?thesis by simp
  qed
qed

lemma cinv_committed:
  assumes "cinv (s, ca)" and "inv s'" and "exact s'" and "view s' = (view s)(k := t)" and "colon_free k"
  shows "cinv (s', invalidate k ca)"
  using assms coherent_invalidate [of view sc s ca s' k t] by (auto simp: cached_inv_def)

lemma cinv_unchanged:
  assumes "cinv (s, ca)" and "inv s'" and "exact s'" and "view s' = view s"
  shows "cinv (s', ca)"
  using assms coherent_same_view [of view sc s ca s' ca] by (auto simp: cached_inv_def)

lemma cached_append_cases:
  assumes i: "cinv st" and k: "ok_key k" "colon_free k" and run: "cached_append append c k u a st = (st', r)"
  shows "cinv st' \<and> limit (fst st') = limit (fst st) \<and> used (fst st') = used (fst st) \<and>
    (case r of
       Inl e \<Rightarrow> view (fst st') = view (fst st)
     | Inr x \<Rightarrow> \<exists>mu ma. u = Some mu \<and> a = Some ma \<and> validate_key k = None \<and> view (fst st') =
         (view (fst st))(k := spec_turn (limit (fst st)) (canon mu) (canon ma) (view (fst st) k)))"
proof -
  have ps: "inv (fst st)" "exact (fst st)" using i by (auto simp: cached_inv_def)
  obtain s1 r1 where p: "append c k u a (fst st) = (s1, r1)" by fastforce
  note k1 = append_keeps [OF ps(1) k(1) p] and e1 = append_exact [OF p ps(2)]
    and u1 = append_used [OF ps(1) k(1) p]
  show ?thesis
  proof (cases r1)
    case (Inl e)
    with run p k1 e1 u1 cinv_unchanged [of "fst st" "snd st" s1] i show ?thesis
      by (auto simp: cached_append_def)
  next
    case (Inr x)
    note eff = append_ok [OF ps(1) k(1) p [unfolded Inr]]
    then obtain t where v: "view s1 = (view (fst st))(k := t)" by blast
    have "cinv (s1, invalidate k (snd st))"
      by (rule cinv_committed [OF _ _ _ v]) (use i k k1 e1 in simp_all)
    with run p Inr k1 u1 eff show ?thesis by (auto simp: cached_append_def)
  qed
qed

lemma cached_append_if_cases:
  assumes i: "cinv st" and k: "ok_key k" "colon_free k"
    and run: "cached_append_if_version append_if c k v u a st = (st', r)"
  shows "cinv st' \<and> limit (fst st') = limit (fst st) \<and>
    (case r of
       Inr True \<Rightarrow> \<exists>mu ma. u = Some mu \<and> a = Some ma \<and> snd (view (fst st) k) = v \<and> view (fst st') =
         (view (fst st))(k := spec_turn (limit (fst st)) (canon mu) (canon ma) (view (fst st) k))
     | Inr False \<Rightarrow> snd (view (fst st) k) \<noteq> v \<and> view (fst st') = view (fst st)
     | Inl e \<Rightarrow> view (fst st') = view (fst st))"
proof -
  have ps: "inv (fst st)" "exact (fst st)" using i by (auto simp: cached_inv_def)
  obtain s1 r1 where p: "append_if c k v u a (fst st) = (s1, r1)" by fastforce
  note k1 = append_if_keeps [OF ps(1) k(1) p] and e1 = append_if_exact [OF p ps(2)]
  consider (err) e where "r1 = Inl e" | (no) "r1 = Inr False" | (yes) "r1 = Inr True"
    by (cases r1) auto
  then show ?thesis
  proof cases
    case err
    with run p k1 e1 cinv_unchanged [of "fst st" "snd st" s1] i show ?thesis
      by (auto simp: cached_append_if_version_def)
  next
    case no
    note eff = append_if_false [OF ps(1) k(1) p [unfolded no]]
    with no run p k1 e1 cinv_unchanged [of "fst st" "snd st" s1] i show ?thesis
      by (auto simp: cached_append_if_version_def)
  next
    case yes
    note eff = append_if_true [OF ps(1) k(1) p [unfolded yes]]
    then obtain t where v: "view s1 = (view (fst st))(k := t)" by blast
    have "cinv (s1, invalidate k (snd st))"
      by (rule cinv_committed [OF _ _ _ v]) (use i k k1 e1 in simp_all)
    with run p yes k1 eff show ?thesis by (auto simp: cached_append_if_version_def)
  qed
qed

lemma cached_idem_cases:
  assumes i: "cinv st" and k: "ok_key k" "colon_free k"
    and run: "cached_append_idempotent (Some append_idem) c k ik u a st = (st', r)"
  shows "cinv st' \<and> limit (fst st') = limit (fst st) \<and>
    (case r of
       Inr True \<Rightarrow> \<exists>mu ma h. u = Some mu \<and> a = Some ma \<and> turn_hash mu ma = Inr h \<and> used (fst st) k ik = None \<and>
         view (fst st') = (view (fst st))(k := spec_turn (limit (fst st)) (canon mu) (canon ma) (view (fst st) k)) \<and>
         used (fst st') = (used (fst st))(k := (used (fst st) k)(ik \<mapsto> h))
     | Inr False \<Rightarrow> \<exists>mu ma h. u = Some mu \<and> a = Some ma \<and> turn_hash mu ma = Inr h \<and>
         used (fst st) k ik = Some h \<and> view (fst st') = view (fst st) \<and> used (fst st') = used (fst st)
     | Inl e \<Rightarrow> view (fst st') = view (fst st) \<and> used (fst st') = used (fst st))"
proof -
  have ps: "inv (fst st)" "exact (fst st)" using i by (auto simp: cached_inv_def)
  obtain s1 r1 where p: "append_idem c k ik u a (fst st) = (s1, r1)" by fastforce
  note k1 = idem_keeps [OF ps(1) k(1) p] and e1 = idem_exact [OF p ps(2)]
  consider (err) e where "r1 = Inl e" | (no) "r1 = Inr False" | (yes) "r1 = Inr True"
    by (cases r1) auto
  then show ?thesis
  proof cases
    case err
    with run p k1 e1 cinv_unchanged [of "fst st" "snd st" s1] i show ?thesis
      by (auto simp: cached_append_idempotent_def)
  next
    case no
    note eff = idem_false [OF ps(1) k(1) p [unfolded no]]
    with no run p k1 e1 cinv_unchanged [of "fst st" "snd st" s1] i show ?thesis
      by (auto simp: cached_append_idempotent_def)
  next
    case yes
    note eff = idem_true [OF ps(1) k(1) p [unfolded yes]]
    then obtain t where v: "view s1 = (view (fst st))(k := t)" by blast
    have "cinv (s1, invalidate k (snd st))"
      by (rule cinv_committed [OF _ _ _ v]) (use i k k1 e1 in simp_all)
    with run p yes k1 eff show ?thesis by (auto simp: cached_append_idempotent_def)
  qed
qed

end

sublocale cache_layer \<subseteq> cached: idempotent_store "cached_load load sc" "cached_append append"
  "cached_append_if_version append_if" "\<lambda>st. view (fst st)" "cached_inv inv view exact sc"
  "\<lambda>st. limit (fst st)" canon "\<lambda>k. ok_key k \<and> colon_free k"
  "cached_append_idempotent (Some append_idem)" "\<lambda>st. used (fst st)" turn_hash
proof (unfold_locales, goal_cases)
  case (1 st) then show ?case using limit_ok by (simp add: cached_inv_def)
next
  case (2 st k) then show ?case using view_window by (simp add: cached_inv_def)
next
  case (3 st k c st' r) then show ?case using cached_load_cases by blast
next
  case (4 st k c st' t) then show ?case using cached_load_cases by blast
next
  case (5 st k c u a st' r) then show ?case using cached_append_cases by blast
next
  case (6 st k c u a st' x) then show ?case using cached_append_cases [of st k c u a st' "Inr x"] by simp
next
  case (7 st k c u a st' e) then show ?case using cached_append_cases [of st k c u a st' "Inl e"] by simp
next
  case (8 st k c v u a st' r) then show ?case using cached_append_if_cases by blast
next
  case (9 st k c v u a st') then show ?case using cached_append_if_cases [of st k c v u a st' "Inr True"] by simp
next
  case (10 st k c v u a st') then show ?case using cached_append_if_cases [of st k c v u a st' "Inr False"] by simp
next
  case (11 st k c v u a st' e) then show ?case using cached_append_if_cases [of st k c v u a st' "Inl e"] by simp
next
  case (12 st k c st' r) then show ?case using cached_load_cases by blast
next
  case (13 st k c u a st' r) then show ?case using cached_append_cases by blast
next
  case (14 st k c ik u a st' r) then show ?case using cached_idem_cases by blast
next
  case (15 st k c ik u a st') then show ?case using cached_idem_cases [of st k c ik u a st' "Inr True"] by simp
next
  case (16 st k c ik u a st') then show ?case using cached_idem_cases [of st k c ik u a st' "Inr False"] by simp
next
  case (17 st k c ik u a st' e) then show ?case using cached_idem_cases [of st k c ik u a st' "Inl e"] by simp
qed

end
