(* ===== verification/Samples.thy ===== *)
theory Samples
  imports SQL_Store_Laws Cached_Store
begin

text \<open>
  Concrete values for the witnesses: an encoding of messages and of snapshots that satisfies
  \<open>codec_ok\<close> and \<open>snap_ok\<close> (a field is closed by a zero byte; a message that the plain encoding
  cannot carry is refused), fault schedules, keys and opened stores.
\<close>

fun role_char :: "role \<Rightarrow> char" where
  "role_char User = CHR ''u''"
| "role_char Assistant = CHR ''a''"
| "role_char System = CHR ''s''"
| "role_char Tool = CHR ''t''"

definition char_role :: "char \<Rightarrow> role" where
  "char_role c = (if c = CHR ''u'' then User else if c = CHR ''a'' then Assistant
                  else if c = CHR ''s'' then System else Tool)"

lemma char_role_char [simp]: "char_role (role_char r) = r"
  by (cases r) (auto simp: char_role_def)

lemma role_char_not_0 [simp]: "role_char r \<noteq> CHR 0x00" "CHR 0x00 \<noteq> role_char r"
  by (cases r; simp)+

definition is_plain :: "message \<Rightarrow> bool" where
  "is_plain m \<longleftrightarrow> msg_multi_content m = None \<and> msg_user_multi m = None \<and> msg_assistant_multi m = None \<and>
     msg_tool_calls m = None \<and> (case msg_extra m of None \<Rightarrow> True | Some _ \<Rightarrow> False)"

lemma is_plain_iff: "is_plain m \<longleftrightarrow> m = plain_message (msg_role m) (msg_content m)"
  by (cases m) (auto simp: is_plain_def plain_message_def split: option.splits)

definition encode_plain :: "message \<Rightarrow> string result" where
  "encode_plain m =
     (if is_plain m \<and> CHR 0x00 \<notin> set (msg_content m) then Inr (role_char (msg_role m) # msg_content m)
      else Inl (ErrText ''not a plain message''))"

definition decode_plain :: "string \<Rightarrow> message result" where
  "decode_plain w = (case w of [] \<Rightarrow> Inl (ErrText ''empty'') | c # cs \<Rightarrow> Inr (plain_message (char_role c) cs))"

lemma decode_encode_plain: "encode_plain m = Inr w \<Longrightarrow> decode_plain w = Inr m"
  by (auto simp: encode_plain_def decode_plain_def is_plain_iff split: if_splits)

definition sample_codec :: codec where
  "sample_codec =
     \<lparr>cod_marshal = encode_plain, cod_jsonb = (\<lambda>raw. raw), cod_unmarshal = decode_plain,
      cod_hash = (\<lambda>u a. Inr (msg_content u @ CHR 0x00 # msg_content a))\<rparr>"

lemma sample_codec_ok [simp]: "codec_ok sample_codec"
proof -
  have "cod_unmarshal sample_codec (cod_jsonb sample_codec raw) = Inr m \<and> clone_message m = m"
    if "cod_marshal sample_codec m = Inr raw" for m raw
  proof -
    have "encode_plain m = Inr raw" using that by (simp add: sample_codec_def)
    moreover from this have "m = plain_message (msg_role m) (msg_content m)"
      by (auto simp: encode_plain_def is_plain_iff split: if_splits)
    then have "clone_message m = m" by (metis clone_message_plain)
    ultimately show ?thesis using decode_encode_plain by (simp add: sample_codec_def)
  qed
  then show ?thesis unfolding codec_ok_def by blast
qed

text \<open>Snapshots: the version in unary, then the messages, each field closed by a zero byte.\<close>

fun encode_all :: "msgptr list \<Rightarrow> string result" where
  "encode_all [] = Inr []"
| "encode_all (None # ms) = Inl (ErrText ''nil message'')"
| "encode_all (Some m # ms) =
     (case encode_plain m of
        Inl e \<Rightarrow> Inl e
      | Inr w \<Rightarrow> (case encode_all ms of Inl e \<Rightarrow> Inl e | Inr raw \<Rightarrow> Inr (w @ CHR 0x00 # raw)))"

fun decode_all :: "string list \<Rightarrow> msgptr list result" where
  "decode_all [] = Inr []"
| "decode_all (w # ws) =
     (case decode_plain w of
        Inl e \<Rightarrow> Inl e
      | Inr m \<Rightarrow> (case decode_all ws of Inl e \<Rightarrow> Inl e | Inr ms \<Rightarrow> Inr (Some m # ms)))"

definition sample_snapshots :: snapshot_codec where
  "sample_snapshots =
     \<lparr>snap_marshal = (\<lambda>t. case encode_all (fst t) of
         Inl e \<Rightarrow> Inl e
       | Inr raw \<Rightarrow> Inr (replicate (unat (snd t)) CHR 0x01 @ CHR 0x00 # raw)),
      snap_unmarshal = (\<lambda>raw. case decode_all (butlast (tl (split_char CHR 0x00 raw))) of
         Inl e \<Rightarrow> Inl e
       | Inr ms \<Rightarrow> Inr (ms, of_nat (length (hd (split_char CHR 0x00 raw)))))\<rparr>"

lemma split_char_append:
  "sep \<notin> set w \<Longrightarrow> split_char sep (w @ sep # rest) = w # split_char sep rest"
  by (induction w) auto

lemma encode_plain_no_0: "encode_plain m = Inr w \<Longrightarrow> CHR 0x00 \<notin> set w"
  by (auto simp: encode_plain_def split: if_splits)

lemma decode_encode_all:
  "encode_all ms = Inr raw \<Longrightarrow> decode_all (butlast (split_char CHR 0x00 raw)) = Inr ms"
proof (induction ms arbitrary: raw rule: encode_all.induct)
  case (3 m ms)
  then obtain w raw' where w: "encode_plain m = Inr w" "encode_all ms = Inr raw'" "raw = w @ CHR 0x00 # raw'"
    by (auto split: sum.splits)
  with "3.IH" show ?case
    by (simp add: split_char_append encode_plain_no_0 decode_encode_plain)
qed auto

lemma sample_snapshots_ok [simp]: "snap_ok sample_snapshots"
  unfolding snap_ok_def
proof (intro allI impI)
  fix t raw t'
  assume cl: "list_all cloned (fst t)" and m: "snap_marshal sample_snapshots t = Inr raw"
    and u: "snap_unmarshal sample_snapshots raw = Inr t'"
  obtain raw' where raw: "encode_all (fst t) = Inr raw'" "raw = replicate (unat (snd t)) CHR 0x01 @ CHR 0x00 # raw'"
    using m by (auto simp: sample_snapshots_def split: sum.splits)
  have "split_char CHR 0x00 raw = replicate (unat (snd t)) CHR 0x01 # split_char CHR 0x00 raw'"
    unfolding raw(2) by (rule split_char_append) (auto simp: set_replicate_conv_if)
  with u decode_encode_all [OF raw(1)] have "t' = t"
    by (auto simp: sample_snapshots_def prod_eq_iff)
  with cl show "(clone_messages (fst t'), snd t') = t"
    by (simp add: clone_messages_fixed)
qed

section \<open>Keys and opened stores\<close>

definition key_a :: session_key where
  "key_a = \<lparr>sk_tenant = ''acme'', sk_user = ''u1'', sk_conversation = ''c1''\<rparr>"

lemma key_a_ok [simp]: "validate_key key_a = None" "colon_free key_a"
  by (simp_all add: key_a_def validate_key_def colon_free_def)

definition no_faults :: "nat \<Rightarrow> sql_outcome" where
  "no_faults n = StmtOk"

text \<open>The acknowledgement of the first commit (the tenth call of a first idempotent turn) is lost.\<close>

definition lost_ack :: "nat \<Rightarrow> nat \<Rightarrow> sql_outcome" where
  "lost_ack i n = (if n = i then CommitLost (ErrExternal ''unexpected EOF'') else StmtOk)"

definition open_sql :: "(nat \<Rightarrow> sql_outcome) \<Rightarrow> sql_store" where
  "open_sql fault = \<lparr>ss_max = 4, ss_tables = empty_tables, ss_seq = 0, ss_clock = 0, ss_fault = fault\<rparr>"

lemma open_sql_new: "new_sql_store True 5 empty_tables 0 fault = Inr (open_sql fault)"
  by (simp add: new_sql_store_def open_sql_def)

lemma open_sql_inv [simp]: "sql_inv sample_codec (open_sql fault)"
  using sql_inv_new [OF sample_codec_ok open_sql_new] by blast

lemma open_sql_empty [simp]:
  "sql_view sample_codec (open_sql fault) k = ([], 0)" "sql_used (open_sql fault) k ik = None"
  using sql_inv_new [OF sample_codec_ok open_sql_new] by blast+

definition open_cache :: "(cache_call \<Rightarrow> nat \<Rightarrow> go_error option) \<Rightarrow> cache_state" where
  "open_cache fault = \<lparr>ca_data = Map.empty, ca_clock = 0, ca_fault = fault\<rparr>"

lemma open_cache_coherent [simp]: "coherent view sc s (open_cache fault)"
  by (simp add: coherent_def open_cache_def)

end
