(* ===== verification/Store_Properties.thy ===== *)
theory Store_Properties
  imports Memory_Store Samples
begin

text \<open>
  The properties of the conversation stores. The cached store over PostgreSQL is interpreted here,
  which gives it the whole contract; the properties are instances of the client lemmas of the store
  interface on the operations of the code. The last section states what the contract does not
  cover: a lost acknowledgement, a failed delete, a late cache write and keys with colons.
\<close>

interpretation sqlc: cache_layer "sql_load cod" "sql_append cod" "sql_append_if_version cod" "sql_view cod"
  "sql_inv cod" ss_max "sql_canon cod" "\<lambda>_. True" "sql_append_idempotent cod" sql_used "cod_hash cod"
  acks_reliable sc
  for cod sc
proof (unfold_locales, goal_cases)
  case (1 c k s s' r)
  then have "ss_fault s' = ss_fault s"
    by (auto simp: sql_load_def sql_tick_def split: option.splits prod.splits sql_outcome.splits sum.splits
        dest!: sql_call_fault)
  then show ?case by (rule acks_reliable_cong)
next
  case (2 c k u a s s' r)
  obtain r1 where core: "sql_append_with_key cod c k 0 u a False [] s = (s', r1)" "\<forall>e. r = Inl e \<longrightarrow> r1 = Inl e"
    using 2(1) by (auto simp: sql_append_def split: prod.splits sum.splits)
  from sql_append_exact [OF core(1)] core(2) 2(2) show ?case
    by (auto simp: acks_reliable_def sql_view_def)
next
  case (3 c k v u a s s' r)
  from sql_append_exact [OF 3(1) [unfolded sql_append_if_version_def]] 3(2) show ?case
    by (auto simp: acks_reliable_def sql_view_def)
next
  case (4 c k ik u a s s' r)
  then consider "s' = s" | "sql_append_with_key cod c k 0 u a False ik s = (s', r)"
    by (auto simp: sql_append_idempotent_def split: if_splits)
  then show ?case
  proof cases
    case 2
    from sql_append_exact [OF this] 4(2) show ?thesis
      by (auto simp: acks_reliable_def sql_view_def sql_used_def fun_eq_iff)
  qed (use 4 in simp)
qed

section \<open>PostgreSQL\<close>

text \<open>(C2) A turn sent any number of times with the same idempotency key is stored at most once,
  whatever statements fail and even when the acknowledgement of a commit is lost; as soon as one
  attempt reports no error it has been stored exactly once.\<close>

theorem sql_retry_exactly_once:
  assumes "sql_inv cod s" and "sql_used s k ik = None"
    and "resend (sql_append_idempotent cod) k ik u a cs s = (s', rs)"
  shows "(sql_view cod s' = sql_view cod s \<and> (\<forall>r \<in> set rs. \<exists>e. r = Inl e)) \<or>
    sql_view cod s' =
      (sql_view cod s)(k := spec_turn (ss_max s) (sql_canon cod u) (sql_canon cod a) (sql_view cod s k))"
  using sql.resend_once [OF assms(1) TrueI assms(2,3)] .

theorem sql_retry_exactly_once_witness:
  "snd (resend (sql_append_idempotent sample_codec) key_a ''k1'' (user_message ''q'') (assistant_message ''a'')
      [None, None] (open_sql (lost_ack 9))) = [Inl (ErrExternal ''unexpected EOF''), Inr False] \<and>
   sql_view sample_codec (fst (resend (sql_append_idempotent sample_codec) key_a ''k1'' (user_message ''q'')
      (assistant_message ''a'') [None, None] (open_sql (lost_ack 9)))) key_a =
     spec_turn 4 (sql_canon sample_codec (user_message ''q'')) (sql_canon sample_codec (assistant_message ''a'')) ([], 0)"
proof -
  let ?run = "resend (sql_append_idempotent sample_codec) key_a ''k1'' (user_message ''q'') (assistant_message ''a'')
      [None, None] (open_sql (lost_ack 9))"
  have rs: "snd ?run = [Inl (ErrExternal ''unexpected EOF''), Inr False]" by code_simp
  have max: "ss_max (open_sql (lost_ack 9)) = 4" by (simp add: open_sql_def)
  obtain s' rs' where run: "?run = (s', rs')" by fastforce
  from sql_retry_exactly_once [OF open_sql_inv open_sql_empty(2) run] rs max run
  show ?thesis by auto
qed

text \<open>(C3) An append is atomic under every schedule of database faults: success means the turn was
  stored, an error means it was stored completely or not at all, no other conversation is touched,
  and the store stays well formed.\<close>

theorem sql_append_atomic:
  assumes "sql_inv cod s" and "sql_append cod c k (Some u) (Some a) s = (s', r)"
  shows "sql_inv cod s' \<and>
    (let stored = (sql_view cod s' =
        (sql_view cod s)(k := spec_turn (ss_max s) (sql_canon cod u) (sql_canon cod a) (sql_view cod s k)))
     in (r = Inr () \<longrightarrow> stored) \<and> (stored \<or> sql_view cod s' = sql_view cod s))"
proof (cases r)
  case (Inl e)
  from sql.append_err [OF assms(1) TrueI assms(2) [unfolded Inl]] sql.append_keeps [OF assms(1) TrueI assms(2)] Inl
  show ?thesis by (auto simp: Let_def)
next
  case (Inr x)
  from sql.append_ok [OF assms(1) TrueI assms(2) [unfolded Inr]] sql.append_keeps [OF assms(1) TrueI assms(2)] Inr
  show ?thesis by (auto simp: Let_def)
qed

theorem sql_append_atomic_witness:
  "snd (sql_append sample_codec None key_a (Some (user_message ''q'')) (Some (assistant_message ''a''))
      (open_sql no_faults)) = Inr () \<and>
   sql_view sample_codec (fst (sql_append sample_codec None key_a (Some (user_message ''q''))
      (Some (assistant_message ''a'')) (open_sql no_faults))) key_a =
     spec_turn 4 (sql_canon sample_codec (user_message ''q'')) (sql_canon sample_codec (assistant_message ''a'')) ([], 0)"
proof -
  let ?run = "sql_append sample_codec None key_a (Some (user_message ''q'')) (Some (assistant_message ''a''))
      (open_sql no_faults)"
  have r: "snd ?run = Inr ()" by code_simp
  have max: "ss_max (open_sql no_faults) = 4" by (simp add: open_sql_def)
  obtain s' r' where run: "?run = (s', r')" by fastforce
  from sql_append_atomic [OF open_sql_inv run] r max run show ?thesis by (auto simp: Let_def)
qed

text \<open>A compare-and-append with a version that is not the stored one changes nothing and never
  reports a commit, so a turn built on a stale transcript cannot overwrite a newer one.\<close>

theorem sql_stale_version_rejected:
  assumes "sql_inv cod s" and "snd (sql_view cod s k) \<noteq> v"
    and "sql_append_if_version cod c k v u a s = (s', r)"
  shows "sql_view cod s' = sql_view cod s \<and> r \<noteq> Inr True"
  using sql.stale_append_if [OF assms(1) TrueI assms(2,3)] .

theorem sql_stale_version_rejected_witness:
  "snd (sql_view sample_codec (open_sql no_faults) key_a) \<noteq> 1 \<and>
   sql_view sample_codec (fst (sql_append_if_version sample_codec None key_a 1 (Some (user_message ''q''))
      (Some (assistant_message ''a'')) (open_sql no_faults))) = sql_view sample_codec (open_sql no_faults)"
proof -
  let ?run = "sql_append_if_version sample_codec None key_a 1 (Some (user_message ''q''))
      (Some (assistant_message ''a'')) (open_sql no_faults)"
  obtain s' r where run: "?run = (s', r)" by fastforce
  have v: "snd (sql_view sample_codec (open_sql no_faults) key_a) \<noteq> 1" by simp
  from sql_stale_version_rejected [OF open_sql_inv v run] v run show ?thesis by simp
qed

section \<open>Memory\<close>

text \<open>(C23) After any sequence of successful appends the memory store holds the last messages of the
  whole transcript, whole pairs and within the limit, in order, with the version advanced by the
  number of turns; no other conversation is touched.\<close>

theorem mem_appends_keep_last_turns:
  assumes "mem_inv s" and "ts \<noteq> []" and "append_turns mem_append k ts s = (s', Inr ())"
  shows "mem_view s' k =
      (keep_recent (ms_max s) (fst (mem_view s k) @ flat_turns clone_message ts),
       snd (mem_view s k) + of_nat (length ts)) \<and>
    (\<forall>k'. k' \<noteq> k \<longrightarrow> mem_view s' k' = mem_view s k') \<and> window_ok (ms_max s) (mem_view s' k)"
  using mem.append_turns_view [OF assms(1) TrueI assms(3,2)] mem.view_window [of s' k] by metis

definition three_turns :: "(ctx option \<times> message \<times> message) list" where
  "three_turns = [(None, user_message ''q1'', assistant_message ''a1''),
                  (None, user_message ''q2'', assistant_message ''a2''),
                  (None, user_message ''q3'', assistant_message ''a3'')]"

theorem mem_appends_keep_last_turns_witness:
  "fst (mem_view (fst (append_turns mem_append key_a three_turns (new_memory_store 5))) key_a) =
     [Some (user_message ''q2''), Some (assistant_message ''a2''),
      Some (user_message ''q3''), Some (assistant_message ''a3'')]"
proof -
  have r: "snd (append_turns mem_append key_a three_turns (new_memory_store 5)) = Inr ()" by code_simp
  have ne: "three_turns \<noteq> []" by (simp add: three_turns_def)
  have max: "ms_max (new_memory_store 5) = 4" by (simp add: new_memory_store_def)
  obtain s' r' where run: "append_turns mem_append key_a three_turns (new_memory_store 5) = (s', r')" by fastforce
  from mem_appends_keep_last_turns [OF mem_inv_new ne, of key_a 5 s'] r run
  have "fst (mem_view s' key_a) = keep_recent 4 (flat_turns clone_message three_turns)"
    by (simp add: max)
  with run show ?thesis
    by (simp add: three_turns_def flat_turns_def keep_recent_def pair_excess_def)
qed

text \<open>An idempotency key that was used for one turn is refused for a different turn: the memory
  store returns an error and keeps its transcripts and its record of keys.\<close>

theorem mem_reused_key_rejected:
  assumes "mem_inv s" and "mem_used s k ik = Some h" and "hash u a = Inr h'" and "h' \<noteq> h"
    and "mem_append_idempotent hash c k ik (Some u) (Some a) s = (s', r)"
  shows "mem_view s' = mem_view s \<and> mem_used s' = mem_used s \<and> (\<exists>e. r = Inl e)"
  using mem.reused_key_rejected [OF assms(1) TrueI assms(2-5)] .

definition used_once :: memory_store where
  "used_once = fst (mem_append_idempotent (cod_hash sample_codec) None key_a ''k1'' (Some (user_message ''q''))
      (Some (assistant_message ''a'')) (new_memory_store 6))"

theorem mem_reused_key_rejected_witness:
  "mem_used used_once key_a ''k1'' = Some (''q'' @ CHR 0x00 # ''a'') \<and>
   snd (mem_append_idempotent (cod_hash sample_codec) None key_a ''k1'' (Some (user_message ''other''))
      (Some (assistant_message ''a'')) used_once) = Inl ErrIdempotencyConflict \<and>
   mem_view (fst (mem_append_idempotent (cod_hash sample_codec) None key_a ''k1'' (Some (user_message ''other''))
      (Some (assistant_message ''a'')) used_once)) = mem_view used_once"
proof -
  have u: "mem_used used_once key_a ''k1'' = Some (''q'' @ CHR 0x00 # ''a'')" by code_simp
  have i: "mem_inv used_once"
    unfolding used_once_def
    by (rule mem.idem_keeps [OF mem_inv_new TrueI, THEN conjunct1]) (rule surjective_pairing)
  have h: "cod_hash sample_codec (user_message ''other'') (assistant_message ''a'') = Inr (''other'' @ CHR 0x00 # ''a'')"
    by (simp add: sample_codec_def)
  have r: "snd (mem_append_idempotent (cod_hash sample_codec) None key_a ''k1'' (Some (user_message ''other''))
      (Some (assistant_message ''a'')) used_once) = Inl ErrIdempotencyConflict" by code_simp
  obtain s' r' where run: "mem_append_idempotent (cod_hash sample_codec) None key_a ''k1''
      (Some (user_message ''other'')) (Some (assistant_message ''a'')) used_once = (s', r')" by fastforce
  have "''other'' @ CHR 0x00 # ''a'' \<noteq> ''q'' @ CHR 0x00 # ''a''" by simp
  from mem_reused_key_rejected [OF i u h this run] u r run show ?thesis by simp
qed

section \<open>The cached store\<close>


definition cache_down :: "cache_call \<Rightarrow> nat \<Rightarrow> go_error option" where
  "cache_down call n = (if call = CDel then None else Some (ErrExternal ''redis: connection refused''))"

definition cache_up :: "cache_call \<Rightarrow> nat \<Rightarrow> go_error option" where
  "cache_up call n = None"

lemma acks_reliable_no_faults [simp]: "acks_reliable (open_sql no_faults)"
  by (simp add: acks_reliable_def open_sql_def no_faults_def)


text \<open>Two sessions with the same storage key share one cache entry: once a load of the first has
  filled it, a load of the second returns the transcript of the first.\<close>

theorem storage_key_collision_leaks:
  assumes "validate_key victim = None" and "validate_key reader = None"
    and "storage_key reader = storage_key victim"
    and "\<forall>call n. ca_fault ca call n = None" and "ca_data ca (storage_key victim) = None"
    and "load c victim s = (s1, Inr t)" and "snap_marshal sc t = Inr raw" and "snap_unmarshal sc raw = Inr t"
  shows "snd (cached_load load sc c' reader (fst (cached_load load sc c victim (s, ca)))) =
    Inr (clone_messages (fst t), snd t)"
  using assms
  by (simp add: cached_load_def cached_fill_def redis_get_def client_get_def redis_set_def cache_tick_def
      redis_nil_def)

definition key_victim :: session_key where
  "key_victim = \<lparr>sk_tenant = ''acme'', sk_user = ''eve:x'', sk_conversation = ''c1''\<rparr>"

definition key_reader :: session_key where
  "key_reader = \<lparr>sk_tenant = ''acme'', sk_user = ''eve'', sk_conversation = ''x:c1''\<rparr>"

definition victim_store :: memory_store where
  "victim_store = fst (mem_append None key_victim (Some (user_message ''secret'')) (Some (assistant_message ''a''))
     (new_memory_store 6))"

theorem storage_key_collision_leaks_witness:
  "sk_user key_victim \<noteq> sk_user key_reader \<and> mem_view victim_store key_reader = ([], 0) \<and>
   snd (cached_load mem_load sample_snapshots None key_reader
     (fst (cached_load mem_load sample_snapshots None key_victim (victim_store, open_cache cache_up)))) =
   Inr ([Some (user_message ''secret''), Some (assistant_message ''a'')], 1)"
proof -
  let ?t = "([Some (user_message ''secret''), Some (assistant_message ''a'')], 1) :: transcript"
  obtain s1 r where l: "mem_load None key_victim victim_store = (s1, r)" by fastforce
  have "snd (mem_load None key_victim victim_store) = Inr ?t" by code_simp
  with l have load: "mem_load None key_victim victim_store = (s1, Inr ?t)" by simp
  have raw: "snap_marshal sample_snapshots ?t = Inr (CHR 0x01 # CHR 0x00 # ''usecret'' @ CHR 0x00 # ''aa'' @ [CHR 0x00])"
    by code_simp
  have unraw: "snap_unmarshal sample_snapshots (CHR 0x01 # CHR 0x00 # ''usecret'' @ CHR 0x00 # ''aa'' @ [CHR 0x00]) = Inr ?t"
    by code_simp
  have v: "validate_key key_victim = None" "validate_key key_reader = None"
    "storage_key key_reader = storage_key key_victim"
    by (simp_all add: key_victim_def key_reader_def validate_key_def storage_key_def)
  have ca: "\<forall>call n. ca_fault (open_cache cache_up) call n = None"
    "ca_data (open_cache cache_up) (storage_key key_victim) = None"
    by (simp_all add: open_cache_def cache_up_def)
  have e: "mem_view victim_store key_reader = ([], 0)" by code_simp
  from storage_key_collision_leaks [where load = mem_load, OF v ca load raw unraw, of None] e show ?thesis
    by (simp add: clone_messages_def key_victim_def key_reader_def)
qed

text \<open>The error of a cache delete is dropped: when the delete after a commit fails, the next load
  still returns the snapshot from before the commit.\<close>

theorem failed_delete_serves_stale:
  assumes "validate_key k = None" and "\<forall>n. ca_fault ca CDel n \<noteq> None" and "\<forall>n. ca_fault ca CGet n = None"
    and "ca_data ca (storage_key k) = Some raw" and "snap_unmarshal sc raw = Inr old"
    and "app c k u a s = (s1, Inr x)"
  shows "\<exists>st1. cached_append app c k u a (s, ca) = (st1, Inr ()) \<and> fst st1 = s1 \<and>
    snd (cached_load load sc c' k st1) = Inr (clone_messages (fst old), snd old)"
proof -
  obtain e where "ca_fault ca CDel (ca_clock ca) = Some e" using assms(2) by auto
  with assms show ?thesis
    by (simp add: cached_append_def invalidate_def redis_delete_def cached_load_def redis_get_def client_get_def
        cache_tick_def)
qed

definition no_deletes :: "cache_call \<Rightarrow> nat \<Rightarrow> go_error option" where
  "no_deletes call n = (if call = CDel then Some (ErrExternal ''i/o timeout'') else None)"

definition warm_cache :: cache_state where
  "warm_cache = (open_cache no_deletes)\<lparr>ca_data := [storage_key key_a \<mapsto> [CHR 0x00]]\<rparr>"

theorem failed_delete_serves_stale_witness:
  "\<exists>st1. cached_append mem_append None key_a (Some (user_message ''q'')) (Some (assistant_message ''a''))
        (new_memory_store 6, warm_cache) = (st1, Inr ()) \<and>
     mem_view (fst st1) key_a = ([Some (user_message ''q''), Some (assistant_message ''a'')], 1) \<and>
     snd (cached_load mem_load sample_snapshots None key_a st1) = Inr ([], 0)"
proof -
  let ?app = "mem_append None key_a (Some (user_message ''q'')) (Some (assistant_message ''a'')) (new_memory_store 6)"
  obtain s1 where run: "?app = (s1, Inr ())"
  proof -
    have "snd ?app = Inr ()" by code_simp
    then show ?thesis using that by (metis prod.collapse)
  qed
  have v: "mem_view (fst ?app) key_a = ([Some (user_message ''q''), Some (assistant_message ''a'')], 1)" by code_simp
  have ca: "\<forall>n. ca_fault warm_cache CDel n \<noteq> None" "\<forall>n. ca_fault warm_cache CGet n = None"
    "ca_data warm_cache (storage_key key_a) = Some [CHR 0x00]"
    by (simp_all add: warm_cache_def open_cache_def no_deletes_def)
  have raw: "snap_unmarshal sample_snapshots [CHR 0x00] = Inr ([], 0)" by code_simp
  from failed_delete_serves_stale [where app = mem_append and load = mem_load, OF key_a_ok(1) ca raw run, of None] v run show ?thesis
    by (auto simp: clone_messages_def)
qed

text \<open>A lost commit acknowledgement makes a filled cache stale for good: an idempotent append that
  stored its turn but reports an error does not invalidate, its retry finds the key already used,
  reports success and does not invalidate either, and the next load still returns the old snapshot.\<close>

theorem lost_ack_retry_leaves_stale_cache:
  assumes "validate_key k = None" and "\<forall>n. ca_fault ca CGet n = None"
    and "ca_data ca (storage_key k) = Some raw" and "snap_unmarshal sc raw = Inr old"
    and "send c1 k ik u a s = (s1, Inl e)" and "send c2 k ik u a s1 = (s2, Inr False)"
  shows "\<exists>st1 st2. cached_append_idempotent (Some send) c1 k ik u a (s, ca) = (st1, Inl e) \<and>
    cached_append_idempotent (Some send) c2 k ik u a st1 = (st2, Inr False) \<and> fst st2 = s2 \<and>
    snd (cached_load load sc c k st2) = Inr (clone_messages (fst old), snd old)"
  using assms
  by (simp add: cached_append_idempotent_def cached_load_def redis_get_def client_get_def)

definition filled_cache :: cache_state where
  "filled_cache = (open_cache cache_up)\<lparr>ca_data := [storage_key key_a \<mapsto> [CHR 0x00]]\<rparr>"

theorem lost_ack_retry_leaves_stale_cache_witness:
  "\<exists>st1 st2. cached_append_idempotent (Some (sql_append_idempotent sample_codec)) None key_a ''k1''
        (Some (user_message ''q'')) (Some (assistant_message ''a'')) (open_sql (lost_ack 9), filled_cache) =
        (st1, Inl (ErrExternal ''unexpected EOF'')) \<and>
     cached_append_idempotent (Some (sql_append_idempotent sample_codec)) None key_a ''k1''
        (Some (user_message ''q'')) (Some (assistant_message ''a'')) st1 = (st2, Inr False) \<and>
     length (fst (sql_view sample_codec (fst st2) key_a)) = 2 \<and>
     snd (cached_load (sql_load sample_codec) sample_snapshots None key_a st2) = Inr ([], 0)"
proof -
  let ?send = "\<lambda>s. sql_append_idempotent sample_codec None key_a ''k1'' (Some (user_message ''q''))
      (Some (assistant_message ''a'')) s"
  obtain s1 r1 where one: "?send (open_sql (lost_ack 9)) = (s1, r1)" by fastforce
  obtain s2 r2 where two: "?send s1 = (s2, r2)" by fastforce
  have "snd (?send (open_sql (lost_ack 9))) = Inl (ErrExternal ''unexpected EOF'')" by code_simp
  with one have r1: "r1 = Inl (ErrExternal ''unexpected EOF'')" by simp
  have "snd (?send (fst (?send (open_sql (lost_ack 9))))) = Inr False" by code_simp
  with one two have r2: "r2 = Inr False" by simp
  have "length (fst (sql_view sample_codec (fst (?send (fst (?send (open_sql (lost_ack 9)))))) key_a)) = 2" by code_simp
  with one two have len: "length (fst (sql_view sample_codec s2 key_a)) = 2" by simp
  have ca: "\<forall>n. ca_fault filled_cache CGet n = None"
    "ca_data filled_cache (storage_key key_a) = Some [CHR 0x00]"
    by (simp_all add: filled_cache_def open_cache_def cache_up_def)
  have raw: "snap_unmarshal sample_snapshots [CHR 0x00] = Inr ([], 0)" by code_simp
  from lost_ack_retry_leaves_stale_cache [where send = "sql_append_idempotent sample_codec" and
      load = "sql_load sample_codec", OF key_a_ok(1) ca raw one [unfolded r1] two [unfolded r2], of None] len
  show ?thesis by (auto simp: clone_messages_def)
qed

text \<open>A load and an append that interleave: the load has read the primary, the append commits and
  deletes the cache entry, and only then the load writes its snapshot.\<close>

definition late_fill :: "(memory_store \<times> cache_state) \<times> transcript result" where
  "late_fill =
     (let ca0 = open_cache cache_up;
          (s1, r1) = mem_load None key_a (new_memory_store 6);
          ((s2, ca2), r2) = cached_append mem_append None key_a (Some (user_message ''q''))
             (Some (assistant_message ''a'')) (s1, ca0);
          ca3 = (case r1 of
             Inl e \<Rightarrow> ca2
           | Inr t \<Rightarrow> (case snap_marshal sample_snapshots t of
                Inl e \<Rightarrow> ca2 | Inr raw \<Rightarrow> fst (redis_set (storage_key key_a) raw ca2)))
      in cached_load mem_load sample_snapshots None key_a (s2, ca3))"

text \<open>The cache-aside load is not atomic: when an append commits between its read of the primary
  and its cache write, the stale snapshot stays in the cache and later loads return it.\<close>

theorem late_fill_serves_stale:
  "snd late_fill = Inr ([], 0) \<and>
   mem_view (fst (fst late_fill)) key_a = ([Some (user_message ''q''), Some (assistant_message ''a'')], 1)"
  by (intro conjI; code_simp)

text \<open>Storage keys and lock keys separate all sessions whose tenant and user IDs hold no colon.\<close>

theorem storage_keys_separate_sessions:
  assumes "colon_free k" and "colon_free k'"
  shows "(storage_key k = storage_key k' \<longleftrightarrow> k = k') \<and> (redis_lock_key k = redis_lock_key k' \<longleftrightarrow> k = k')"
  using storage_key_inj_colon_free [OF assms] by (auto simp: redis_lock_key_def)

theorem storage_keys_separate_sessions_witness:
  "storage_key key_a \<noteq> storage_key (key_a\<lparr>sk_conversation := ''c1:x''\<rparr>)"
proof -
  have "colon_free (key_a\<lparr>sk_conversation := ''c1:x''\<rparr>)" by (simp add: colon_free_def key_a_def)
  from storage_keys_separate_sessions [OF key_a_ok(2) this] show ?thesis by (simp add: key_a_def)
qed

end
