(* ===== verification/Run_Limiter.thy ===== *)
theory Run_Limiter
  imports Session_Types
begin

text \<open>
  \<open>RunLimiter\<close> (internal/conversation/run_limiter.go) and \<open>Coordinator\<close>
  (internal/conversation/store.go): channels of tokens that bound the turns of a process and
  serialise the turns of a session. A channel is the number of tokens in it. A \<open>select\<close> takes any of
  its ready cases, so it is the list of its possible results, empty when it blocks. The goroutines
  that use the objects are step relations, one step per \<open>select\<close>, in any order of interleaving.
\<close>

section \<open>The run limiter\<close>

record run_limiter =
  rl_cap :: nat
  rl_tokens :: nat
  rl_closed :: bool

definition new_run_limiter :: "int \<Rightarrow> run_limiter" where
  "new_run_limiter max_runs =
     (let m = (if max_runs \<le> 0 then 100 else max_runs)
      in \<lparr>rl_cap = nat m, rl_tokens = 0, rl_closed = False\<rparr>)"

text \<open>The first \<open>select\<close> of \<open>Acquire\<close>.\<close>

definition limiter_check :: "run_limiter \<Rightarrow> go_error option" where
  "limiter_check l = (if rl_closed l then Some ErrRunLimiterClosed else None)"

text \<open>The ready cases of the second one.\<close>

definition limiter_select :: "ctx \<Rightarrow> run_limiter \<Rightarrow> (run_limiter \<times> unit result) list" where
  "limiter_select c l =
     (if rl_closed l then [(l, Inl ErrRunLimiterClosed)] else []) @
     (case ctx_err c of None \<Rightarrow> [] | Some e \<Rightarrow> [(l, Inl e)]) @
     (if rl_tokens l < rl_cap l then [(l\<lparr>rl_tokens := rl_tokens l + 1\<rparr>, Inr ())] else [])"

text \<open>\<open>Acquire\<close> without another goroutine between its two selects; a nil limiter lets everything run.\<close>

definition limiter_acquire :: "ctx option \<Rightarrow> run_limiter option \<Rightarrow> (run_limiter option \<times> unit result) list" where
  "limiter_acquire c limiter =
     (case limiter of
        None \<Rightarrow> [(None, Inr ())]
      | Some l \<Rightarrow>
          (case limiter_check l of
             Some e \<Rightarrow> [(Some l, Inl e)]
           | None \<Rightarrow>
               map (\<lambda>(l', r). (Some l', r))
                 (limiter_select (case c of None \<Rightarrow> background | Some c' \<Rightarrow> c') l)))"

definition limiter_release :: "run_limiter \<Rightarrow> run_limiter" where
  "limiter_release l = (if 0 < rl_tokens l then l\<lparr>rl_tokens := rl_tokens l - 1\<rparr> else l)"

definition limiter_close :: "run_limiter \<Rightarrow> run_limiter" where
  "limiter_close l = (if rl_closed l then l else l\<lparr>rl_closed := True\<rparr>)"

lemma limiter_acquire_results:
  assumes "(Some l', r) \<in> set (limiter_acquire c (Some l))"
  shows "rl_cap l' = rl_cap l \<and> rl_closed l' = rl_closed l \<and>
    (case r of Inr _ \<Rightarrow> \<not> rl_closed l \<and> rl_tokens l < rl_cap l \<and> rl_tokens l' = rl_tokens l + 1
     | Inl _ \<Rightarrow> l' = l)"
  using assms
  by (auto simp: limiter_acquire_def limiter_check_def limiter_select_def split: if_splits option.splits)

lemma limiter_close_idem [simp]: "limiter_close (limiter_close l) = limiter_close l"
  by (simp add: limiter_close_def)

lemma limiter_blocks_iff:
  "limiter_acquire c (Some l) = [] \<longleftrightarrow> \<not> rl_closed l \<and> context_err c = None \<and> rl_cap l \<le> rl_tokens l"
  by (auto simp: limiter_acquire_def limiter_check_def limiter_select_def background_def split: option.splits)

text \<open>
  The turns of a process: a turn asks (first select), then selects, runs, and leaves once. \<open>Asked\<close>
  holds the context it selects with.
\<close>

datatype turn_phase = Asked ctx | Running

record limiter_sys =
  ls_lim :: run_limiter
  ls_phase :: "nat \<rightharpoonup> turn_phase"

definition limiter_start :: "int \<Rightarrow> limiter_sys" where
  "limiter_start n = \<lparr>ls_lim = new_run_limiter n, ls_phase = Map.empty\<rparr>"

inductive limiter_step :: "limiter_sys \<Rightarrow> limiter_sys \<Rightarrow> bool" where
  Ask: "ls_phase s p = None \<Longrightarrow> limiter_check (ls_lim s) = None \<Longrightarrow>
    limiter_step s (s\<lparr>ls_phase := (ls_phase s)(p \<mapsto> Asked c)\<rparr>)"
| Admit: "ls_phase s p = Some (Asked c) \<Longrightarrow> (l, Inr ()) \<in> set (limiter_select c (ls_lim s)) \<Longrightarrow>
    limiter_step s (s\<lparr>ls_lim := l, ls_phase := (ls_phase s)(p \<mapsto> Running)\<rparr>)"
| Refuse: "ls_phase s p = Some (Asked c) \<Longrightarrow> (l, Inl e) \<in> set (limiter_select c (ls_lim s)) \<Longrightarrow>
    limiter_step s (s\<lparr>ls_lim := l, ls_phase := (ls_phase s)(p := None)\<rparr>)"
| Expire: "ls_phase s p = Some (Asked c) \<Longrightarrow>
    limiter_step s (s\<lparr>ls_phase := (ls_phase s)(p \<mapsto> Asked (c\<lparr>ctx_err := Some e\<rparr>))\<rparr>)"
| Leave: "ls_phase s p = Some Running \<Longrightarrow>
    limiter_step s (s\<lparr>ls_lim := limiter_release (ls_lim s), ls_phase := (ls_phase s)(p := None)\<rparr>)"
| Shut: "limiter_step s (s\<lparr>ls_lim := limiter_close (ls_lim s)\<rparr>)"

definition limiter_running :: "limiter_sys \<Rightarrow> nat set" where
  "limiter_running s = {p. ls_phase s p = Some Running}"

definition limiter_inv :: "nat \<Rightarrow> limiter_sys \<Rightarrow> bool" where
  "limiter_inv cap s \<longleftrightarrow> rl_cap (ls_lim s) = cap \<and> rl_tokens (ls_lim s) \<le> cap \<and>
     finite (limiter_running s) \<and> card (limiter_running s) = rl_tokens (ls_lim s)"

lemma running_upd [simp]:
  "limiter_running (s\<lparr>ls_lim := l\<rparr>) = limiter_running s"
  "limiter_running (s\<lparr>ls_phase := (ls_phase s)(p \<mapsto> Running)\<rparr>) = insert p (limiter_running s)"
  "limiter_running (s\<lparr>ls_phase := (ls_phase s)(p := None)\<rparr>) = limiter_running s - {p}"
  "limiter_running (s\<lparr>ls_phase := (ls_phase s)(p \<mapsto> Asked c)\<rparr>) = limiter_running s - {p}"
  by (auto simp: limiter_running_def)

lemma running_upd2 [simp]:
  "limiter_running (s\<lparr>ls_lim := l, ls_phase := (ls_phase s)(p \<mapsto> Running)\<rparr>) = insert p (limiter_running s)"
  "limiter_running (s\<lparr>ls_lim := l, ls_phase := (ls_phase s)(p := None)\<rparr>) = limiter_running s - {p}"
  by (auto simp: limiter_running_def)

lemma running_iff [simp]: "p \<in> limiter_running s \<longleftrightarrow> ls_phase s p = Some Running"
  by (simp add: limiter_running_def)

lemma limiter_inv_start: "limiter_inv (rl_cap (new_run_limiter n)) (limiter_start n)"
  by (auto simp: limiter_inv_def limiter_start_def limiter_running_def new_run_limiter_def Let_def)

lemma limiter_inv_step:
  assumes "limiter_step s s'" and "limiter_inv cap s"
  shows "limiter_inv cap s'"
  using assms
proof (induction rule: limiter_step.induct)
  case (Leave s p)
  then have "p \<in> limiter_running s" by simp
  with Leave have "card (limiter_running s) > 0" unfolding limiter_inv_def card_gt_0_iff by blast
  with Leave show ?case by (auto simp: limiter_inv_def limiter_release_def)
qed (auto simp: limiter_inv_def limiter_select_def limiter_close_def split: if_splits option.splits)

lemma limiter_inv_reachable:
  "limiter_step\<^sup>*\<^sup>* s s' \<Longrightarrow> limiter_inv cap s \<Longrightarrow> limiter_inv cap s'"
  by (induction rule: rtranclp_induct) (auto intro: limiter_inv_step)

section \<open>The coordinator\<close>

text \<open>A session's lock holds its token or not; \<open>LoadOrStore\<close> creates it with the token.\<close>

type_synonym coordinator = "session_key \<rightharpoonup> bool"

definition coord_lock :: "session_key \<Rightarrow> coordinator \<Rightarrow> coordinator" where
  "coord_lock k co = (case co k of Some _ \<Rightarrow> co | None \<Rightarrow> co(k \<mapsto> True))"

text \<open>The checks of \<open>Run\<close> before its select.\<close>

definition coord_enter :: "ctx option \<Rightarrow> session_key \<Rightarrow> bool \<Rightarrow> (coordinator, unit) op" where
  "coord_enter c k callback_given co =
     (case context_err c of Some e \<Rightarrow> (co, Inl e) | None \<Rightarrow>
      case validate_key k of Some e \<Rightarrow> (co, Inl e) | None \<Rightarrow>
      if \<not> callback_given then (co, Inl (ErrText ''conversation callback is required''))
      else (coord_lock k co, Inr ()))"

text \<open>The select of \<open>Run\<close>; \<open>None\<close> is the panic of \<open>ctx.Done()\<close> on a nil context.\<close>

definition coord_select :: "ctx option \<Rightarrow> session_key \<Rightarrow> coordinator \<Rightarrow> (coordinator \<times> unit result) list option" where
  "coord_select c k co =
     (case c of
        None \<Rightarrow> None
      | Some c' \<Rightarrow> Some (
          (case ctx_err c' of None \<Rightarrow> [] | Some e \<Rightarrow> [(co, Inl e)]) @
          (if co k = Some True then [(co(k \<mapsto> False), Inr ())] else [])))"

text \<open>The deferred send; it blocks when the token is already there, which the invariant excludes.\<close>

definition coord_leave :: "session_key \<Rightarrow> coordinator \<Rightarrow> coordinator option" where
  "coord_leave k co = (if co k = Some False then Some (co(k \<mapsto> True)) else None)"

datatype coord_phase = Waiting session_key ctx | InCallback session_key

record coord_sys =
  cs_co :: coordinator
  cs_phase :: "nat \<rightharpoonup> coord_phase"

definition coord_start :: coord_sys where
  "coord_start = \<lparr>cs_co = Map.empty, cs_phase = Map.empty\<rparr>"

inductive coord_step :: "coord_sys \<Rightarrow> coord_sys \<Rightarrow> bool" where
  Enter: "cs_phase s p = None \<Longrightarrow> coord_enter (Some c) k True (cs_co s) = (co, Inr ()) \<Longrightarrow>
    coord_step s (s\<lparr>cs_co := co, cs_phase := (cs_phase s)(p \<mapsto> Waiting k c)\<rparr>)"
| Take: "cs_phase s p = Some (Waiting k c) \<Longrightarrow> coord_select (Some c) k (cs_co s) = Some rs \<Longrightarrow>
    (co, Inr ()) \<in> set rs \<Longrightarrow>
    coord_step s (s\<lparr>cs_co := co, cs_phase := (cs_phase s)(p \<mapsto> InCallback k)\<rparr>)"
| Abandon: "cs_phase s p = Some (Waiting k c) \<Longrightarrow> coord_select (Some c) k (cs_co s) = Some rs \<Longrightarrow>
    (co, Inl e) \<in> set rs \<Longrightarrow>
    coord_step s (s\<lparr>cs_co := co, cs_phase := (cs_phase s)(p := None)\<rparr>)"
| Cancelled: "cs_phase s p = Some (Waiting k c) \<Longrightarrow>
    coord_step s (s\<lparr>cs_phase := (cs_phase s)(p \<mapsto> Waiting k (c\<lparr>ctx_err := Some e\<rparr>))\<rparr>)"
| Return: "cs_phase s p = Some (InCallback k) \<Longrightarrow> coord_leave k (cs_co s) = Some co \<Longrightarrow>
    coord_step s (s\<lparr>cs_co := co, cs_phase := (cs_phase s)(p := None)\<rparr>)"

definition coord_inv :: "coord_sys \<Rightarrow> bool" where
  "coord_inv s \<longleftrightarrow>
     (\<forall>k. cs_co s k = Some False \<longleftrightarrow> (\<exists>p. cs_phase s p = Some (InCallback k))) \<and>
     (\<forall>k p q. cs_phase s p = Some (InCallback k) \<longrightarrow> cs_phase s q = Some (InCallback k) \<longrightarrow> p = q) \<and>
     (\<forall>k p c. cs_phase s p = Some (Waiting k c) \<longrightarrow> cs_co s k \<noteq> None)"

lemma coord_inv_start: "coord_inv coord_start"
  by (simp add: coord_inv_def coord_start_def)

lemma coord_select_take:
  "coord_select (Some c) k co = Some rs \<Longrightarrow> (co', Inr ()) \<in> set rs \<Longrightarrow> co k = Some True \<and> co' = co(k \<mapsto> False)"
  by (auto simp: coord_select_def split: if_splits option.splits)

lemma coord_select_err:
  "coord_select (Some c) k co = Some rs \<Longrightarrow> (co', Inl e) \<in> set rs \<Longrightarrow> co' = co"
  by (auto simp: coord_select_def split: if_splits option.splits)

lemma coord_enter_ok:
  "coord_enter c k b co = (co', Inr ()) \<Longrightarrow> co' = coord_lock k co \<and> validate_key k = None"
  by (auto simp: coord_enter_def split: option.splits if_splits)

lemma coord_inv_step:
  assumes "coord_step s s'" and "coord_inv s"
  shows "coord_inv s'"
  using assms
proof (induction rule: coord_step.induct)
  case (Enter s p c k co)
  then have co: "co = coord_lock k (cs_co s)" by (simp add: coord_enter_ok)
  have "co k' = Some False \<longleftrightarrow> cs_co s k' = Some False" "co k \<noteq> None" "cs_co s k' \<noteq> None \<Longrightarrow> co k' \<noteq> None" for k'
    by (auto simp: co coord_lock_def split: option.splits)
  with Enter show ?case by (simp add: coord_inv_def) (metis coord_phase.distinct(1) option.distinct(1))
next
  case (Take s p k c rs co)
  then have "cs_co s k = Some True" "co = (cs_co s)(k \<mapsto> False)" by (auto dest: coord_select_take)
  moreover from this have "\<forall>q. cs_phase s q \<noteq> Some (InCallback k)" using Take(4)
    unfolding coord_inv_def by (metis (full_types) option.inject)
  ultimately show ?case using Take(1,4)
    by (auto simp: coord_inv_def) (metis coord_phase.distinct(1) option.inject, blast)
next
  case (Abandon s p k c rs co e)
  then have "co = cs_co s" by (auto dest: coord_select_err)
  with Abandon show ?case by (simp add: coord_inv_def) (metis coord_phase.distinct(1) option.inject)
next
  case (Cancelled s p k c e)
  then show ?case by (simp add: coord_inv_def) (metis coord_phase.distinct(1) option.inject)
next
  case (Return s p k co)
  then have "cs_co s k = Some False" "co = (cs_co s)(k \<mapsto> True)"
    by (auto simp: coord_leave_def split: if_splits)
  moreover have "\<forall>q. cs_phase s q = Some (InCallback k) \<longrightarrow> q = p"
    using Return(1,3) unfolding coord_inv_def by blast
  ultimately show ?case using Return(1,3)
    by (auto simp: coord_inv_def) (metis coord_phase.inject(2) option.inject, blast)
qed

lemma coord_inv_reachable: "coord_step\<^sup>*\<^sup>* s s' \<Longrightarrow> coord_inv s \<Longrightarrow> coord_inv s'"
  by (induction rule: rtranclp_induct) (auto intro: coord_inv_step)

section \<open>Properties\<close>

text \<open>(C11) However the turns of a process interleave, with contexts that end and the limiter closed at
  any moment, at most the configured number of them runs, and every token belongs to a running turn.\<close>

theorem limiter_bounds_running:
  assumes "limiter_step\<^sup>*\<^sup>* (limiter_start n) s"
  shows "card (limiter_running s) \<le> nat (if n \<le> 0 then 100 else n) \<and>
    card (limiter_running s) = rl_tokens (ls_lim s)"
  using limiter_inv_reachable [OF assms limiter_inv_start]
  by (auto simp: limiter_inv_def new_run_limiter_def Let_def split: if_splits)

theorem limiter_bounds_running_witness:
  "\<exists>s. limiter_step\<^sup>*\<^sup>* (limiter_start 1) s \<and> limiter_running s = {7} \<and>
     card (limiter_running s) = rl_tokens (ls_lim s) \<and> limiter_acquire None (Some (ls_lim s)) = []"
proof -
  define s1 where "s1 = (limiter_start 1)\<lparr>ls_phase := [7 \<mapsto> Asked background]\<rparr>"
  define l where "l = (new_run_limiter 1)\<lparr>rl_tokens := 1\<rparr>"
  define s2 where "s2 = s1\<lparr>ls_lim := l, ls_phase := [7 \<mapsto> Running]\<rparr>"
  have "limiter_step (limiter_start 1) s1"
    using Ask [of "limiter_start 1" 7 background]
    by (simp add: s1_def limiter_start_def limiter_check_def new_run_limiter_def)
  moreover have "limiter_step s1 s2"
    using Admit [of s1 7 background l]
    by (simp add: s1_def s2_def l_def limiter_start_def limiter_select_def new_run_limiter_def)
  ultimately have reach: "limiter_step\<^sup>*\<^sup>* (limiter_start 1) s2" by auto
  moreover have "limiter_running s2 = {7}" by (auto simp: limiter_running_def s2_def split: if_splits)
  moreover have "limiter_acquire None (Some (ls_lim s2)) = []"
    by (simp add: limiter_blocks_iff s2_def l_def new_run_limiter_def)
  ultimately show ?thesis using limiter_bounds_running [OF reach] by blast
qed

text \<open>After \<open>Close\<close> every new \<open>Acquire\<close> fails with the closed error, even when tokens are free and
  the context has ended, and it takes no token.\<close>

theorem limiter_closed_refuses:
  "limiter_acquire c (Some (limiter_close l)) = [(Some (limiter_close l), Inl ErrRunLimiterClosed)]"
  by (simp add: limiter_acquire_def limiter_check_def limiter_close_def)

text \<open>(C12) At most one callback of a session is inside \<open>Run\<close> at any time, and a waiting caller whose
  session has no callback inside can take the token: the coordinator never loses it.\<close>

theorem coordinator_mutual_exclusion:
  assumes "coord_step\<^sup>*\<^sup>* coord_start s"
  shows "(\<forall>k p q. cs_phase s p = Some (InCallback k) \<longrightarrow> cs_phase s q = Some (InCallback k) \<longrightarrow> p = q) \<and>
    (\<forall>k p c. cs_phase s p = Some (Waiting k c) \<longrightarrow> (\<forall>q. cs_phase s q \<noteq> Some (InCallback k)) \<longrightarrow>
       (\<exists>s'. coord_step s s' \<and> cs_phase s' p = Some (InCallback k)))"
proof -
  have i: "coord_inv s" using coord_inv_reachable [OF assms coord_inv_start] .
  have "\<exists>s'. coord_step s s' \<and> cs_phase s' p = Some (InCallback k)"
    if w: "cs_phase s p = Some (Waiting k c)" and free: "\<forall>q. cs_phase s q \<noteq> Some (InCallback k)" for k p c
  proof -
    have "cs_co s k = Some True" using i w free by (auto simp: coord_inv_def) (metis (full_types))
    then have "coord_select (Some c) k (cs_co s) =
        Some ((case ctx_err c of None \<Rightarrow> [] | Some e \<Rightarrow> [(cs_co s, Inl e)]) @ [((cs_co s)(k \<mapsto> False), Inr ())])"
      by (simp add: coord_select_def)
    from Take [OF w this, of "(cs_co s)(k \<mapsto> False)"] show ?thesis by fastforce
  qed
  with i show ?thesis by (auto simp: coord_inv_def)
qed

theorem coordinator_mutual_exclusion_witness:
  "\<exists>s k. coord_step\<^sup>*\<^sup>* coord_start s \<and> cs_phase s 0 = Some (Waiting k background) \<and>
     (\<exists>s'. coord_step s s' \<and> cs_phase s' 0 = Some (InCallback k))"
proof -
  define k where "k = \<lparr>sk_tenant = ''t'', sk_user = ''u'', sk_conversation = ''c''\<rparr>"
  define s where "s = \<lparr>cs_co = [k \<mapsto> True], cs_phase = [0 \<mapsto> Waiting k background]\<rparr>"
  have "coord_step coord_start s"
    using Enter [of coord_start 0 background k "[k \<mapsto> True]"]
    by (simp add: coord_start_def s_def coord_enter_def coord_lock_def background_def validate_key_def k_def)
  then have r: "coord_step\<^sup>*\<^sup>* coord_start s" by auto
  have "cs_phase s 0 = Some (Waiting k background)" "\<forall>q. cs_phase s q \<noteq> Some (InCallback k)"
    by (auto simp: s_def)
  with coordinator_mutual_exclusion [OF r] r show ?thesis by blast
qed

text \<open>\<open>Run\<close> with a nil context passes its own checks, which accept nil, and then panics at
  \<open>ctx.Done()\<close> before the callback runs.\<close>

theorem coordinator_nil_context_panics:
  assumes "validate_key k = None"
  shows "coord_enter None k True co = (coord_lock k co, Inr ()) \<and> coord_select None k (coord_lock k co) = None"
  using assms by (simp add: coord_enter_def coord_select_def)

theorem coordinator_nil_context_panics_witness:
  "coord_select None \<lparr>sk_tenant = ''t'', sk_user = ''u'', sk_conversation = ''c''\<rparr>
     (coord_lock \<lparr>sk_tenant = ''t'', sk_user = ''u'', sk_conversation = ''c''\<rparr> Map.empty) = None"
  using coordinator_nil_context_panics
    [of "\<lparr>sk_tenant = ''t'', sk_user = ''u'', sk_conversation = ''c''\<rparr>" Map.empty]
  by (simp add: validate_key_def)

end
