(* ===== verification/Redis_Lock.thy ===== *)
theory Redis_Lock
  imports Session_Types
begin

text \<open>
  The distributed lock of internal/conversation/lock.go. The server's state is what the code reads
  and writes of it: string keys with a value and a deadline, and the time (nanoseconds). The two Lua
  scripts of the source are the definitions \<open>renew_script\<close> and \<open>unlock_script\<close>; a script runs
  atomically. A call may fail before it reaches the server or lose its reply after it took effect.

  \<open>Lock\<close> polls; what other clients do while it waits, and whether its context ends, are given by a
  list of attempts. The locale \<open>exclusive_lease\<close> is the contract of \<open>ConversationLease\<close> that a caller
  relies on: a lease excludes the contending ones and survives whatever the other clients do.
\<close>

section \<open>The server\<close>

record lock_world =
  lw_time :: int
  lw_keys :: "string \<rightharpoonup> string \<times> int"

datatype reply = Delivered | Unsent go_error | ReplyLost go_error

definition with_reply :: "reply \<Rightarrow> (lock_world, 'a) op \<Rightarrow> (lock_world, 'a) op" where
  "with_reply r f w =
     (case r of
        Delivered \<Rightarrow> f w
      | Unsent e \<Rightarrow> (w, Inl e)
      | ReplyLost e \<Rightarrow> (fst (f w), Inl e))"

definition live_value :: "lock_world \<Rightarrow> string \<Rightarrow> string option" where
  "live_value w key =
     (case lw_keys w key of None \<Rightarrow> None | Some (v, deadline) \<Rightarrow> if lw_time w < deadline then Some v else None)"

text \<open>\<open>SET key token NX\<close> with an expiry.\<close>

definition set_nx :: "string \<Rightarrow> string \<Rightarrow> int \<Rightarrow> (lock_world, bool) op" where
  "set_nx key token ttl w =
     (if live_value w key = None
      then (w\<lparr>lw_keys := (lw_keys w)(key \<mapsto> (token, lw_time w + ttl))\<rparr>, Inr True)
      else (w, Inr False))"

definition renew_script :: "string \<Rightarrow> string \<Rightarrow> int \<Rightarrow> (lock_world, int) op" where
  "renew_script key token ms w =
     (if live_value w key = Some token
      then (w\<lparr>lw_keys := (lw_keys w)(key \<mapsto> (token, lw_time w + ms * 1000000))\<rparr>, Inr 1)
      else (w, Inr 0))"

definition unlock_script :: "string \<Rightarrow> string \<Rightarrow> (lock_world, int) op" where
  "unlock_script key token w =
     (if live_value w key = Some token
      then (w\<lparr>lw_keys := (lw_keys w)(key := None)\<rparr>, Inr 1)
      else (w, Inr 0))"

section \<open>The locker and its leases\<close>

record locker =
  lk_ttl :: int
  lk_interval :: int

record lease =
  le_key :: string
  le_token :: string
  le_ttl :: int
  le_interval :: int

abbreviation second :: int where
  "second \<equiv> 1000000000"

definition new_redis_locker :: "bool \<Rightarrow> int \<Rightarrow> locker result" where
  "new_redis_locker client_given ttl =
     (if \<not> client_given then Inl ErrRedisClient
      else
        let t = (if ttl \<le> 0 then 30 * second else ttl);
            i = t div 3;
            interval = (if i < second then second else i)
        in Inr \<lparr>lk_ttl = t, lk_interval = interval\<rparr>)"

text \<open>
  One turn of the polling loop: the reply to \<open>SetNX\<close>, then (when the lock was taken) what happens
  during the wait, and the error of the context when the select takes that case.
\<close>

record attempt =
  at_reply :: reply
  at_wait :: "lock_world \<Rightarrow> lock_world"
  at_done :: "go_error option"

definition lease_of :: "locker \<Rightarrow> string \<Rightarrow> string \<Rightarrow> lease" where
  "lease_of l key token =
     \<lparr>le_key = key, le_token = token, le_ttl = lk_ttl l, le_interval = lk_interval l\<rparr>"

text \<open>The loop; \<open>None\<close> means that it is still polling after the given attempts.\<close>

fun lock_loop :: "locker \<Rightarrow> string \<Rightarrow> string \<Rightarrow> attempt list \<Rightarrow> lock_world \<Rightarrow> lock_world \<times> lease result option" where
  "lock_loop l key token [] w = (w, None)"
| "lock_loop l key token (a # as) w =
     (case with_reply (at_reply a) (set_nx key token (lk_ttl l)) w of
        (w1, Inl e) \<Rightarrow> (w1, Some (Inl e))
      | (w1, Inr True) \<Rightarrow> (w1, Some (Inr (lease_of l key token)))
      | (w1, Inr False) \<Rightarrow>
          (case at_done a of
             Some e \<Rightarrow> (at_wait a w1, Some (Inl e))
           | None \<Rightarrow> lock_loop l key token as (at_wait a w1)))"

definition redis_lock ::
  "locker \<Rightarrow> session_key \<Rightarrow> string result \<Rightarrow> attempt list \<Rightarrow> lock_world \<Rightarrow> lock_world \<times> lease result option" where
  "redis_lock l k random_token as w =
     (case validate_key k of Some e \<Rightarrow> (w, Some (Inl e)) | None \<Rightarrow>
      case random_token of
        Inl e \<Rightarrow> (w, Some (Inl e))
      | Inr token \<Rightarrow> lock_loop l (redis_lock_key k) token as w)"

definition redis_renew :: "reply \<Rightarrow> lease \<Rightarrow> (lock_world, unit) op" where
  "redis_renew r le w =
     (case with_reply r (renew_script (le_key le) (le_token le) (le_ttl le div 1000000)) w of
        (w', Inl e) \<Rightarrow> (w', Inl e)
      | (w', Inr v) \<Rightarrow> (w', if v \<noteq> 1 then Inl ErrLockUnavailable else Inr ()))"

definition redis_unlock :: "reply \<Rightarrow> lease \<Rightarrow> (lock_world, unit) op" where
  "redis_unlock r le w =
     (case with_reply r (unlock_script (le_key le) (le_token le)) w of
        (w', Inl e) \<Rightarrow> (w', Inl e)
      | (w', Inr v) \<Rightarrow> (w', if v \<noteq> 1 then Inl ErrLockReleased else Inr ()))"

text \<open>
  The renewal goroutine: before each tick other clients act and time passes; a tick renews, the end
  of the context stops it. The result is what the goroutine sends: nothing, or the first error.
\<close>

datatype renewal_event = ContextEnds | Tick "lock_world \<Rightarrow> lock_world" reply

fun renewal_loop :: "lease \<Rightarrow> renewal_event list \<Rightarrow> lock_world \<Rightarrow> lock_world \<times> go_error option" where
  "renewal_loop le [] w = (w, None)"
| "renewal_loop le (ContextEnds # es) w = (w, None)"
| "renewal_loop le (Tick before r # es) w =
     (case redis_renew r le (before w) of
        (w', Inl e) \<Rightarrow> (w', Some e)
      | (w', Inr _) \<Rightarrow> renewal_loop le es w')"

section \<open>Exclusion\<close>

definition holds :: "lock_world \<Rightarrow> lease \<Rightarrow> bool" where
  "holds w le \<longleftrightarrow> live_value w (le_key le) = Some (le_token le)"

definition deadline_of :: "lock_world \<Rightarrow> lease \<Rightarrow> int" where
  "deadline_of w le = (case lw_keys w (le_key le) of None \<Rightarrow> lw_time w | Some (v, d) \<Rightarrow> d)"

definition contends :: "lease \<Rightarrow> lease \<Rightarrow> bool" where
  "contends le le' \<longleftrightarrow> le_key le = le_key le' \<and> le_token le \<noteq> le_token le'"

text \<open>A call of another client: any call with another token, whatever becomes of its reply.\<close>

inductive other_call :: "lease \<Rightarrow> lock_world \<Rightarrow> lock_world \<Rightarrow> bool" for le where
  OtherSetNX: "token \<noteq> le_token le \<Longrightarrow> with_reply r (set_nx key token ttl) w = (w', x) \<Longrightarrow> other_call le w w'"
| OtherRenew: "le_token le' \<noteq> le_token le \<Longrightarrow> redis_renew r le' w = (w', y) \<Longrightarrow> other_call le w w'"
| OtherUnlock: "le_token le' \<noteq> le_token le \<Longrightarrow> redis_unlock r le' w = (w', y) \<Longrightarrow> other_call le w w'"

text \<open>Other clients and time, until the given moment.\<close>

inductive others_until :: "lease \<Rightarrow> int \<Rightarrow> lock_world \<Rightarrow> lock_world \<Rightarrow> bool" for le limit where
  Nothing: "others_until le limit w w"
| Call: "others_until le limit w w1 \<Longrightarrow> other_call le w1 w2 \<Longrightarrow> others_until le limit w w2"
| Pass: "others_until le limit w w1 \<Longrightarrow> lw_time w1 \<le> t \<Longrightarrow> t < limit \<Longrightarrow> others_until le limit w (w1\<lparr>lw_time := t\<rparr>)"

locale exclusive_lease =
  fixes held :: "'w \<Rightarrow> 'l \<Rightarrow> bool"
    and conflict :: "'l \<Rightarrow> 'l \<Rightarrow> bool"
    and foreign :: "'l \<Rightarrow> 'w \<Rightarrow> 'w \<Rightarrow> bool"
    and release :: "'l \<Rightarrow> 'w \<Rightarrow> 'w \<times> bool"
  assumes exclusive: "held w l \<Longrightarrow> held w l' \<Longrightarrow> \<not> conflict l l'"
    and foreign_keeps: "foreign l w w' \<Longrightarrow> held w l \<Longrightarrow> held w' l"
    and release_ends: "release l w = (w', b) \<Longrightarrow> b = held w l \<and> \<not> held w' l"
    and release_foreign: "conflict l l' \<Longrightarrow> foreign l' w (fst (release l w))"
begin

lemma foreign_star_keeps: "(foreign l)\<^sup>*\<^sup>* w w' \<Longrightarrow> held w l \<Longrightarrow> held w' l"
  by (induction rule: rtranclp_induct) (auto intro: foreign_keeps)

lemma released_once:
  assumes "release l w = (w1, b1)" and "release l w1 = (w2, b2)"
  shows "\<not> b2"
  using release_ends [OF assms(1)] release_ends [OF assms(2)] by simp

lemma late_release_harmless:
  assumes "held w l'" and "conflict l l'"
  shows "held (fst (release l w)) l' \<and> \<not> snd (release l w)"
proof -
  have "\<not> held w l" using exclusive assms by blast
  with release_ends [of l w] have "\<not> snd (release l w)" by (cases "release l w") auto
  with foreign_keeps [OF release_foreign [OF assms(2)] assms(1)] show ?thesis by simp
qed

end

lemma live_value_upd [simp]:
  "live_value (w\<lparr>lw_keys := (lw_keys w)(k \<mapsto> (v, d))\<rparr>) k' =
     (if k' = k then if lw_time w < d then Some v else None else live_value w k')"
  "live_value (w\<lparr>lw_keys := (lw_keys w)(k := None)\<rparr>) k' = (if k' = k then None else live_value w k')"
  by (auto simp: live_value_def split: option.splits)

lemma with_reply_fst: "with_reply r f w = (w', x) \<Longrightarrow> w' = w \<or> w' = fst (f w)"
  by (auto simp: with_reply_def split: reply.splits)

lemma renew_fst: "redis_renew r le w = (w', y) \<Longrightarrow>
    w' = w \<or> w' = fst (renew_script (le_key le) (le_token le) (le_ttl le div 1000000) w)"
  by (auto simp: redis_renew_def split: prod.splits sum.splits dest: with_reply_fst)

lemma unlock_fst: "redis_unlock r le w = (w', y) \<Longrightarrow>
    w' = w \<or> w' = fst (unlock_script (le_key le) (le_token le) w)"
  by (auto simp: redis_unlock_def split: prod.splits sum.splits dest: with_reply_fst)

lemma other_call_keeps:
  assumes "other_call le w w'" and "holds w le"
  shows "holds w' le \<and> deadline_of w' le = deadline_of w le \<and> lw_time w' = lw_time w"
  using assms
proof cases
  case (OtherSetNX token r key ttl x)
  then have "w' = w \<or> w' = fst (set_nx key token ttl w)" by (auto dest: with_reply_fst)
  with OtherSetNX assms(2) show ?thesis by (auto simp: set_nx_def holds_def deadline_of_def split: option.splits if_splits)
next
  case (OtherRenew le' r y)
  with renew_fst [OF OtherRenew(2)] assms(2) show ?thesis by (auto simp: renew_script_def holds_def deadline_of_def split: option.splits if_splits)
next
  case (OtherUnlock le' r y)
  with unlock_fst [OF OtherUnlock(2)] assms(2) show ?thesis by (auto simp: unlock_script_def holds_def deadline_of_def split: option.splits if_splits)
qed

lemma others_until_keeps:
  assumes "others_until le limit w w'" and "holds w le" and "limit \<le> deadline_of w le"
  shows "holds w' le \<and> deadline_of w' le = deadline_of w le"
  using assms
proof (induction rule: others_until.induct)
  case (Call w w1 w2)
  then show ?case using other_call_keeps by metis
next
  case (Pass w w1 t)
  then show ?case by (auto simp: holds_def live_value_def deadline_of_def split: option.splits if_splits)
qed simp

definition unlock_now :: "lease \<Rightarrow> lock_world \<Rightarrow> lock_world \<times> bool" where
  "unlock_now le w = (case redis_unlock Delivered le w of (w', r) \<Rightarrow> (w', r = Inr ()))"

interpretation lk: exclusive_lease holds contends other_call unlock_now
proof (unfold_locales, goal_cases)
  case (1 w l l')
  then show ?case by (auto simp: holds_def contends_def)
next
  case (2 l w w')
  then show ?case using other_call_keeps by blast
next
  case (3 l w w' b)
  then show ?case
    by (auto simp: unlock_now_def redis_unlock_def with_reply_def unlock_script_def holds_def split: if_splits)
next
  case (4 l l' w)
  obtain w' y where u: "redis_unlock Delivered l w = (w', y)" by fastforce
  have "le_token l \<noteq> le_token l'" using 4 by (auto simp: contends_def)
  from OtherUnlock [OF this u] show ?case using u by (simp add: unlock_now_def)
qed

lemma set_nx_holds:
  assumes "with_reply r (set_nx key token ttl) w = (w', Inr True)" and "0 < ttl"
  shows "live_value w' key = Some token \<and> lw_keys w' key = Some (token, lw_time w' + ttl) \<and> live_value w key = None"
  using assms by (auto simp: with_reply_def set_nx_def split: reply.splits if_splits)

lemma lock_loop_ok:
  assumes "lock_loop l key token as w = (w', Some (Inr le))" and "0 < lk_ttl l"
  shows "le = lease_of l key token \<and> holds w' le \<and> deadline_of w' le = lw_time w' + lk_ttl l"
  using assms
proof (induction l key token as w rule: lock_loop.induct)
  case (2 l key token a as w)
  obtain w1 x where s: "with_reply (at_reply a) (set_nx key token (lk_ttl l)) w = (w1, x)" by fastforce
  show ?case
  proof (cases "x = Inr True")
    case True
    with 2(2,3) s set_nx_holds [of "at_reply a" key token "lk_ttl l" w w1] show ?thesis
      by (auto simp: holds_def deadline_of_def lease_of_def)
  next
    case False
    then consider e where "x = Inl e" | "x = Inr False" by (cases x) auto
    then show ?thesis
    proof cases
      case 2
      then show ?thesis using "2.prems" "2.IH" s by (auto split: option.splits)
    qed (use 2(2) s in auto)
  qed
qed simp

section \<open>Renewal\<close>

text \<open>Before every tick only other clients act and the deadline has not passed; replies arrive.\<close>

fun timely :: "lease \<Rightarrow> renewal_event list \<Rightarrow> lock_world \<Rightarrow> bool" where
  "timely le [] w = True"
| "timely le (ContextEnds # es) w = True"
| "timely le (Tick before r # es) w \<longleftrightarrow>
     r = Delivered \<and> others_until le (deadline_of w le) w (before w) \<and>
     timely le es (fst (redis_renew r le (before w)))"

lemma renew_holds:
  assumes "holds w le" and "1000000 \<le> le_ttl le"
  shows "\<exists>w'. redis_renew Delivered le w = (w', Inr ()) \<and> holds w' le \<and>
    deadline_of w' le = lw_time w + le_ttl le div 1000000 * 1000000 \<and> lw_time w' = lw_time w"
proof -
  have "0 < le_ttl le div 1000000 * 1000000" using assms(2) by auto
  with assms(1) show ?thesis
    by (auto simp: redis_renew_def with_reply_def renew_script_def holds_def deadline_of_def)
qed

lemma renew_lost:
  assumes "\<not> holds w le"
  shows "redis_renew Delivered le w = (w, Inl ErrLockUnavailable)"
  using assms by (simp add: redis_renew_def with_reply_def renew_script_def holds_def)

lemma renewal_interval:
  assumes "new_redis_locker True ttl = Inr l"
  shows "0 < lk_ttl l \<and> second \<le> lk_interval l \<and>
    (lk_interval l < lk_ttl l div 1000000 * 1000000 \<longleftrightarrow> 1001000000 \<le> lk_ttl l)"
proof -
  have l: "lk_ttl l = (if ttl \<le> 0 then 30 * second else ttl)"
    "lk_interval l = (if lk_ttl l div 3 < second then second else lk_ttl l div 3)"
    using assms by (auto simp: new_redis_locker_def Let_def split: if_splits)
  then show ?thesis by (auto split: if_splits)
qed

section \<open>Properties\<close>


definition empty_world :: lock_world where
  "empty_world = \<lparr>lw_time = 0, lw_keys = Map.empty\<rparr>"

definition key_lock :: session_key where
  "key_lock = \<lparr>sk_tenant = ''t'', sk_user = ''u'', sk_conversation = ''c''\<rparr>"

definition locker_3s :: locker where
  "locker_3s = \<lparr>lk_ttl = 3 * second, lk_interval = second\<rparr>"

definition try_once :: attempt where
  "try_once = \<lparr>at_reply = Delivered, at_wait = id, at_done = None\<rparr>"

definition lease_1 :: lease where
  "lease_1 = lease_of locker_3s (redis_lock_key key_lock) ''t1''"

definition world_1 :: lock_world where
  "world_1 = \<lparr>lw_time = 0, lw_keys = [redis_lock_key key_lock \<mapsto> (''t1'', 3 * second)]\<rparr>"

lemma first_lock: "redis_lock locker_3s key_lock (Inr ''t1'') [try_once] empty_world = (world_1, Some (Inr lease_1))"
  by (simp add: redis_lock_def key_lock_def validate_key_def try_once_def with_reply_def set_nx_def
      live_value_def empty_world_def world_1_def lease_1_def locker_3s_def)




text \<open>The renewal interval is below the time to live exactly when the configured time to live is at
  least 1.001 s; with one second or less the lease has expired at the first tick, which reports that
  the lock is unavailable although nobody contended for it.\<close>

theorem short_ttl_expires_before_renewal:
  assumes "new_redis_locker True ttl = Inr l"
    and "redis_lock l k rt as w = (w1, Some (Inr le))"
    and "before = (\<lambda>v. v\<lparr>lw_time := lw_time v + lk_interval l\<rparr>)"
  shows "(lk_interval l < lk_ttl l div 1000000 * 1000000 \<longleftrightarrow> 1001000000 \<le> lk_ttl l) \<and>
    (lk_ttl l \<le> second \<longrightarrow> snd (renewal_loop le (Tick before Delivered # es) w1) = Some ErrLockUnavailable)"
proof -
  have i: "0 < lk_ttl l" "second \<le> lk_interval l" using renewal_interval [OF assms(1)] by auto
  obtain t where "lock_loop l (redis_lock_key k) t as w = (w1, Some (Inr le))"
    using assms(2) by (auto simp: redis_lock_def split: option.splits sum.splits)
  from lock_loop_ok [OF this i(1)] have d: "deadline_of w1 le = lw_time w1 + lk_ttl l" by auto
  have "\<not> holds (before w1) le" if "lk_ttl l \<le> second"
    using that i d unfolding assms(3)
    by (auto simp: holds_def live_value_def deadline_of_def split: option.splits if_splits)
  with renew_lost have "lk_ttl l \<le> second \<longrightarrow>
      redis_renew Delivered le (before w1) = (before w1, Inl ErrLockUnavailable)" by blast
  with renewal_interval [OF assms(1)] show ?thesis by auto
qed

theorem short_ttl_expires_before_renewal_witness:
  "\<exists>l w1 le. new_redis_locker True 500000000 = Inr l \<and>
     redis_lock l key_lock (Inr ''t1'') [try_once] empty_world = (w1, Some (Inr le)) \<and>
     snd (renewal_loop le [Tick (\<lambda>v. v\<lparr>lw_time := lw_time v + lk_interval l\<rparr>) Delivered] w1) = Some ErrLockUnavailable"
proof -
  define l where "l = \<lparr>lk_ttl = 500000000, lk_interval = second\<rparr>"
  have n: "new_redis_locker True 500000000 = Inr l" by (simp add: new_redis_locker_def l_def)
  obtain w1 le where r: "redis_lock l key_lock (Inr ''t1'') [try_once] empty_world = (w1, Some (Inr le))"
    by (simp add: redis_lock_def key_lock_def validate_key_def try_once_def with_reply_def set_nx_def
        live_value_def empty_world_def)
  from short_ttl_expires_before_renewal [OF n r refl, of "[]"] n r
  show ?thesis by (auto simp: l_def)
qed

text \<open>\<open>Unlock\<close> after the lease was lost to another client fails with the released error and leaves
  the new owner's lease in place; a second \<open>Unlock\<close> never succeeds.\<close>

theorem unlock_only_own_lease:
  assumes "contends le le'" and "holds w le'"
  shows "holds (fst (redis_unlock Delivered le w)) le' \<and> snd (redis_unlock Delivered le w) = Inl ErrLockReleased \<and>
    snd (redis_unlock Delivered le' (fst (redis_unlock Delivered le' w))) = Inl ErrLockReleased"
  using lk.late_release_harmless [OF assms(2,1)] lk.released_once [of le' w]
  by (auto simp: unlock_now_def redis_unlock_def with_reply_def unlock_script_def split: prod.splits if_splits)

theorem unlock_only_own_lease_witness:
  "snd (redis_unlock Delivered (lease_1\<lparr>le_token := ''t0''\<rparr>) world_1) = Inl ErrLockReleased"
proof -
  have "contends (lease_1\<lparr>le_token := ''t0''\<rparr>) lease_1" by (simp add: contends_def lease_1_def lease_of_def)
  moreover have "holds world_1 lease_1" by (simp add: holds_def live_value_def world_1_def lease_1_def lease_of_def)
  ultimately show ?thesis using unlock_only_own_lease by blast
qed

text \<open>When the reply to the first \<open>SetNX\<close> of a \<open>Lock\<close> is lost, the call returns the error and no
  lease, but the session stays locked for the whole time to live: every attempt of another client in
  that time fails.\<close>

theorem lost_lock_reply_blocks_session:
  assumes "validate_key k = None" and "live_value w (redis_lock_key k) = None" and "0 < lk_ttl l"
    and "at_reply a = ReplyLost e" and "token \<noteq> t"
  shows "\<exists>w1. redis_lock l k (Inr t) (a # as) w = (w1, Some (Inl e)) \<and>
    (\<forall>w2. others_until (lease_of l (redis_lock_key k) t) (lw_time w + lk_ttl l) w1 w2 \<longrightarrow>
       snd (set_nx (redis_lock_key k) token ttl w2) = Inr False)"
proof -
  let ?le = "lease_of l (redis_lock_key k) t"
  let ?w1 = "w\<lparr>lw_keys := (lw_keys w)(redis_lock_key k \<mapsto> (t, lw_time w + lk_ttl l))\<rparr>"
  have run: "redis_lock l k (Inr t) (a # as) w = (?w1, Some (Inl e))"
    using assms(1,2,4) by (simp add: redis_lock_def with_reply_def set_nx_def)
  have h: "holds ?w1 ?le" "deadline_of ?w1 ?le = lw_time w + lk_ttl l"
    using assms(3) by (auto simp: holds_def deadline_of_def lease_of_def)
  have "snd (set_nx (redis_lock_key k) token ttl w2) = Inr False"
    if "others_until ?le (lw_time w + lk_ttl l) ?w1 w2" for w2
    using others_until_keeps [OF that h(1)] h(2) by (auto simp: set_nx_def holds_def lease_of_def)
  with run show ?thesis by blast
qed

theorem lost_lock_reply_blocks_session_witness:
  "\<exists>w1. redis_lock locker_3s key_lock (Inr ''t1'') [try_once\<lparr>at_reply := ReplyLost (ErrExternal ''i/o timeout'')\<rparr>]
       empty_world = (w1, Some (Inl (ErrExternal ''i/o timeout''))) \<and>
     snd (set_nx (redis_lock_key key_lock) ''t2'' 7 w1) = Inr False"
proof -
  let ?a = "try_once\<lparr>at_reply := ReplyLost (ErrExternal ''i/o timeout'')\<rparr>"
  have "validate_key key_lock = None" "live_value empty_world (redis_lock_key key_lock) = None"
    "0 < lk_ttl locker_3s" "at_reply ?a = ReplyLost (ErrExternal ''i/o timeout'')" "''t2'' \<noteq> ''t1''"
    by (simp_all add: key_lock_def validate_key_def live_value_def empty_world_def locker_3s_def)
  from lost_lock_reply_blocks_session [OF this, of "[]" 7] others_until.Nothing show ?thesis by blast
qed

text \<open>Lock keys and cache keys live in one Redis key space. The cache key of a session with a
  colon-free tenant and user is a lock key only for the tenant "lock" and the user "conversation",
  and that session's cache key is the lock key of another one.\<close>

theorem cache_key_meets_lock_key:
  assumes "colon_free k'" and "storage_key k' = redis_lock_key k"
  shows "sk_tenant k' = ''lock'' \<and> sk_user k' = ''conversation'' \<and>
    sk_conversation k' = sk_tenant k @ '':'' @ sk_user k @ '':'' @ sk_conversation k"
proof -
  have "sk_tenant k' @ CHR '':'' # sk_user k' @ CHR '':'' # sk_conversation k' =
      ''lock'' @ CHR '':'' # ''conversation'' @ CHR '':'' # sk_tenant k @ '':'' @ sk_user k @ '':'' @ sk_conversation k"
    using assms(2) by (simp add: storage_key_def redis_lock_key_def)
  then have t: "sk_tenant k' = ''lock'' \<and> sk_user k' @ CHR '':'' # sk_conversation k' =
      ''conversation'' @ CHR '':'' # sk_tenant k @ '':'' @ sk_user k @ '':'' @ sk_conversation k"
    using assms(1) by (intro sep_append_eq) (auto simp: colon_free_def)
  then have "sk_user k' = ''conversation'' \<and>
      sk_conversation k' = sk_tenant k @ '':'' @ sk_user k @ '':'' @ sk_conversation k"
    using assms(1) by (intro sep_append_eq) (auto simp: colon_free_def)
  with t show ?thesis by blast
qed

theorem cache_key_meets_lock_key_witness:
  "sk_conversation \<lparr>sk_tenant = ''lock'', sk_user = ''conversation'', sk_conversation = ''t:u:c''\<rparr> =
     sk_tenant key_lock @ '':'' @ sk_user key_lock @ '':'' @ sk_conversation key_lock"
proof -
  let ?k = "\<lparr>sk_tenant = ''lock'', sk_user = ''conversation'', sk_conversation = ''t:u:c''\<rparr>"
  have "colon_free ?k" "storage_key ?k = redis_lock_key key_lock"
    by (simp_all add: colon_free_def storage_key_def redis_lock_key_def key_lock_def)
  from cache_key_meets_lock_key [OF this] show ?thesis by blast
qed

end
