(* ===== verification/Turn_Loop.thy ===== *)
theory Turn_Loop
  imports Session_Types
begin

text \<open>
  \<open>TurnLoopSession\<close> of internal/conversation/turn_loop.go. The library's turn loop owns the queue and
  calls back; the theory models the three callbacks and the session's own state: the stop flag, the
  count of active requests and the time of the last use (\<open>ts_now\<close> is the clock that \<open>time.Now\<close>
  reads). \<open>'w\<close> is the state of the callers, which the build and emit functions of a request change.

  The events of a turn are a list, nil entries included; a message stream is its chunks and the error
  that ended it, none for \<open>io.EOF\<close>. The main lemma says that the nested loops of
  \<open>handleAgentEvents\<close> emit a trace that is a function of the events alone, up to the first error of
  the receiver.
\<close>

record turn_event =
  te_message :: msgptr
  te_err :: "go_error option"
  te_done :: bool

record agent_input =
  ai_messages :: "msgptr list"
  ai_streaming :: bool

definition clone_agent_input :: "agent_input \<Rightarrow> agent_input" where
  "clone_agent_input i = \<lparr>ai_messages = clone_messages (ai_messages i), ai_streaming = ai_streaming i\<rparr>"

record 'st turn_request =
  tr_ctx :: "ctx option"
  tr_input :: "agent_input option"
  tr_build :: "(ctx option \<Rightarrow> ('st, agent_input option) op) option"
  tr_emit :: "turn_event \<Rightarrow> 'st \<Rightarrow> 'st \<times> go_error option"

record turn_session =
  ts_key :: session_key
  ts_stopped :: bool
  ts_loop_stops :: nat
  ts_active :: int
  ts_last :: int
  ts_now :: int

definition message_event :: "msgptr \<Rightarrow> turn_event" where
  "message_event m = \<lparr>te_message = m, te_err = None, te_done = False\<rparr>"

definition done_event :: "go_error option \<Rightarrow> turn_event" where
  "done_event e = \<lparr>te_message = None, te_err = e, te_done = True\<rparr>"

section \<open>The session\<close>

definition touch :: "turn_session \<Rightarrow> turn_session" where
  "touch s = s\<lparr>ts_last := ts_now s\<rparr>"

definition add_active :: "int \<Rightarrow> turn_session \<Rightarrow> turn_session" where
  "add_active d s = s\<lparr>ts_active := ts_active s + d\<rparr>"

definition new_turn_session :: "session_key \<Rightarrow> bool \<Rightarrow> int \<Rightarrow> turn_session result" where
  "new_turn_session k agent_given now =
     (case validate_key k of Some e \<Rightarrow> Inl e | None \<Rightarrow>
      if \<not> agent_given then Inl (ErrText ''conversation turn loop agent is required'')
      else Inr (touch \<lparr>ts_key = k, ts_stopped = False, ts_loop_stops = 0, ts_active = 0, ts_last = 0, ts_now = now\<rparr>))"

text \<open>\<open>time.Unix(0, n).IsZero()\<close> is false for every 64-bit n, so that test of the source is left out.\<close>

definition is_idle_since :: "int \<Rightarrow> int \<Rightarrow> turn_session \<Rightarrow> bool" where
  "is_idle_since now idle s =
     (if idle \<le> 0 \<or> ts_stopped s \<or> ts_active s \<noteq> 0 then False else idle \<le> now - ts_last s)"

definition wrapped_emit ::
  "(turn_event \<Rightarrow> 'w \<Rightarrow> 'w \<times> go_error option) \<Rightarrow> turn_event \<Rightarrow> turn_session \<times> 'w \<Rightarrow> (turn_session \<times> 'w) \<times> go_error option" where
  "wrapped_emit emit ev st =
     (let s1 = touch (fst st);
          (w', err) = emit ev (snd st);
          s2 = (if te_done ev \<or> te_err ev \<noteq> None \<or> err \<noteq> None then add_active (-1) s1 else s1)
      in ((s2, w'), err))"

definition lift_build ::
  "(ctx option \<Rightarrow> ('w, agent_input option) op) \<Rightarrow> ctx option \<Rightarrow> (turn_session \<times> 'w, agent_input option) op" where
  "lift_build b c st = (case b c (snd st) of (w', r) \<Rightarrow> ((fst st, w'), r))"

text \<open>\<open>push\<close>; \<open>accepted\<close> is the answer of the library's queue. On success the request is queued.\<close>

definition turn_push ::
  "ctx option \<Rightarrow> agent_input option \<Rightarrow> (ctx option \<Rightarrow> ('w, agent_input option) op) option \<Rightarrow>
   (turn_event \<Rightarrow> 'w \<Rightarrow> 'w \<times> go_error option) option \<Rightarrow> bool \<Rightarrow>
   (turn_session, (turn_session \<times> 'w) turn_request) op" where
  "turn_push c input build emit accepted s =
     (let c' = (case c of None \<Rightarrow> Some background | Some x \<Rightarrow> Some x)
      in if (case input of None \<Rightarrow> True | Some i \<Rightarrow> ai_messages i = []) \<and> build = None then (s, Inl ErrTurnInput)
      else case emit of None \<Rightarrow> (s, Inl ErrTurnInput) | Some em \<Rightarrow>
      case context_err c' of Some e \<Rightarrow> (s, Inl e) | None \<Rightarrow>
      if ts_stopped s then (s, Inl ErrTurnLoopStopped)
      else
        let s1 = touch (add_active 1 s)
        in if \<not> accepted then (add_active (-1) s1, Inl ErrTurnLoopStopped)
           else (s1, Inr \<lparr>tr_ctx = c', tr_input = input, tr_build = map_option lift_build build,
                          tr_emit = wrapped_emit em\<rparr>))"

definition turn_push_input ::
  "ctx option \<Rightarrow> agent_input option \<Rightarrow> (turn_event \<Rightarrow> 'w \<Rightarrow> 'w \<times> go_error option) option \<Rightarrow> bool \<Rightarrow>
   (turn_session, (turn_session \<times> 'w) turn_request) op" where
  "turn_push_input c input emit accepted s =
     (case input of
        None \<Rightarrow> (s, Inl ErrTurnInput)
      | Some i \<Rightarrow> turn_push c (Some (clone_agent_input i)) None emit accepted s)"

definition turn_push_build ::
  "ctx option \<Rightarrow> (ctx option \<Rightarrow> ('w, agent_input option) op) option \<Rightarrow>
   (turn_event \<Rightarrow> 'w \<Rightarrow> 'w \<times> go_error option) option \<Rightarrow> bool \<Rightarrow>
   (turn_session, (turn_session \<times> 'w) turn_request) op" where
  "turn_push_build c build emit accepted s =
     (case build of
        None \<Rightarrow> (s, Inl ErrTurnInput)
      | Some b \<Rightarrow> turn_push c None (Some b) emit accepted s)"

text \<open>\<open>Stop\<close>: the state, and the errors its select may return; \<open>exited\<close> says that the loop has ended.\<close>

definition turn_stop :: "turn_session \<Rightarrow> turn_session" where
  "turn_stop s = (if ts_stopped s then s else s\<lparr>ts_stopped := True, ts_loop_stops := ts_loop_stops s + 1\<rparr>)"

definition stop_results :: "bool \<Rightarrow> ctx option \<Rightarrow> go_error option list" where
  "stop_results exited c =
     (if exited then [None] else []) @ (case context_err c of None \<Rightarrow> [] | Some e \<Rightarrow> [Some e])"

section \<open>GenInput\<close>

record 'st gen_result =
  gr_ctx :: "ctx option"
  gr_input :: agent_input
  gr_consumed :: "'st turn_request list"
  gr_remaining :: "'st turn_request list"

text \<open>
  What the loop body makes of an item: its copy with the default context and the built input, and the
  input of the turn or the error that the item is told.
\<close>

definition item_input ::
  "ctx option \<Rightarrow> 'st turn_request \<Rightarrow> 'st \<Rightarrow> 'st \<times> ('st turn_request \<times> agent_input result)" where
  "item_input run_ctx original st =
     (let item = (if tr_ctx original = None then original\<lparr>tr_ctx := run_ctx\<rparr> else original);
          (st1, built) = (case tr_build item of
             None \<Rightarrow> (st, Inr (tr_input item))
           | Some build \<Rightarrow> build (tr_ctx item) st)
      in (st1, case built of
           Inl e \<Rightarrow> (item, Inl e)
         | Inr None \<Rightarrow> (item\<lparr>tr_input := None\<rparr>, Inl ErrTurnInput)
         | Inr (Some i) \<Rightarrow>
             (item\<lparr>tr_input := Some i\<rparr>, if ai_messages i = [] then Inl ErrTurnInput else Inr i)))"

text \<open>The loop; \<open>before\<close> are the items before the current index.\<close>

fun gen_items ::
  "ctx option \<Rightarrow> 'st turn_request list \<Rightarrow> 'st turn_request list \<Rightarrow> ('st, 'st gen_result) op" where
  "gen_items run_ctx before [] st = (st, Inl ErrTurnInput)"
| "gen_items run_ctx before (original # rest) st =
     (case item_input run_ctx original st of
        (st1, item, Inl e) \<Rightarrow>
          (case tr_emit item (done_event (Some e)) st1 of
             (st2, Some emit_err) \<Rightarrow> (st2, Inl emit_err)
           | (st2, None) \<Rightarrow> gen_items run_ctx (before @ [original]) rest st2)
      | (st1, item, Inr i) \<Rightarrow>
          (st1, Inr \<lparr>gr_ctx = tr_ctx item, gr_input = clone_agent_input i, gr_consumed = [item],
                     gr_remaining = before @ rest\<rparr>))"

definition gen_input :: "ctx option \<Rightarrow> 'st turn_request list \<Rightarrow> ('st, 'st gen_result) op" where
  "gen_input run_ctx items st =
     (if items = [] then (st, Inl ErrTurnInput) else gen_items run_ctx [] items st)"

section \<open>handleAgentEvents\<close>

record message_output =
  mo_streaming :: bool
  mo_stream :: "(msgptr list \<times> go_error option) option"
  mo_message :: msgptr

record agent_event =
  ae_err :: "go_error option"
  ae_output :: "message_output option option"

type_synonym 'st emitter = "turn_event \<Rightarrow> 'st \<Rightarrow> 'st \<times> go_error option"

definition nil_stream :: go_error where
  "nil_stream = ErrText ''streaming agent event has nil message stream''"

text \<open>The loop over a message stream: true when it reached \<open>io.EOF\<close>, otherwise the returned error.\<close>

fun recv_loop :: "'st emitter \<Rightarrow> msgptr list \<Rightarrow> go_error option \<Rightarrow> 'st \<Rightarrow> 'st \<times> (bool \<times> go_error option)" where
  "recv_loop emit [] None st = (st, (True, None))"
| "recv_loop emit [] (Some e) st =
     (case emit (done_event (Some e)) st of (st', r) \<Rightarrow> (st', (False, r)))"
| "recv_loop emit (chunk # cs) end_err st =
     (case emit (message_event chunk) st of
        (st', Some e) \<Rightarrow> (st', (False, Some e))
      | (st', None) \<Rightarrow> recv_loop emit cs end_err st')"

fun event_loop :: "'st emitter \<Rightarrow> agent_event option list \<Rightarrow> 'st \<Rightarrow> 'st \<times> go_error option" where
  "event_loop emit [] st = emit (done_event None) st"
| "event_loop emit (None # es) st = event_loop emit es st"
| "event_loop emit (Some ev # es) st =
     (case ae_err ev of
        Some e \<Rightarrow> emit (done_event (Some e)) st
      | None \<Rightarrow>
          (case ae_output ev of
             None \<Rightarrow> event_loop emit es st
           | Some None \<Rightarrow> event_loop emit es st
           | Some (Some out) \<Rightarrow>
               (case (if mo_streaming out then
                        (case mo_stream out of
                           None \<Rightarrow> (case emit (done_event (Some nil_stream)) st of (st', r) \<Rightarrow> (st', (False, r)))
                         | Some (chunks, end_err) \<Rightarrow> recv_loop emit chunks end_err st)
                      else (st, (True, None))) of
                  (st1, (False, r)) \<Rightarrow> (st1, r)
                | (st1, (True, _)) \<Rightarrow>
                    (case mo_message out of
                       None \<Rightarrow> event_loop emit es st1
                     | Some m \<Rightarrow>
                         (case emit (message_event (Some m)) st1 of
                            (st2, Some e) \<Rightarrow> (st2, Some e)
                          | (st2, None) \<Rightarrow> event_loop emit es st2)))))"

definition handle_agent_events ::
  "'st turn_request list option \<Rightarrow> agent_event option list \<Rightarrow> 'st \<Rightarrow> 'st \<times> go_error option" where
  "handle_agent_events tc events st =
     (case tc of
        Some [request] \<Rightarrow> event_loop (tr_emit request) events st
      | _ \<Rightarrow> (st, Some (ErrText ''conversation turn expected one consumed request'')))"

section \<open>The trace of a turn\<close>

text \<open>The abstract behaviour: the events of a turn, independent of the receiver.\<close>

fun turn_trace :: "agent_event option list \<Rightarrow> turn_event list" where
  "turn_trace [] = [done_event None]"
| "turn_trace (None # es) = turn_trace es"
| "turn_trace (Some ev # es) =
     (case (ae_err ev, ae_output ev) of
        (Some e, _) \<Rightarrow> [done_event (Some e)]
      | (None, Some (Some out)) \<Rightarrow>
          (let rest = (case mo_message out of None \<Rightarrow> [] | Some m \<Rightarrow> [message_event (Some m)]) @ turn_trace es
           in if mo_streaming out then
                (case mo_stream out of
                   None \<Rightarrow> [done_event (Some nil_stream)]
                 | Some (chunks, end_err) \<Rightarrow>
                     map message_event chunks @ (case end_err of None \<Rightarrow> rest | Some e \<Rightarrow> [done_event (Some e)]))
              else rest)
      | _ \<Rightarrow> turn_trace es)"

fun emit_until :: "'st emitter \<Rightarrow> turn_event list \<Rightarrow> 'st \<Rightarrow> 'st \<times> go_error option" where
  "emit_until emit [] st = (st, None)"
| "emit_until emit (ev # evs) st =
     (case emit ev st of (st', Some e) \<Rightarrow> (st', Some e) | (st', None) \<Rightarrow> emit_until emit evs st')"

lemma emitted_same [simp]:
  "(case x of (st', None) \<Rightarrow> (st', None) | (st', Some e) \<Rightarrow> (st', Some e)) = x"
  "(case r of None \<Rightarrow> (st1, None) | Some e \<Rightarrow> (st1, Some e)) = (st1, r)"
  by (auto split: prod.splits option.splits)

lemma emit_until_single [simp]: "emit_until emit [ev] st = emit ev st"
  by (auto split: prod.splits option.splits)

lemma emit_until_append:
  "emit_until emit (xs @ ys) st =
     (case emit_until emit xs st of (st', Some e) \<Rightarrow> (st', Some e) | (st', None) \<Rightarrow> emit_until emit ys st')"
  by (induction xs arbitrary: st) (auto split: prod.splits option.splits)

lemma recv_loop_trace:
  "(case recv_loop emit chunks end_err st of
      (st1, (False, r)) \<Rightarrow> (st1, r) | (st1, (True, _)) \<Rightarrow> k st1) =
   (case emit_until emit (map message_event chunks) st of
      (st1, Some e) \<Rightarrow> (st1, Some e)
    | (st1, None) \<Rightarrow> (case end_err of None \<Rightarrow> k st1 | Some e \<Rightarrow> emit (done_event (Some e)) st1))"
  by (induction emit chunks end_err st rule: recv_loop.induct) (auto split: prod.splits option.splits)

lemma event_loop_output:
  assumes "ae_err ev = None" and "ae_output ev = Some (Some out)"
    and all: "\<And>st1. event_loop emit es st1 = emit_until emit (turn_trace es) st1"
  shows "event_loop emit (Some ev # es) st = emit_until emit (turn_trace (Some ev # es)) st"
proof -
  define rest where "rest =
    (case mo_message out of None \<Rightarrow> [] | Some m \<Rightarrow> [message_event (Some m)]) @ turn_trace es"
  define k where "k st1 =
    (case mo_message out of None \<Rightarrow> event_loop emit es st1
     | Some m \<Rightarrow> (case emit (message_event (Some m)) st1 of
         (st2, Some e) \<Rightarrow> (st2, Some e) | (st2, None) \<Rightarrow> event_loop emit es st2))" for st1
  have k: "k = emit_until emit rest"
    by (auto simp: k_def rest_def all fun_eq_iff emit_until_append split: option.splits prod.splits)
  have run: "event_loop emit (Some ev # es) st =
      (case (if mo_streaming out then
          (case mo_stream out of
             None \<Rightarrow> (case emit (done_event (Some nil_stream)) st of (st', r) \<Rightarrow> (st', (False, r)))
           | Some (chunks, end_err) \<Rightarrow> recv_loop emit chunks end_err st)
        else (st, (True, None))) of
        (st1, (False, r)) \<Rightarrow> (st1, r) | (st1, (True, _)) \<Rightarrow> k st1)"
    by (simp only: event_loop.simps assms(1,2) option.case k_def)
  show ?thesis
  proof (cases "mo_streaming out")
    case False
    then show ?thesis using assms(1,2) run k by (simp add: Let_def rest_def)
  next
    case True
    show ?thesis
    proof (cases "mo_stream out")
      case None
      then show ?thesis using True assms(1,2) run by (auto split: prod.splits)
    next
      case (Some st')
      obtain chunks end_err where c: "st' = (chunks, end_err)" by fastforce
      have tt: "turn_trace (Some ev # es) =
          map message_event chunks @ (case end_err of None \<Rightarrow> rest | Some e \<Rightarrow> [done_event (Some e)])"
        using True Some c assms(1,2) by (cases end_err) (simp_all add: Let_def rest_def)
      have el: "event_loop emit (Some ev # es) st =
          (case emit_until emit (map message_event chunks) st of
             (st1, Some e) \<Rightarrow> (st1, Some e)
           | (st1, None) \<Rightarrow> (case end_err of None \<Rightarrow> k st1 | Some e \<Rightarrow> emit (done_event (Some e)) st1))"
        using True Some c run recv_loop_trace [where emit = emit and k = k] by simp
      show ?thesis unfolding tt el emit_until_append k
        by (cases end_err) (auto split: prod.splits option.splits)
    qed
  qed
qed

lemma event_loop_trace: "event_loop emit es st = emit_until emit (turn_trace es) st"
proof (induction es arbitrary: st)
  case (Cons ev es)
  show ?case
  proof (cases "\<exists>ev' out. ev = Some ev' \<and> ae_err ev' = None \<and> ae_output ev' = Some (Some out)")
    case True
    then show ?thesis using event_loop_output Cons.IH by metis
  next
    case False
    then show ?thesis using Cons.IH by (cases ev) (auto split: option.splits)
  qed
qed simp

text \<open>The shape of a trace: plain messages, then one final event.\<close>

lemma turn_trace_shape: "\<exists>msgs e. turn_trace es = map message_event msgs @ [done_event e]"
proof (induction es)
  case Nil
  have "turn_trace [] = map message_event [] @ [done_event None]" by simp
  then show ?case by blast
next
  case (Cons ev es)
  then obtain msgs e where t: "turn_trace es = map message_event msgs @ [done_event e]" by blast
  have one: "\<exists>msgs e. [done_event x] = map message_event msgs @ [done_event e]" for x
    by (rule exI [of _ "[]"]) auto
  have ext: "\<exists>msgs' e'. map message_event xs @ turn_trace es = map message_event msgs' @ [done_event e']" for xs
    by (rule exI [of _ "xs @ msgs"], rule exI [of _ e]) (simp add: t)
  have ext1: "\<exists>msgs' e'. map message_event xs @ message_event m # turn_trace es = map message_event msgs' @ [done_event e']" for xs m
    by (rule exI [of _ "xs @ m # msgs"], rule exI [of _ e]) (simp add: t)
  have err: "\<exists>msgs' e'. map message_event xs @ [done_event x] = map message_event msgs' @ [done_event e']" for xs x
    by blast
  show ?case
    using one ext [of "[]"] ext ext1 [of "[]"] ext1 err
    by (cases ev) (auto simp: Let_def split: option.splits)
qed

text \<open>A receiver with the session's accounting loses exactly one active request over a trace.\<close>

lemma wrapped_emit_active:
  "wrapped_emit emit ev st = (st', r) \<Longrightarrow>
   ts_active (fst st') = ts_active (fst st) - (if te_done ev \<or> te_err ev \<noteq> None \<or> r \<noteq> None then 1 else 0)"
  by (auto simp: wrapped_emit_def Let_def touch_def add_active_def split: prod.splits if_splits)

lemma emit_until_active:
  assumes "emit_until (wrapped_emit emit) (map message_event msgs @ [done_event e]) st = (st', r)"
  shows "ts_active (fst st') = ts_active (fst st) - 1"
  using assms
proof (induction msgs arbitrary: st)
  case Nil
  then have "wrapped_emit emit (done_event e) st = (st', r)"
    by (simp only: list.map append_Nil emit_until_single)
  from wrapped_emit_active [OF this] show ?case by (simp add: done_event_def)
next
  case (Cons m msgs)
  obtain st1 r1 where w: "wrapped_emit emit (message_event m) st = (st1, r1)" by fastforce
  from wrapped_emit_active [OF w] Cons w show ?case
    by (cases r1) (auto simp: message_event_def)
qed

section \<open>Properties\<close>

text \<open>(C17) The nested loops of \<open>handleAgentEvents\<close> emit exactly the trace of the events, in order, up to
  the first error of the receiver, which is the result; the trace is plain messages followed by one
  final event, so a turn is finished exactly once and nothing follows its end.\<close>

theorem agent_events_emit_trace:
  "handle_agent_events (Some [request]) es st = emit_until (tr_emit request) (turn_trace es) st \<and>
   (\<exists>msgs e. turn_trace es = map message_event msgs @ [done_event e])"
  by (simp add: handle_agent_events_def event_loop_trace turn_trace_shape)

text \<open>(C18) Whatever the events of a turn are and wherever its receiver fails, handling them takes exactly
  one request off the session's count of active requests.\<close>

theorem handled_turn_deactivates_once:
  assumes "turn_push_build c (Some b) (Some emit) True s = (s1, Inr request)"
    and "handle_agent_events (Some [request]) es (s2, w) = (st', r)"
  shows "ts_active (fst st') = ts_active s2 - 1"
proof -
  have "tr_emit request = wrapped_emit emit"
    using assms(1) by (auto simp: turn_push_build_def turn_push_def Let_def split: option.splits if_splits)
  moreover obtain msgs e where "turn_trace es = map message_event msgs @ [done_event e]"
    using turn_trace_shape by blast
  ultimately have "emit_until (wrapped_emit emit) (map message_event msgs @ [done_event e]) (s2, w) = (st', r)"
    using assms(2) by (simp add: handle_agent_events_def event_loop_trace)
  from emit_until_active [OF this] show ?thesis by simp
qed

definition session_1 :: turn_session where
  "session_1 =
     \<lparr>ts_key = \<lparr>sk_tenant = ''t'', sk_user = ''u'', sk_conversation = ''c''\<rparr>, ts_stopped = False,
      ts_loop_stops = 0, ts_active = 0, ts_last = 0, ts_now = 100\<rparr>"

text \<open>A caller that records the events and whose connection breaks after two of them.\<close>

definition record_two :: "turn_event \<Rightarrow> turn_event list \<Rightarrow> turn_event list \<times> go_error option" where
  "record_two ev seen =
     (if length seen < 2 then (seen @ [ev], None) else (seen, Some ErrUnavailable))"

definition ask :: "string \<Rightarrow> ctx option \<Rightarrow> ('w, agent_input option) op" where
  "ask q c w = (w, Inr (Some \<lparr>ai_messages = [Some (user_message q)], ai_streaming = False\<rparr>))"

definition broken :: "ctx option \<Rightarrow> ('w, agent_input option) op" where
  "broken c w = (w, Inl (ErrExternal ''load history''))"

definition stream_event :: "string list \<Rightarrow> agent_event" where
  "stream_event cs =
     \<lparr>ae_err = None,
      ae_output = Some (Some \<lparr>mo_streaming = True,
        mo_stream = Some (map (\<lambda>c. Some (assistant_message c)) cs, None), mo_message = None\<rparr>)\<rparr>"

theorem handled_turn_deactivates_once_witness:
  "\<exists>s1 request st'. turn_push_build None (Some (ask ''q'')) (Some record_two) True session_1 = (s1, Inr request) \<and>
     ts_active s1 = 1 \<and>
     handle_agent_events (Some [request]) [None, Some (stream_event [''a'', ''b'', ''c''])] (s1, []) =
       (st', Some ErrUnavailable) \<and> length (snd st') = 2 \<and> ts_active (fst st') = 0"
proof -
  let ?es = "[None, Some (stream_event [''a'', ''b'', ''c''])]"
  obtain s1 request where p: "turn_push_build None (Some (ask ''q'')) (Some record_two) True session_1 = (s1, Inr request)"
    and one: "ts_active s1 = 1" and emit: "tr_emit request = wrapped_emit record_two"
    by (simp add: turn_push_build_def turn_push_def session_1_def background_def add_active_def touch_def)
  obtain st' r where h: "handle_agent_events (Some [request]) ?es (s1, []) = (st', r)" by fastforce
  then have "r = Some ErrUnavailable \<and> length (snd st') = 2"
    by (auto simp: handle_agent_events_def event_loop_trace emit stream_event_def wrapped_emit_def record_two_def
        message_event_def done_event_def Let_def touch_def add_active_def)
  with handled_turn_deactivates_once [OF p h] p one h show ?thesis by (cases st') auto
qed

text \<open>A push is counted exactly when it is accepted: every refused push leaves the count of active
  requests as it was, and a refused push reports an error.\<close>

theorem push_counts_accepted:
  assumes "turn_push c input build emit accepted s = (s', r)"
  shows "ts_active s' = ts_active s + (if isl r then 0 else 1) \<and>
    (\<not> isl r \<longleftrightarrow> accepted \<and> \<not> ts_stopped s \<and> emit \<noteq> None \<and> context_err c = None \<and>
       (build \<noteq> None \<or> (\<exists>i. input = Some i \<and> ai_messages i \<noteq> []))) \<and> ts_key s' = ts_key s"
  using assms
  by (auto simp: turn_push_def Let_def touch_def add_active_def background_def split: option.splits if_splits)

theorem push_counts_accepted_witness:
  "ts_active (fst (turn_push None None (Some (ask ''q'')) (Some record_two) False session_1)) = 0"
proof -
  obtain s' r where p: "turn_push None None (Some (ask ''q'')) (Some record_two) False session_1 = (s', r)"
    by fastforce
  from push_counts_accepted [OF p] p show ?thesis by (auto simp: session_1_def)
qed

lemma gen_items_ok:
  assumes "gen_items c before items st = (st', Inr g)"
  shows "\<exists>pre item post it. items = pre @ item # post \<and> gr_remaining g = before @ pre @ post \<and>
    gr_consumed g = [it] \<and> tr_emit it = tr_emit item \<and> gr_input g = clone_agent_input (the (tr_input it)) \<and>
    ai_messages (the (tr_input it)) \<noteq> []"
  using assms
proof (induction c before items st rule: gen_items.induct)
  case (2 c before original rest st)
  obtain st1 item r where ii: "item_input c original st = (st1, item, r)" by (metis prod_cases3)
  have em: "tr_emit item = tr_emit original"
    using ii by (auto simp: item_input_def Let_def split: prod.splits sum.splits option.splits if_splits)
  show ?case
  proof (cases r)
    case (Inr i)
    have "tr_input item = Some i \<and> ai_messages i \<noteq> []"
      using ii Inr by (auto simp: item_input_def Let_def split: prod.splits sum.splits option.splits if_splits)
    with ii Inr em "2.prems" show ?thesis by (intro exI [of _ "[]"]) auto
  next
    case (Inl e)
    obtain st2 where st2: "tr_emit item (done_event (Some e)) st1 = (st2, None)"
      using "2.prems" ii Inl by (auto split: prod.splits option.splits)
    with "2.prems" ii Inl have "gen_items c (before @ [original]) rest st2 = (st', Inr g)" by simp
    from "2.IH" [OF ii [symmetric] refl Inl st2 [symmetric] refl this]
    obtain pre it0 post it where "rest = pre @ it0 # post" "gr_remaining g = (before @ [original]) @ pre @ post"
      "gr_consumed g = [it]" "tr_emit it = tr_emit it0" "gr_input g = clone_agent_input (the (tr_input it))"
      "ai_messages (the (tr_input it)) \<noteq> []"
      by blast
    then show ?thesis by (intro exI [of _ "original # pre"]) auto
  qed
qed simp

text \<open>Choosing the input of a turn consumes one of the queued requests, with a non-empty input, and
  keeps all the others in order for later turns.\<close>

theorem gen_input_partitions_queue:
  assumes "gen_input c items st = (st', Inr g)"
  shows "\<exists>pre item post it. items = pre @ item # post \<and> gr_remaining g = pre @ post \<and>
    gr_consumed g = [it] \<and> tr_emit it = tr_emit item \<and> gr_input g = clone_agent_input (the (tr_input it)) \<and>
    ai_messages (gr_input g) \<noteq> []"
proof -
  have "gen_items c [] items st = (st', Inr g)"
    using assms by (auto simp: gen_input_def split: if_splits)
  from gen_items_ok [OF this] show ?thesis by (fastforce simp: clone_agent_input_def clone_messages_def)
qed

definition request_of :: "(ctx option \<Rightarrow> ('w, agent_input option) op) \<Rightarrow>
    (turn_event \<Rightarrow> 'w \<Rightarrow> 'w \<times> go_error option) \<Rightarrow> (turn_session \<times> 'w) turn_request" where
  "request_of b emit = \<lparr>tr_ctx = Some background, tr_input = None, tr_build = Some (lift_build b), tr_emit = wrapped_emit emit\<rparr>"

theorem gen_input_partitions_queue_witness:
  "\<exists>g. snd (gen_input None [request_of broken record_two, request_of (ask ''q'') record_two] (session_1, [])) = Inr g \<and>
     (\<exists>it. gr_consumed g = [it])"
proof -
  let ?items = "[request_of broken record_two, request_of (ask ''q'') record_two]"
  obtain st' r where run: "gen_input None ?items (session_1, []) = (st', r)" by fastforce
  have "\<not> isl (snd (gen_input None ?items (session_1, [])))"
    by (simp add: gen_input_def item_input_def request_of_def lift_build_def broken_def ask_def
        wrapped_emit_def record_two_def Let_def done_event_def)
  with run obtain g where g: "r = Inr g" by (cases r) auto
  from gen_input_partitions_queue [OF run [unfolded g]] run g show ?thesis by auto
qed

text \<open>A request whose build fails is told so and stays queued: it is told again at the next turn, and
  the count of active requests loses two for it. With one good request behind it the count of an
  otherwise quiet session ends at minus one, and such a session is never idle again.\<close>

theorem failed_build_counted_twice:
  assumes "\<And>c w. bad c w = (w, Inl e)" and "\<And>c w. good c w = (w, Inr (Some i))" and "ai_messages i \<noteq> []"
    and "\<And>ev w. emit ev w = (w @ [ev], None)"
    and "gen_input None [request_of bad emit, request_of good emit] (s, w) = (st1, Inr g)"
    and "handle_agent_events (Some (gr_consumed g)) es st1 = (st2, r)"
    and "gen_input None (gr_remaining g) st2 = (st3, r3)"
  shows "ts_active (fst st3) = ts_active s - 3 \<and> r3 = Inl ErrTurnInput \<and>
    snd st3 = w @ done_event (Some e) # turn_trace es @ [done_event (Some e)] \<and>
    (ts_active s = 2 \<longrightarrow> \<not> is_idle_since now idle (fst st3))"
proof -
  have step: "gen_items None [] [request_of bad emit, request_of good emit] (s, w) =
      ((add_active (-1) (touch s), w @ [done_event (Some e)]),
       Inr \<lparr>gr_ctx = Some background, gr_input = clone_agent_input i,
            gr_consumed = [(request_of good emit)\<lparr>tr_input := Some i\<rparr>], gr_remaining = [request_of bad emit]\<rparr>)"
    by (simp add: item_input_def request_of_def lift_build_def assms(1-4) wrapped_emit_def Let_def done_event_def)
  then have st1: "st1 = (add_active (-1) (touch s), w @ [done_event (Some e)])"
    and g: "gr_consumed g = [(request_of good emit)\<lparr>tr_input := Some i\<rparr>]" "gr_remaining g = [request_of bad emit]"
    using assms(5) by (auto simp: gen_input_def)
  have h: "emit_until (wrapped_emit emit) (turn_trace es) st1 = (st2, r)"
    using assms(6) g(1) by (simp add: handle_agent_events_def event_loop_trace request_of_def)
  obtain msgs x where t: "turn_trace es = map message_event msgs @ [done_event x]" using turn_trace_shape by blast
  from emit_until_active [OF h [unfolded t]] have a2: "ts_active (fst st2) = ts_active s - 2"
    by (simp add: st1 add_active_def touch_def)
  have log: "snd (fst (emit_until (wrapped_emit emit) evs st)) = snd st @ evs" for evs st
    by (induction evs arbitrary: st) (simp_all add: wrapped_emit_def assms(4) Let_def)
  from log [of "turn_trace es" st1] h have w2: "snd st2 = w @ done_event (Some e) # turn_trace es" by (simp add: st1)
  have "gen_input None [request_of bad emit] st2 =
      ((add_active (-1) (touch (fst st2)), snd st2 @ [done_event (Some e)]), Inl ErrTurnInput)"
    by (simp add: gen_input_def item_input_def request_of_def lift_build_def assms(1,4) wrapped_emit_def Let_def
        done_event_def)
  with assms(7) g(2) have "st3 = (add_active (-1) (touch (fst st2)), snd st2 @ [done_event (Some e)])"
    "r3 = Inl ErrTurnInput" by auto
  with a2 w2 show ?thesis by (auto simp: add_active_def touch_def is_idle_since_def)
qed

definition record_all :: "turn_event \<Rightarrow> turn_event list \<Rightarrow> turn_event list \<times> go_error option" where
  "record_all ev seen = (seen @ [ev], None)"

theorem failed_build_counted_twice_witness:
  "\<exists>st1 g st2 st3. gen_input None [request_of broken record_all, request_of (ask ''q'') record_all]
        (session_1\<lparr>ts_active := 2\<rparr>, []) = (st1, Inr g) \<and>
     handle_agent_events (Some (gr_consumed g)) [] st1 = (st2, None) \<and>
     gen_input None (gr_remaining g) st2 = (st3, Inl ErrTurnInput) \<and> ts_active (fst st3) = -1 \<and>
     filter (\<lambda>ev. te_err ev = Some (ErrExternal ''load history'')) (snd st3) =
       [done_event (Some (ErrExternal ''load history'')), done_event (Some (ErrExternal ''load history''))]"
proof -
  let ?s = "session_1\<lparr>ts_active := 2\<rparr>"
  let ?items = "[request_of broken record_all, request_of (ask ''q'') record_all]"
  define good where "good = (request_of (ask ''q'') record_all)
      \<lparr>tr_input := Some \<lparr>ai_messages = [Some (user_message ''q'')], ai_streaming = False\<rparr>\<rparr>"
  obtain st1 g where one: "gen_input None ?items (?s, []) = (st1, Inr g)"
    and st1: "st1 = (session_1\<lparr>ts_active := 1, ts_last := 100\<rparr>, [done_event (Some (ErrExternal ''load history''))])"
    and g: "gr_consumed g = [good]" "gr_remaining g = [request_of broken record_all]"
    by (simp add: gen_input_def item_input_def request_of_def lift_build_def broken_def ask_def good_def
        wrapped_emit_def record_all_def Let_def done_event_def session_1_def touch_def add_active_def)
  obtain st2 r where two: "handle_agent_events (Some (gr_consumed g)) [] st1 = (st2, r)" by fastforce
  then have st2: "r = None" "st2 = (session_1\<lparr>ts_active := 0, ts_last := 100\<rparr>,
      [done_event (Some (ErrExternal ''load history'')), done_event None])"
    by (auto simp: handle_agent_events_def g good_def request_of_def st1 wrapped_emit_def record_all_def Let_def
        done_event_def session_1_def touch_def add_active_def)
  obtain st3 r3 where three: "gen_input None (gr_remaining g) st2 = (st3, r3)" by fastforce
  have "ts_active (fst st3) = ts_active ?s - 3 \<and> r3 = Inl ErrTurnInput \<and>
      snd st3 = [] @ done_event (Some (ErrExternal ''load history'')) # turn_trace [] @
        [done_event (Some (ErrExternal ''load history''))]"
    using failed_build_counted_twice [where e = "ErrExternal ''load history''" and emit = record_all
        and i = "\<lparr>ai_messages = [Some (user_message ''q'')], ai_streaming = False\<rparr>", OF _ _ _ _ one two three]
    by (simp add: broken_def ask_def record_all_def)
  with one two three st2(1) show ?thesis
    by (intro exI [of _ st1] exI [of _ g] exI [of _ st2] exI [of _ st3]) (simp add: session_1_def done_event_def)
qed

end
