(* ===== verification/Turn_Registry.thy ===== *)
theory Turn_Registry
  imports Turn_Loop
begin

text \<open>
  \<open>TurnLoopRegistry\<close> of internal/conversation/turn_loop_registry.go. Sessions are shared by reference
  (a caller keeps the session that the registry may remove later), so they live in a heap and the
  registry maps keys to their indices; Go's map is an association list with distinct keys. The mutex
  makes one operation one step.

  What a session's \<open>Stop\<close> returns depends on the library's loop and the context; it is the argument
  \<open>outcome\<close>, one of \<open>stop_results\<close>. The locale \<open>session_pool\<close> is what the chat controller relies on:
  one usable session per key, the same until it is stopped or removed, never shared between keys.
\<close>

record registry =
  rg_max :: int
  rg_sessions :: "(session_key \<times> nat) list"
  rg_idle_ttl :: int
  rg_janitor :: bool
  rg_heap :: "turn_session list"

definition new_turn_loop_registry :: "int \<Rightarrow> int \<Rightarrow> registry" where
  "new_turn_loop_registry max_sessions idle_ttl =
     \<lparr>rg_max = (if max_sessions \<le> 0 then 128 else max_sessions), rg_sessions = [],
      rg_idle_ttl = idle_ttl, rg_janitor = (0 < idle_ttl), rg_heap = []\<rparr>"

definition registry_len :: "registry \<Rightarrow> nat" where
  "registry_len r = length (rg_sessions r)"

definition drop_key :: "session_key \<Rightarrow> (session_key \<times> nat) list \<Rightarrow> (session_key \<times> nat) list" where
  "drop_key k al = filter (\<lambda>p. fst p \<noteq> k) al"

text \<open>The factory returns an error or an agent, which may be nil (\<open>False\<close>).\<close>

definition get_or_create ::
  "ctx option \<Rightarrow> session_key \<Rightarrow> (ctx option \<Rightarrow> bool result) option \<Rightarrow> int \<Rightarrow> (registry, nat) op" where
  "get_or_create c k factory now r =
     (case validate_key k of Some e \<Rightarrow> (r, Inl e) | None \<Rightarrow>
      case factory of None \<Rightarrow> (r, Inl ErrTurnLoopFactoryRequired) | Some produce \<Rightarrow>
      (let c' = (case c of None \<Rightarrow> Some background | Some x \<Rightarrow> Some x);
           found = map_of (rg_sessions r) k
       in case (case found of None \<Rightarrow> None | Some i \<Rightarrow> if ts_stopped (rg_heap r ! i) then None else Some i) of
            Some i \<Rightarrow> (r, Inr i)
          | None \<Rightarrow>
              (let r1 = (case found of None \<Rightarrow> r | Some _ \<Rightarrow> r\<lparr>rg_sessions := drop_key k (rg_sessions r)\<rparr>)
               in if rg_max r1 \<le> int (length (rg_sessions r1)) then (r1, Inl ErrTurnLoopRegistryFull)
                  else
                    (case produce c' of
                       Inl e \<Rightarrow> (r1, Inl e)
                     | Inr agent \<Rightarrow>
                         (case new_turn_session k agent now of
                            Inl e \<Rightarrow> (r1, Inl e)
                          | Inr s \<Rightarrow>
                              (r1\<lparr>rg_sessions := (k, length (rg_heap r1)) # rg_sessions r1,
                                  rg_heap := rg_heap r1 @ [s]\<rparr>,
                               Inr (length (rg_heap r1))))))))"

definition stop_session :: "nat \<Rightarrow> registry \<Rightarrow> registry" where
  "stop_session i r = r\<lparr>rg_heap := (rg_heap r)[i := turn_stop (rg_heap r ! i)]\<rparr>"

definition registry_remove :: "(nat \<Rightarrow> go_error option) \<Rightarrow> session_key \<Rightarrow> registry \<Rightarrow> registry \<times> go_error option" where
  "registry_remove outcome k r =
     (case map_of (rg_sessions r) k of
        None \<Rightarrow> (r, None)
      | Some i \<Rightarrow> (stop_session i (r\<lparr>rg_sessions := drop_key k (rg_sessions r)\<rparr>), outcome i))"

definition registry_stop_all :: "(nat \<Rightarrow> go_error option) \<Rightarrow> registry \<Rightarrow> registry \<times> go_error option" where
  "registry_stop_all outcome r =
     (let ids = map snd (rg_sessions r);
          r1 = r\<lparr>rg_janitor := False, rg_sessions := []\<rparr>
      in (fold stop_session ids r1,
          (case find (\<lambda>i. outcome i \<noteq> None) ids of None \<Rightarrow> None | Some i \<Rightarrow> outcome i)))"

definition evict_idle :: "int \<Rightarrow> registry \<Rightarrow> registry" where
  "evict_idle now r =
     (let idle = (\<lambda>p. is_idle_since now (rg_idle_ttl r) (rg_heap r ! snd p));
          victims = map snd (filter idle (rg_sessions r))
      in fold stop_session victims (r\<lparr>rg_sessions := filter (\<lambda>p. \<not> idle p) (rg_sessions r)\<rparr>))"

definition janitor_interval :: "int \<Rightarrow> int" where
  "janitor_interval ttl = (if ttl div 2 < 1000000 then 1000000 else ttl div 2)"

text \<open>A tick of the janitor, which runs only when the registry was created with a positive TTL.\<close>

definition janitor_tick :: "int \<Rightarrow> registry \<Rightarrow> registry" where
  "janitor_tick now r = (if rg_janitor r then evict_idle now r else r)"

section \<open>Invariant\<close>

definition reg_inv :: "registry \<Rightarrow> bool" where
  "reg_inv r \<longleftrightarrow> int (length (rg_sessions r)) \<le> rg_max r \<and> distinct (map fst (rg_sessions r)) \<and>
     (\<forall>(k, i) \<in> set (rg_sessions r). i < length (rg_heap r) \<and> ts_key (rg_heap r ! i) = k)"

definition reg_lookup :: "registry \<Rightarrow> session_key \<Rightarrow> nat option" where
  "reg_lookup r k = map_of (rg_sessions r) k"

definition reg_live :: "registry \<Rightarrow> nat \<Rightarrow> bool" where
  "reg_live r i \<longleftrightarrow> i < length (rg_heap r) \<and> \<not> ts_stopped (rg_heap r ! i)"

lemma reg_inv_entry:
  "reg_inv r \<Longrightarrow> (k, i) \<in> set (rg_sessions r) \<Longrightarrow> i < length (rg_heap r) \<and> ts_key (rg_heap r ! i) = k"
  by (auto simp: reg_inv_def)

lemma reg_inv_new: "reg_inv (new_turn_loop_registry n ttl)"
  by (simp add: reg_inv_def new_turn_loop_registry_def)

lemma turn_stop_simps [simp]:
  "ts_stopped (turn_stop s)" "ts_key (turn_stop s) = ts_key s" "ts_active (turn_stop s) = ts_active s"
  "turn_stop (turn_stop s) = turn_stop s"
  by (simp_all add: turn_stop_def)

lemma stop_session_fields [simp]:
  "rg_sessions (stop_session i r) = rg_sessions r" "rg_max (stop_session i r) = rg_max r"
  "length (rg_heap (stop_session i r)) = length (rg_heap r)" "rg_janitor (stop_session i r) = rg_janitor r"
  "rg_idle_ttl (stop_session i r) = rg_idle_ttl r"
  by (simp_all add: stop_session_def)

lemma stop_session_nth:
  "j < length (rg_heap r) \<Longrightarrow>
   rg_heap (stop_session i r) ! j = (if i = j then turn_stop (rg_heap r ! j) else rg_heap r ! j)"
  by (simp add: stop_session_def)

lemma fold_stop_fields [simp]:
  "rg_sessions (fold stop_session is r) = rg_sessions r" "rg_max (fold stop_session is r) = rg_max r"
  "length (rg_heap (fold stop_session is r)) = length (rg_heap r)"
  "rg_janitor (fold stop_session is r) = rg_janitor r"
  by (induction "is" arbitrary: r) auto

lemma fold_stop_nth:
  "j < length (rg_heap r) \<Longrightarrow>
   rg_heap (fold stop_session is r) ! j = (if j \<in> set is then turn_stop (rg_heap r ! j) else rg_heap r ! j)"
  by (induction "is" arbitrary: r) (auto simp: stop_session_nth)

lemma fold_stop_key [simp]:
  "j < length (rg_heap r) \<Longrightarrow> ts_key (rg_heap (fold stop_session is r) ! j) = ts_key (rg_heap r ! j)"
  by (simp add: fold_stop_nth)

lemma drop_key_simps [simp]:
  "map_of (drop_key k al) k' = (if k' = k then None else map_of al k')"
  "k \<notin> fst ` set (drop_key k al)" "set (drop_key k al) \<subseteq> set al"
proof -
  show "map_of (drop_key k al) k' = (if k' = k then None else map_of al k')"
    by (induction al) (auto simp: drop_key_def)
qed (auto simp: drop_key_def)

lemma drop_key_length: "length (drop_key k al) \<le> length al"
  by (simp add: drop_key_def)

lemma drop_key_distinct: "distinct (map fst al) \<Longrightarrow> distinct (map fst (drop_key k al))"
  by (simp add: drop_key_def distinct_map_filter)

lemma reg_inv_sub:
  assumes "reg_inv r" and "set al \<subseteq> set (rg_sessions r)" and "distinct (map fst al)"
    and "length al \<le> length (rg_sessions r)"
  shows "reg_inv (r\<lparr>rg_sessions := al\<rparr>)"
  using assms by (auto simp: reg_inv_def)

lemma reg_inv_stop: "reg_inv r \<Longrightarrow> reg_inv (fold stop_session is r)"
  by (auto simp: reg_inv_def)

lemma reg_inv_janitor [simp]: "reg_inv (r\<lparr>rg_janitor := b\<rparr>) = reg_inv r"
  by (simp add: reg_inv_def)

lemma reg_inv_drop: "reg_inv r \<Longrightarrow> reg_inv (r\<lparr>rg_sessions := drop_key k (rg_sessions r)\<rparr>)"
  by (intro reg_inv_sub) (auto simp: drop_key_length reg_inv_def intro: drop_key_distinct dest: subsetD [OF drop_key_simps(3)])

lemma new_turn_session_ok:
  "new_turn_session k agent now = Inr s \<Longrightarrow> ts_key s = k \<and> \<not> ts_stopped s \<and> ts_active s = 0 \<and> ts_last s = now"
  by (auto simp: new_turn_session_def touch_def split: option.splits if_splits)

lemma get_or_create_cases:
  assumes "get_or_create c k factory now r = (r', x)"
  obtains (refused) e where "r' = r" "x = Inl e"
  | (hit) i where "r' = r" "x = Inr i" "map_of (rg_sessions r) k = Some i" "\<not> ts_stopped (rg_heap r ! i)"
  | (dropped) e where "x = Inl e" "r' = r\<lparr>rg_sessions := drop_key k (rg_sessions r)\<rparr>"
      "\<And>i. map_of (rg_sessions r) k = Some i \<Longrightarrow> ts_stopped (rg_heap r ! i)"
  | (created) s where
      "r' = r\<lparr>rg_sessions := (k, length (rg_heap r)) # drop_key k (rg_sessions r), rg_heap := rg_heap r @ [s]\<rparr>"
      "x = Inr (length (rg_heap r))" "int (length (drop_key k (rg_sessions r))) < rg_max r" "ts_key s = k" "\<not> ts_stopped s"
      "\<And>i. map_of (rg_sessions r) k = Some i \<Longrightarrow> ts_stopped (rg_heap r ! i)"
proof (cases "validate_key k \<noteq> None \<or> factory = None")
  case True
  then show thesis using assms by (auto simp: get_or_create_def intro: refused split: option.splits)
next
  case False
  then obtain produce where p: "validate_key k = None" "factory = Some produce" by auto
  define c' where "c' = (case c of None \<Rightarrow> Some background | Some x \<Rightarrow> Some x)"
  show thesis
  proof (cases "\<exists>i. map_of (rg_sessions r) k = Some i \<and> \<not> ts_stopped (rg_heap r ! i)")
    case True
    then show thesis using assms p by (auto simp: get_or_create_def intro: hit)
  next
    case miss: False
    have "drop_key k (rg_sessions r) = rg_sessions r" if "map_of (rg_sessions r) k = None"
      using that by (auto simp: drop_key_def map_of_eq_None_iff filter_id_conv)
    then have r1: "(case map_of (rg_sessions r) k of None \<Rightarrow> r
        | Some _ \<Rightarrow> r\<lparr>rg_sessions := drop_key k (rg_sessions r)\<rparr>) = r\<lparr>rg_sessions := drop_key k (rg_sessions r)\<rparr>"
      by (auto split: option.splits)
    have stale: "\<And>i. map_of (rg_sessions r) k = Some i \<Longrightarrow> ts_stopped (rg_heap r ! i)" using miss by blast
    have none: "(case map_of (rg_sessions r) k of None \<Rightarrow> None
        | Some i \<Rightarrow> if ts_stopped (rg_heap r ! i) then None else Some i) = None"
      using stale by (auto split: option.splits)
    have "(r', x) =
      (let r1 = r\<lparr>rg_sessions := drop_key k (rg_sessions r)\<rparr>
       in if rg_max r1 \<le> int (length (rg_sessions r1)) then (r1, Inl ErrTurnLoopRegistryFull)
          else (case produce c' of
             Inl e \<Rightarrow> (r1, Inl e)
           | Inr agent \<Rightarrow>
               (case new_turn_session k agent now of
                  Inl e \<Rightarrow> (r1, Inl e)
                | Inr s \<Rightarrow>
                    (r1\<lparr>rg_sessions := (k, length (rg_heap r1)) # rg_sessions r1, rg_heap := rg_heap r1 @ [s]\<rparr>,
                     Inr (length (rg_heap r1))))))"
      using assms unfolding get_or_create_def Let_def p option.case none r1 c'_def by simp
    then show thesis
      using stale new_turn_session_ok [of k _ now]
      by (auto simp: Let_def intro: dropped split: sum.splits if_splits) (rule created, assumption, auto)
  qed
qed

section \<open>The pool of sessions\<close>

locale session_pool =
  fixes pinv :: "'s \<Rightarrow> bool"
    and lookup :: "'s \<Rightarrow> 'k \<Rightarrow> 'v option"
    and usable :: "'s \<Rightarrow> 'v \<Rightarrow> bool"
    and acquire :: "'k \<Rightarrow> 's \<Rightarrow> 's \<times> 'v result"
    and valid :: "'k \<Rightarrow> bool"
  assumes acquire_inv: "pinv s \<Longrightarrow> acquire k s = (s', r) \<Longrightarrow> pinv s'"
    and acquire_ok: "pinv s \<Longrightarrow> acquire k s = (s', Inr v) \<Longrightarrow> lookup s' k = Some v \<and> usable s' v \<and> valid k"
    and acquire_hit: "pinv s \<Longrightarrow> valid k \<Longrightarrow> lookup s k = Some v \<Longrightarrow> usable s v \<Longrightarrow> acquire k s = (s, Inr v)"
    and acquire_frame: "pinv s \<Longrightarrow> acquire k s = (s', r) \<Longrightarrow> k' \<noteq> k \<Longrightarrow> lookup s' k' = lookup s k'"
    and acquire_keeps: "pinv s \<Longrightarrow> acquire k s = (s', r) \<Longrightarrow> usable s v \<Longrightarrow> usable s' v"
    and separate: "pinv s \<Longrightarrow> lookup s k = Some v \<Longrightarrow> lookup s k' = Some v \<Longrightarrow> k = k'"
begin

lemma acquire_again:
  assumes "pinv s" and "acquire k s = (s1, Inr v)"
  shows "acquire k s1 = (s1, Inr v)"
  using assms acquire_inv acquire_ok acquire_hit by metis

lemma acquire_between:
  assumes "pinv s" and "acquire k s = (s1, Inr v)" and "acquire k' s1 = (s2, r)"
  shows "acquire k s2 = (s2, Inr v)"
proof (cases "k' = k")
  case True
  with assms acquire_again [OF assms(1,2)] show ?thesis by auto
next
  case False
  note ok = acquire_ok [OF assms(1,2)] acquire_inv [OF assms(1,2)]
  have "lookup s2 k = Some v" using acquire_frame [OF ok(2) assms(3)] ok(1) False by metis
  moreover have "usable s2 v" using acquire_keeps [OF ok(2) assms(3)] ok(1) by blast
  ultimately show ?thesis using acquire_hit [OF acquire_inv [OF ok(2) assms(3)]] ok(1) by blast
qed

lemma acquire_separate:
  assumes "pinv s" and "acquire k s = (s1, Inr v)" and "acquire k' s1 = (s2, Inr v')" and "k \<noteq> k'"
  shows "v \<noteq> v'"
proof
  note i = acquire_inv [OF assms(1,2)]
  assume "v = v'"
  moreover have "lookup s2 k = Some v" using acquire_frame [OF i assms(3,4)] acquire_ok [OF assms(1,2)] by simp
  moreover have "lookup s2 k' = Some v'" using acquire_ok [OF i assms(3)] by blast
  ultimately show False using separate [OF acquire_inv [OF i assms(3)]] assms(4) by blast
qed

end

lemma get_or_create_inv:
  assumes "reg_inv r" and "get_or_create c k factory now r = (r', x)"
  shows "reg_inv r' \<and> rg_max r' = rg_max r \<and> length (rg_heap r) \<le> length (rg_heap r') \<and>
    (\<forall>i < length (rg_heap r). rg_heap r' ! i = rg_heap r ! i)"
  using assms(2)
proof (cases rule: get_or_create_cases)
  case (dropped e)
  then show ?thesis using reg_inv_drop [OF assms(1)] by simp
next
  case (created s)
  have d: "reg_inv (r\<lparr>rg_sessions := drop_key k (rg_sessions r)\<rparr>)" using reg_inv_drop assms(1) .
  then have "distinct (map fst (drop_key k (rg_sessions r)))"
    "\<forall>(k', i) \<in> set (drop_key k (rg_sessions r)). i < length (rg_heap r) \<and> ts_key (rg_heap r ! i) = k'"
    by (auto simp: reg_inv_def)
  with created show ?thesis by (auto simp: reg_inv_def nth_append)
qed (use assms in auto)

lemma get_or_create_hit:
  assumes "reg_inv r" and "validate_key k = None" and "reg_lookup r k = Some i" and "reg_live r i"
  shows "get_or_create c k (Some factory) now r = (r, Inr i)"
  using assms by (simp add: get_or_create_def reg_lookup_def reg_live_def)

interpretation pool: session_pool reg_inv reg_lookup reg_live "\<lambda>k. get_or_create c k (Some factory) now"
  "\<lambda>k. validate_key k = None"
  for c factory now
proof (unfold_locales, goal_cases)
  case (1 s k s' r)
  then show ?case using get_or_create_inv by blast
next
  case (2 s k s' v)
  have valid: "validate_key k = None" using 2(2) by (auto simp: get_or_create_def split: option.splits)
  from 2(2) show ?case
  proof (cases rule: get_or_create_cases)
    case (hit i)
    have "i < length (rg_heap s)" using 2(1) map_of_SomeD [OF hit(3)] by (auto simp: reg_inv_def)
    with hit valid show ?thesis by (simp add: reg_lookup_def reg_live_def)
  next
    case (created t)
    with valid show ?thesis by (simp add: reg_lookup_def reg_live_def)
  qed auto
next
  case (3 s k v)
  then show ?case by (simp add: get_or_create_hit)
next
  case (4 s k s' r k')
  from 4(2) show ?case by (cases rule: get_or_create_cases) (use 4(3) in \<open>auto simp: reg_lookup_def\<close>)
next
  case (5 s k s' r v)
  then show ?case using get_or_create_inv [OF 5(1,2)] by (auto simp: reg_live_def)
next
  case (6 s k v k')
  from 6(2,3) have "(k, v) \<in> set (rg_sessions s)" "(k', v) \<in> set (rg_sessions s)"
    by (auto simp: reg_lookup_def dest: map_of_SomeD)
  with 6(1) show ?case using reg_inv_entry by metis
qed

section \<open>Runs\<close>

text \<open>Any sequence of operations, with the janitor's ticks in between.\<close>

datatype registry_op =
    GetOrCreate "ctx option" session_key "(ctx option \<Rightarrow> bool result) option" int
  | Remove "nat \<Rightarrow> go_error option" session_key
  | StopAll "nat \<Rightarrow> go_error option"
  | JanitorTick int

fun registry_step :: "registry_op \<Rightarrow> registry \<Rightarrow> registry" where
  "registry_step (GetOrCreate c k factory now) r = fst (get_or_create c k factory now r)"
| "registry_step (Remove outcome k) r = fst (registry_remove outcome k r)"
| "registry_step (StopAll outcome) r = fst (registry_stop_all outcome r)"
| "registry_step (JanitorTick now) r = janitor_tick now r"

lemma evict_idle_inv:
  assumes "reg_inv r"
  shows "reg_inv (evict_idle now r)"
  unfolding evict_idle_def Let_def
  by (intro reg_inv_stop reg_inv_sub) (use assms in \<open>auto simp: reg_inv_def distinct_map_filter\<close>)

lemma registry_step_inv:
  assumes "reg_inv r"
  shows "reg_inv (registry_step opn r) \<and> rg_max (registry_step opn r) = rg_max r"
proof (cases opn)
  case (GetOrCreate c k factory now)
  then show ?thesis using get_or_create_inv [OF assms, of c k factory now] by (cases "get_or_create c k factory now r") auto
next
  case (Remove outcome k)
  have "reg_inv (stop_session i (r\<lparr>rg_sessions := drop_key k (rg_sessions r)\<rparr>))" for i
    using reg_inv_stop [OF reg_inv_drop [OF assms], of "[i]" k] by simp
  with Remove assms show ?thesis by (auto simp: registry_remove_def split: option.splits)
next
  case (StopAll outcome)
  have "reg_inv (r\<lparr>rg_janitor := False, rg_sessions := []\<rparr>)" using assms by (simp add: reg_inv_def)
  with StopAll reg_inv_stop show ?thesis by (simp add: registry_stop_all_def Let_def)
next
  case (JanitorTick now)
  then show ?thesis using evict_idle_inv [OF assms] assms by (simp add: janitor_tick_def evict_idle_def Let_def)
qed

lemma registry_run_inv:
  "reg_inv r \<Longrightarrow> reg_inv (fold registry_step ops r) \<and> rg_max (fold registry_step ops r) = rg_max r"
  by (induction ops arbitrary: r) (auto simp: registry_step_inv)

lemma evict_idle_effect:
  assumes "reg_inv r" and "map_of (rg_sessions r) k = Some i"
  shows "map_of (rg_sessions (evict_idle now r)) k =
      (if is_idle_since now (rg_idle_ttl r) (rg_heap r ! i) then None else Some i) \<and>
    rg_heap (evict_idle now r) ! i =
      (if is_idle_since now (rg_idle_ttl r) (rg_heap r ! i) then turn_stop (rg_heap r ! i) else rg_heap r ! i)"
proof -
  let ?idle = "\<lambda>p. is_idle_since now (rg_idle_ttl r) (rg_heap r ! snd p)"
  have mem: "(k, i) \<in> set (rg_sessions r)" using assms(2) by (rule map_of_SomeD)
  then have len: "i < length (rg_heap r)" using assms(1) by (auto simp: reg_inv_def)
  have d: "distinct (map fst (rg_sessions r))" using assms(1) by (simp add: reg_inv_def)
  have uniq: "b = i" if "(k, b) \<in> set (rg_sessions r)" for b
    using eq_key_imp_eq_value [OF d mem that] by simp
  have "map_of (filter (\<lambda>p. \<not> ?idle p) (rg_sessions r)) k = (if ?idle (k, i) then None else Some i)"
  proof (cases "?idle (k, i)")
    case True
    then have "\<forall>p \<in> set (filter (\<lambda>p. \<not> ?idle p) (rg_sessions r)). fst p \<noteq> k"
      by (auto dest: uniq)
    then have "k \<notin> fst ` set (filter (\<lambda>p. \<not> ?idle p) (rg_sessions r))" by blast
    then show ?thesis using True by (simp add: map_of_eq_None_iff del: set_filter)
  next
    case False
    then have "(k, i) \<in> set (filter (\<lambda>p. \<not> ?idle p) (rg_sessions r))" using mem by simp
    then show ?thesis using False d by (simp add: distinct_map_filter)
  qed
  moreover have "i \<in> set (map snd (filter ?idle (rg_sessions r))) \<longleftrightarrow> ?idle (k, i)"
    using mem by force
  ultimately show ?thesis using len by (simp add: evict_idle_def Let_def fold_stop_nth)
qed

section \<open>Properties\<close>

text \<open>(C19) Whatever operations run, in any order and with the janitor in between, the registry never holds
  more sessions than its limit and never two for one key, and each session it holds belongs to its key.\<close>

theorem registry_bounded:
  fixes n ttl :: int and ops :: "registry_op list"
  shows "let r = fold registry_step ops (new_turn_loop_registry n ttl)
    in int (registry_len r) \<le> (if n \<le> 0 then 128 else n) \<and> distinct (map fst (rg_sessions r)) \<and>
       list_all (\<lambda>(k, i). ts_key (rg_heap r ! i) = k) (rg_sessions r)"
  using registry_run_inv [OF reg_inv_new [of n ttl], of ops]
  by (auto simp: reg_inv_def registry_len_def Let_def list_all_iff new_turn_loop_registry_def)

text \<open>A caller gets the session of its own key: the same one at every call until it is stopped,
  whatever other keys ask for in between, and never the session of another key.\<close>

theorem registry_sessions_isolated:
  assumes "reg_inv r" and "get_or_create c k (Some factory) now r = (r1, Inr i)"
    and "get_or_create c k' (Some factory) now r1 = (r2, x)" and "k' \<noteq> k"
  shows "get_or_create c k (Some factory) now r2 = (r2, Inr i) \<and> x \<noteq> Inr i \<and> ts_key (rg_heap r2 ! i) = k"
proof -
  have again: "get_or_create c k (Some factory) now r2 = (r2, Inr i)"
    by (rule pool.acquire_between [OF assms(1-3)])
  have i2: "reg_inv r2" using get_or_create_inv assms(1-3) by blast
  have "map_of (rg_sessions r2) k = Some i" using pool.acquire_ok [OF i2 again] by (simp add: reg_lookup_def)
  then have "ts_key (rg_heap r2 ! i) = k" using i2 by (auto simp: reg_inv_def dest: map_of_SomeD)
  with again pool.acquire_separate [OF assms(1,2)] assms(3,4) show ?thesis by metis
qed

definition key_1 :: session_key where
  "key_1 = \<lparr>sk_tenant = ''t'', sk_user = ''u'', sk_conversation = ''c1''\<rparr>"

definition key_2 :: session_key where
  "key_2 = \<lparr>sk_tenant = ''t'', sk_user = ''u'', sk_conversation = ''c2''\<rparr>"

definition agent_ready :: "ctx option \<Rightarrow> bool result" where
  "agent_ready c = Inr True"

theorem registry_sessions_isolated_witness:
  "\<exists>r1 r2 i j. get_or_create None key_1 (Some agent_ready) 5 (new_turn_loop_registry 2 0) = (r1, Inr i) \<and>
     get_or_create None key_2 (Some agent_ready) 5 r1 = (r2, Inr j) \<and> j \<noteq> i \<and>
     get_or_create None key_1 (Some agent_ready) 5 r2 = (r2, Inr i)"
proof -
  obtain r1 i where one: "get_or_create None key_1 (Some agent_ready) 5 (new_turn_loop_registry 2 0) = (r1, Inr i)"
    and r1: "rg_max r1 = 2" "length (rg_sessions r1) = 1" "map_of (rg_sessions r1) key_2 = None"
    by (simp add: get_or_create_def new_turn_loop_registry_def key_1_def key_2_def validate_key_def agent_ready_def
        new_turn_session_def Let_def)
  obtain r2 j where two: "get_or_create None key_2 (Some agent_ready) 5 r1 = (r2, Inr j)"
    using r1 by (simp add: get_or_create_def key_2_def validate_key_def agent_ready_def new_turn_session_def Let_def)
  have "key_2 \<noteq> key_1" by (simp add: key_1_def key_2_def)
  from registry_sessions_isolated [OF reg_inv_new one two this] one two show ?thesis by blast
qed

text \<open>A full registry refuses a new conversation without calling the agent factory, and the refusal
  changes nothing but the removal of the key's stopped session.\<close>

theorem full_registry_refuses:
  assumes "validate_key k = None" and "map_of (rg_sessions r) k = None"
    and "rg_max r \<le> int (registry_len r)"
  shows "get_or_create c k (Some factory) now r = (r, Inl ErrTurnLoopRegistryFull)"
  using assms by (simp add: get_or_create_def registry_len_def Let_def)

theorem full_registry_refuses_witness:
  "\<exists>r1 i. get_or_create None key_1 (Some agent_ready) 5 (new_turn_loop_registry 1 0) = (r1, Inr i) \<and>
     get_or_create None key_2 (Some agent_ready) 6 r1 = (r1, Inl ErrTurnLoopRegistryFull)"
proof -
  obtain r1 i where one: "get_or_create None key_1 (Some agent_ready) 5 (new_turn_loop_registry 1 0) = (r1, Inr i)"
    and r1: "map_of (rg_sessions r1) key_2 = None" "rg_max r1 \<le> int (registry_len r1)"
    by (simp add: get_or_create_def new_turn_loop_registry_def key_1_def key_2_def validate_key_def agent_ready_def
        new_turn_session_def Let_def registry_len_def)
  have "validate_key key_2 = None" by (simp add: key_2_def validate_key_def)
  from full_registry_refuses [OF this r1] one show ?thesis by blast
qed

text \<open>A tick of the janitor removes and stops a session exactly when it has no active request and was
  not used for the whole idle time; a session with a request in flight stays and is not stopped.\<close>

theorem janitor_evicts_exactly_idle:
  assumes "reg_inv r" and "map_of (rg_sessions r) k = Some i" and "rg_janitor r"
  shows "let idle = is_idle_since now (rg_idle_ttl r) (rg_heap r ! i); r' = janitor_tick now r
    in map_of (rg_sessions r') k = (if idle then None else Some i) \<and>
       rg_heap r' ! i = (if idle then turn_stop (rg_heap r ! i) else rg_heap r ! i) \<and>
       (ts_active (rg_heap r ! i) \<noteq> 0 \<longrightarrow> \<not> idle)"
  using evict_idle_effect [OF assms(1,2), of now] assms(3)
  by (auto simp: janitor_tick_def Let_def is_idle_since_def)

theorem janitor_evicts_exactly_idle_witness:
  "\<exists>r. map_of (rg_sessions r) key_1 = Some 0 \<and> map_of (rg_sessions (janitor_tick 100 r)) key_1 = None \<and>
     map_of (rg_sessions (janitor_tick 14 r)) key_1 = Some 0"
proof -
  define s where "s = \<lparr>ts_key = key_1, ts_stopped = False, ts_loop_stops = 0, ts_active = 0, ts_last = 5, ts_now = 5\<rparr>"
  define r where "r = (new_turn_loop_registry 2 10)\<lparr>rg_sessions := [(key_1, 0)], rg_heap := [s]\<rparr>"
  have "reg_inv r" "map_of (rg_sessions r) key_1 = Some 0" "rg_janitor r" "rg_idle_ttl r = 10" "rg_heap r ! 0 = s"
    by (simp_all add: r_def reg_inv_def new_turn_loop_registry_def s_def)
  with janitor_evicts_exactly_idle [of r key_1 0 100] janitor_evicts_exactly_idle [of r key_1 0 14] show ?thesis
    by (intro exI [of _ r]) (auto simp: Let_def s_def is_idle_since_def)
qed

text \<open>\<open>StopAll\<close> empties the registry, ends the janitor and stops every session that was registered; it
  reports an error exactly when one of the stops did.\<close>

theorem stop_all_stops_everything:
  assumes "reg_inv r" and "registry_stop_all outcome r = (r', err)"
  shows "rg_sessions r' = [] \<and> \<not> rg_janitor r' \<and>
    (\<forall>k i. map_of (rg_sessions r) k = Some i \<longrightarrow> ts_stopped (rg_heap r' ! i)) \<and>
    (err = None \<longleftrightarrow> (\<forall>(k, i) \<in> set (rg_sessions r). outcome i = None))"
proof -
  let ?r1 = "r\<lparr>rg_janitor := False, rg_sessions := []\<rparr>"
  have r': "r' = fold stop_session (map snd (rg_sessions r)) ?r1"
    "err = (case find (\<lambda>i. outcome i \<noteq> None) (map snd (rg_sessions r)) of None \<Rightarrow> None | Some i \<Rightarrow> outcome i)"
    using assms(2) by (auto simp: registry_stop_all_def Let_def)
  have "ts_stopped (rg_heap r' ! i)" if "map_of (rg_sessions r) k = Some i" for k i
  proof -
    have m: "(k, i) \<in> set (rg_sessions r)" using that by (rule map_of_SomeD)
    then have "i < length (rg_heap r)" "i \<in> snd ` set (rg_sessions r)" using assms(1) by (force simp: reg_inv_def)+
    then show ?thesis by (simp add: r' fold_stop_nth)
  qed
  moreover have "err = None \<longleftrightarrow> (\<forall>(k, i) \<in> set (rg_sessions r). outcome i = None)"
    unfolding r'(2) by (fastforce simp: find_None_iff find_Some_iff split: option.splits dest: nth_mem)
  ultimately show ?thesis by (simp add: r')
qed

theorem stop_all_stops_everything_witness:
  "\<exists>r r'. map_of (rg_sessions r) key_1 = Some 0 \<and>
     registry_stop_all (\<lambda>i. Some Canceled) r = (r', Some Canceled) \<and> ts_stopped (rg_heap r' ! 0)"
proof -
  define s where "s = \<lparr>ts_key = key_1, ts_stopped = False, ts_loop_stops = 0, ts_active = 1, ts_last = 5, ts_now = 5\<rparr>"
  define r where "r = (new_turn_loop_registry 2 10)\<lparr>rg_sessions := [(key_1, 0)], rg_heap := [s]\<rparr>"
  have i: "reg_inv r" and m: "map_of (rg_sessions r) key_1 = Some 0"
    by (simp_all add: r_def reg_inv_def new_turn_loop_registry_def s_def)
  obtain r' err where run: "registry_stop_all (\<lambda>i. Some Canceled) r = (r', err)" by fastforce
  then have "err = Some Canceled" by (auto simp: registry_stop_all_def r_def Let_def)
  with stop_all_stops_everything [OF i run] m run show ?thesis by blast
qed

text \<open>A session whose library loop has ended by itself is not marked stopped: the registry keeps
  returning it, its refused pushes leave it as registered as before, and no later call replaces it.\<close>

theorem dead_session_stays_registered:
  assumes "reg_inv r" and "reg_lookup r k = Some i" and "reg_live r i" and "validate_key k = None"
    and "turn_push_build c (Some b) (Some emit) False (rg_heap r ! i) = (s', res)"
    and "r' = r\<lparr>rg_heap := (rg_heap r)[i := s']\<rparr>"
  shows "isl res \<and> get_or_create c' k (Some factory) now r' = (r', Inr i) \<and> reg_live r' i"
proof -
  have "isl res \<and> ts_key s' = ts_key (rg_heap r ! i) \<and> ts_stopped s' = ts_stopped (rg_heap r ! i)"
    using assms(5)
    by (auto simp: turn_push_build_def turn_push_def Let_def touch_def add_active_def split: option.splits if_splits)
  with assms have "isl res" "reg_inv r'" "reg_lookup r' k = Some i" "reg_live r' i"
    by (auto simp: reg_inv_def reg_lookup_def reg_live_def nth_list_update split: prod.splits if_splits)
  with get_or_create_hit assms(4) show ?thesis by blast
qed

theorem dead_session_stays_registered_witness:
  "\<exists>r r'. reg_lookup r key_1 = Some 0 \<and> get_or_create None key_1 (Some agent_ready) 99 r' = (r', Inr 0) \<and>
     fst (turn_push_build None (Some (ask ''q'')) (Some record_all) False (rg_heap r ! 0)) = rg_heap r' ! 0"
proof -
  define s where "s = \<lparr>ts_key = key_1, ts_stopped = False, ts_loop_stops = 0, ts_active = 0, ts_last = 5, ts_now = 5\<rparr>"
  define r where "r = (new_turn_loop_registry 2 10)\<lparr>rg_sessions := [(key_1, 0)], rg_heap := [s]\<rparr>"
  have i: "reg_inv r" "reg_lookup r key_1 = Some 0" "reg_live r 0" "validate_key key_1 = None"
    by (simp_all add: r_def reg_inv_def reg_lookup_def reg_live_def new_turn_loop_registry_def s_def key_1_def
        validate_key_def)
  obtain s' res where p: "turn_push_build None (Some (ask ''q'')) (Some record_all) False (rg_heap r ! 0) = (s', res)"
    by fastforce
  have len: "rg_heap (r\<lparr>rg_heap := (rg_heap r)[0 := s']\<rparr>) ! 0 = s'" by (simp add: r_def)
  from dead_session_stays_registered [OF i p refl, of None agent_ready 99] i(2) p len show ?thesis by fastforce
qed

end
