(* ===== verification/Auth.thy ===== *)
theory Auth
  imports Session_Types
begin

text \<open>
  Local authentication: internal/auth/config.go (configuration from the environment), service.go
  (accounts, login, issuing and validating tokens), middleware.go (the bearer token of a request),
  the login handler of internal/controller/auth/auth.go and the response wrapper of
  utility/middleware/middleware.go.

  The libraries are arguments: \<open>bcrypt_lib\<close> for the password hashes and \<open>jwt_lib\<close> for signing and
  parsing. \<open>jwt_laws\<close> is what their documentation promises: a token that was signed with an accepted
  method parses back to its claims between its not-before and expiry times and is reported expired
  afterwards, it is one word, and whatever parses carries a signature that verifies (\<open>jl_verifies\<close>)
  under the key that the key function gave for an accepted method, names the issuer and has not expired. Times are nanoseconds; a numeric date has
  whole seconds.
\<close>

record local_user =
  lu_username :: string
  lu_password_hash :: string
  lu_user_id :: string
  lu_tenant_id :: string
  lu_roles :: "string list"

record auth_config =
  ac_issuer :: string
  ac_secret :: string
  ac_ttl :: int
  ac_users :: "local_user list"

section \<open>Configuration\<close>

definition add_role :: "string \<Rightarrow> string list \<Rightarrow> string list" where
  "add_role part roles =
     (let role = trim_space part in if role = [] \<or> role \<in> set roles then roles else roles @ [role])"

definition split_roles :: "string \<Rightarrow> string list" where
  "split_roles raw = fold add_role (split_char (CHR '','') raw) []"

definition env_or :: "(string \<Rightarrow> string) \<Rightarrow> string \<Rightarrow> string \<Rightarrow> string" where
  "env_or env name fallback = (let v = trim_space (env name) in if v = [] then fallback else v)"

definition load_auth_config :: "(string \<Rightarrow> int result) \<Rightarrow> (string \<Rightarrow> string) \<Rightarrow> auth_config result" where
  "load_auth_config parse_duration env =
     (let secret = trim_space (env ''SUPERBIZ_JWT_SECRET'');
          password_hash = trim_space (env ''SUPERBIZ_AUTH_PASSWORD_HASH'')
      in if secret = [] \<or> password_hash = []
         then Inl (ErrText ''SUPERBIZ_JWT_SECRET and SUPERBIZ_AUTH_PASSWORD_HASH are required'')
         else
           let raw = trim_space (env ''SUPERBIZ_JWT_TTL'');
               ttl = (if raw = [] then Some (3600 * 1000000000)
                      else case parse_duration raw of Inl _ \<Rightarrow> None | Inr d \<Rightarrow> if d \<le> 0 then None else Some d)
           in case ttl of
                None \<Rightarrow> Inl (ErrText ''SUPERBIZ_JWT_TTL must be a positive duration'')
              | Some t \<Rightarrow>
                  (let split = split_roles (env ''SUPERBIZ_AUTH_ROLES'');
                       roles = (if split = [] then [''operator''] else split)
                   in Inr
                     \<lparr>ac_issuer = ''superbizagent-local'', ac_secret = secret, ac_ttl = t,
                      ac_users =
                        [\<lparr>lu_username = env_or env ''SUPERBIZ_AUTH_USERNAME'' ''admin'',
                          lu_password_hash = password_hash,
                          lu_user_id = env_or env ''SUPERBIZ_AUTH_USER_ID'' ''local-admin'',
                          lu_tenant_id = env_or env ''SUPERBIZ_AUTH_TENANT_ID'' ''local-tenant'',
                          lu_roles = roles\<rparr>]\<rparr>))"

section \<open>The service\<close>

record bcrypt_lib =
  bc_compare :: "string \<Rightarrow> string \<Rightarrow> go_error option"
  bc_cost :: "string \<Rightarrow> int result"

definition mismatched_hash :: go_error where
  "mismatched_hash = ErrExternal ''crypto/bcrypt: hashedPassword is not the hash of the given password''"

record jwt_claims =
  jc_tenant_id :: string
  jc_username :: string
  jc_roles :: "string list"
  jc_issuer :: string
  jc_subject :: string
  jc_id :: string
  jc_issued_at :: int
  jc_not_before :: int
  jc_expires_at :: int

text \<open>The result of \<open>ParseWithClaims\<close>: claims with the \<open>Valid\<close> flag, or an error that is the expiry or not.\<close>

datatype parse_outcome = Parsed jwt_claims bool | ParseFailed bool string

record jwt_lib =
  jl_sign :: "string \<Rightarrow> string \<Rightarrow> jwt_claims \<Rightarrow> string result"
  jl_verifies :: "string \<Rightarrow> string \<Rightarrow> string \<Rightarrow> bool"
  jl_parse :: "(string \<Rightarrow> string result) \<Rightarrow> string \<Rightarrow> string list \<Rightarrow> int \<Rightarrow> string \<Rightarrow> parse_outcome"

record auth_service =
  as_issuer :: string
  as_secret :: string
  as_ttl :: int
  as_users :: "string \<rightharpoonup> local_user"

definition check_password_hash :: "bcrypt_lib \<Rightarrow> local_user \<Rightarrow> go_error option" where
  "check_password_hash bc u =
     (case bc_compare bc (lu_password_hash u) ''validation-only'' of
        None \<Rightarrow> None
      | Some e \<Rightarrow>
          if errors_is e mismatched_hash then
            (case bc_cost bc (lu_password_hash u) of
               Inl parse_err \<Rightarrow> Some (ErrWrap ''invalid password hash for user'' parse_err)
             | Inr _ \<Rightarrow> None)
          else Some (ErrWrap ''invalid password hash for user'' e))"

fun add_users :: "bcrypt_lib \<Rightarrow> local_user list \<Rightarrow> (string \<rightharpoonup> local_user) \<Rightarrow> (string \<rightharpoonup> local_user) result" where
  "add_users bc [] users = Inr users"
| "add_users bc (u # us) users =
     (if trim_space (lu_username u) = [] \<or> lu_user_id u = [] \<or> lu_tenant_id u = []
      then Inl (ErrText ''local user username, user id, and tenant id are required'')
      else if users (lu_username u) \<noteq> None then Inl (ErrText (''duplicate local user '' @ lu_username u))
      else case check_password_hash bc u of
             Some e \<Rightarrow> Inl e
           | None \<Rightarrow> add_users bc us (users(lu_username u \<mapsto> u)))"

definition new_auth_service :: "bcrypt_lib \<Rightarrow> auth_config \<Rightarrow> auth_service result" where
  "new_auth_service bc cfg =
     (if trim_space (ac_issuer cfg) = [] then Inl (ErrText ''auth issuer is required'')
      else if length (ac_secret cfg) < 32 then Inl (ErrText ''auth secret must be at least 32 characters'')
      else if ac_ttl cfg \<le> 0 then Inl (ErrText ''access token ttl must be positive'')
      else case add_users bc (ac_users cfg) Map.empty of
             Inl e \<Rightarrow> Inl e
           | Inr users \<Rightarrow>
               Inr \<lparr>as_issuer = ac_issuer cfg, as_secret = ac_secret cfg, as_ttl = ac_ttl cfg, as_users = users\<rparr>)"

definition numeric_date :: "int \<Rightarrow> int" where
  "numeric_date t = t div 1000000000 * 1000000000"

definition claims_of :: "auth_service \<Rightarrow> principal \<Rightarrow> string \<Rightarrow> int \<Rightarrow> jwt_claims" where
  "claims_of s p jti now =
     \<lparr>jc_tenant_id = p_tenant_id p, jc_username = p_username p, jc_roles = p_roles p,
      jc_issuer = as_issuer s, jc_subject = p_user_id p, jc_id = jti,
      jc_issued_at = numeric_date now, jc_not_before = numeric_date now,
      jc_expires_at = numeric_date (now + as_ttl s)\<rparr>"

definition issue_token :: "jwt_lib \<Rightarrow> auth_service \<Rightarrow> principal \<Rightarrow> string result \<Rightarrow> int \<Rightarrow> string result" where
  "issue_token jl s p random_id now =
     (case random_id of
        Inl e \<Rightarrow> Inl (ErrWrap ''generate token id: '' e)
      | Inr jti \<Rightarrow> jl_sign jl ''HS256'' (as_secret s) (claims_of s p jti now))"

definition auth_issue :: "jwt_lib \<Rightarrow> auth_service \<Rightarrow> principal \<Rightarrow> string result \<Rightarrow> int \<Rightarrow> string result" where
  "auth_issue jl s p random_id now =
     (if p_user_id p = [] \<or> p_tenant_id p = [] \<or> p_username p = []
      then Inl (ErrText ''principal user id, tenant id, and username are required'')
      else issue_token jl s p random_id now)"

definition user_principal :: "local_user \<Rightarrow> principal" where
  "user_principal u =
     \<lparr>p_user_id = lu_user_id u, p_tenant_id = lu_tenant_id u, p_username = lu_username u, p_roles = lu_roles u\<rparr>"

definition auth_login ::
  "bcrypt_lib \<Rightarrow> jwt_lib \<Rightarrow> auth_service \<Rightarrow> string \<Rightarrow> string \<Rightarrow> string result \<Rightarrow> int \<Rightarrow> (principal \<times> string) result" where
  "auth_login bc jl s username password random_id now =
     (case as_users s username of
        None \<Rightarrow> Inl ErrInvalidCredentials
      | Some u \<Rightarrow>
          if bc_compare bc (lu_password_hash u) password \<noteq> None then Inl ErrInvalidCredentials
          else case issue_token jl s (user_principal u) random_id now of
                 Inl e \<Rightarrow> Inl e
               | Inr token \<Rightarrow> Inr (user_principal u, token))"

definition token_key :: "auth_service \<Rightarrow> string \<Rightarrow> string result" where
  "token_key s alg = (if alg \<noteq> ''HS256'' then Inl ErrInvalidToken else Inr (as_secret s))"

definition auth_validate :: "jwt_lib \<Rightarrow> auth_service \<Rightarrow> int \<Rightarrow> string \<Rightarrow> principal result" where
  "auth_validate jl s now raw_token =
     (let raw = trim_space raw_token
      in if raw = [] then Inl ErrInvalidToken
         else case jl_parse jl (token_key s) (as_issuer s) [''HS256''] now raw of
                ParseFailed expired msg \<Rightarrow> Inl (if expired then ErrTokenExpired else ErrWrap msg ErrInvalidToken)
              | Parsed c valid \<Rightarrow>
                  if \<not> valid \<or> jc_subject c = [] \<or> jc_tenant_id c = [] \<or> jc_username c = []
                  then Inl ErrInvalidToken
                  else Inr \<lparr>p_user_id = jc_subject c, p_tenant_id = jc_tenant_id c, p_username = jc_username c,
                            p_roles = jc_roles c\<rparr>)"

section \<open>HTTP\<close>

definition bearer_token :: "string \<Rightarrow> string option" where
  "bearer_token header =
     (case str_fields header of
        [scheme, token] \<Rightarrow> if \<not> equal_fold scheme ''Bearer'' \<or> token = [] then None else Some token
      | _ \<Rightarrow> None)"

text \<open>The request either ends with a 401 and its text or goes on with a new context.\<close>

datatype auth_verdict = Unauthorized string | Proceed ctx

definition auth_middleware :: "jwt_lib \<Rightarrow> auth_service \<Rightarrow> int \<Rightarrow> string \<Rightarrow> ctx \<Rightarrow> auth_verdict" where
  "auth_middleware jl s now header c =
     (case bearer_token header of
        None \<Rightarrow> Unauthorized ''missing or invalid bearer token''
      | Some token \<Rightarrow>
          (case auth_validate jl s now token of
             Inl e \<Rightarrow>
               if errors_is e ErrTokenExpired \<or> errors_is e ErrInvalidToken
               then Unauthorized ''invalid or expired token''
               else Unauthorized ''authentication failed''
           | Inr p \<Rightarrow> Proceed (with_principal c p)))"

record login_response =
  lr_access_token :: string
  lr_token_type :: string
  lr_expires_in :: int
  lr_user_id :: string
  lr_tenant_id :: string

definition login_handler ::
  "bcrypt_lib \<Rightarrow> jwt_lib \<Rightarrow> auth_service \<Rightarrow> (string \<times> string) option \<Rightarrow> string result \<Rightarrow> int \<Rightarrow> login_response result" where
  "login_handler bc jl s req random_id now =
     (case req of
        None \<Rightarrow> Inl (ErrText ''login request is required'')
      | Some (username, password) \<Rightarrow>
          (case auth_login bc jl s username password random_id now of
             Inl e \<Rightarrow> Inl e
           | Inr (p, token) \<Rightarrow>
               Inr \<lparr>lr_access_token = token, lr_token_type = ''Bearer'', lr_expires_in = as_ttl s div 1000000000,
                    lr_user_id = p_user_id p, lr_tenant_id = p_tenant_id p\<rparr>))"

text \<open>The JSON wrapper: none for an event stream, otherwise the message and the handler's result.\<close>

definition response_middleware :: "string \<Rightarrow> string option \<Rightarrow> 'res \<Rightarrow> (string \<times> 'res) option" where
  "response_middleware content_type err res =
     (if prefix ''text/event-stream'' (to_lower content_type) then None
      else Some (case err of Some msg \<Rightarrow> msg | None \<Rightarrow> ''OK'', res))"

section \<open>Laws of the token library\<close>

definition jwt_laws :: "jwt_lib \<Rightarrow> bool" where
  "jwt_laws jl \<longleftrightarrow>
     (\<forall>alg key c token key_of issuer methods now.
        jl_sign jl alg key c = Inr token \<longrightarrow> alg \<in> set methods \<longrightarrow> key_of alg = Inr key \<longrightarrow> jc_issuer c = issuer \<longrightarrow>
        jc_not_before c \<le> now \<longrightarrow>
        (now < jc_expires_at c \<longrightarrow> jl_parse jl key_of issuer methods now token = Parsed c True) \<and>
        (jc_expires_at c \<le> now \<longrightarrow> (\<exists>msg. jl_parse jl key_of issuer methods now token = ParseFailed True msg))) \<and>
     (\<forall>alg key c token. jl_sign jl alg key c = Inr token \<longrightarrow>
        token \<noteq> [] \<and> trim_space token = token \<and> str_fields (''Bearer '' @ token) = [''Bearer'', token]) \<and>
     (\<forall>key_of issuer methods now token c.
        jl_parse jl key_of issuer methods now token = Parsed c True \<longrightarrow>
        (\<exists>alg key. alg \<in> set methods \<and> key_of alg = Inr key \<and> jl_verifies jl alg key token) \<and>
        jc_issuer c = issuer \<and> now < jc_expires_at c)"

lemma jwt_lawsD:
  assumes "jwt_laws jl" and "jl_sign jl alg key c = Inr token"
  shows "alg \<in> set methods \<Longrightarrow> key_of alg = Inr key \<Longrightarrow> jc_issuer c = issuer \<Longrightarrow> jc_not_before c \<le> now \<Longrightarrow>
      now < jc_expires_at c \<Longrightarrow> jl_parse jl key_of issuer methods now token = Parsed c True"
    and "alg \<in> set methods \<Longrightarrow> key_of alg = Inr key \<Longrightarrow> jc_issuer c = issuer \<Longrightarrow> jc_not_before c \<le> now \<Longrightarrow>
      jc_expires_at c \<le> now \<Longrightarrow> \<exists>msg. jl_parse jl key_of issuer methods now token = ParseFailed True msg"
    and "token \<noteq> []" "trim_space token = token" "str_fields (''Bearer '' @ token) = [''Bearer'', token]"
  using assms unfolding jwt_laws_def by blast+

lemma jwt_sound:
  assumes "jwt_laws jl" and "jl_parse jl key_of issuer methods now token = Parsed c True"
  shows "\<exists>alg key. alg \<in> set methods \<and> key_of alg = Inr key \<and> jl_verifies jl alg key token"
    and "jc_issuer c = issuer" "now < jc_expires_at c"
  using assms unfolding jwt_laws_def by blast+

section \<open>Lemmas\<close>

lemma add_role_set: "set (add_role part roles) = set roles \<union> ({trim_space part} - {[]})"
  by (auto simp: add_role_def Let_def)

lemma fold_add_role_set:
  "set (fold add_role parts roles) = set roles \<union> (trim_space ` set parts - {[]})"
  by (induction parts arbitrary: roles) (auto simp: add_role_set)

lemma fold_add_role_distinct: "distinct roles \<Longrightarrow> distinct (fold add_role parts roles)"
  by (induction parts arbitrary: roles) (auto simp: add_role_def Let_def)

definition users_ok :: "(string \<rightharpoonup> local_user) \<Rightarrow> bool" where
  "users_ok users \<longleftrightarrow>
     (\<forall>name u. users name = Some u \<longrightarrow>
        lu_username u = name \<and> trim_space name \<noteq> [] \<and> lu_user_id u \<noteq> [] \<and> lu_tenant_id u \<noteq> [])"

lemma add_users_Cons:
  assumes "add_users bc (u # us) users = Inr users'"
  shows "add_users bc us (users(lu_username u \<mapsto> u)) = Inr users'" "users (lu_username u) = None"
    "trim_space (lu_username u) \<noteq> []" "lu_user_id u \<noteq> []" "lu_tenant_id u \<noteq> []"
  using assms by (auto split: if_splits option.splits)

lemma add_users_ok: "add_users bc us users = Inr users' \<Longrightarrow> users_ok users \<Longrightarrow> users_ok users'"
proof (induction us arbitrary: users)
  case (Cons u us)
  note step = add_users_Cons [OF Cons.prems(1)]
  have "users_ok (users(lu_username u \<mapsto> u))" using Cons.prems(2) step(3-5) by (simp add: users_ok_def)
  with Cons.IH step(1) show ?case by blast
qed simp

lemma add_users_complete:
  "add_users bc us users = Inr users' \<Longrightarrow>
   (\<forall>u \<in> set us. users' (lu_username u) = Some u) \<and> (\<forall>name u. users name = Some u \<longrightarrow> users' name = Some u)"
proof (induction us arbitrary: users)
  case (Cons u us)
  note step = add_users_Cons [OF Cons.prems(1)]
  from Cons.IH [OF step(1)] step(2) show ?case by (auto split: if_splits) (metis option.distinct(1))
qed simp

lemma new_auth_service_ok:
  assumes "new_auth_service bc cfg = Inr s"
  shows "users_ok (as_users s) \<and> 0 < as_ttl s \<and> 32 \<le> length (as_secret s) \<and> as_issuer s = ac_issuer cfg \<and>
    (\<forall>u \<in> set (ac_users cfg). as_users s (lu_username u) = Some u)"
proof -
  obtain users where u: "add_users bc (ac_users cfg) Map.empty = Inr users"
    and s: "s = \<lparr>as_issuer = ac_issuer cfg, as_secret = ac_secret cfg, as_ttl = ac_ttl cfg, as_users = users\<rparr>"
      "0 < ac_ttl cfg" "32 \<le> length (ac_secret cfg)"
    using assms by (auto simp: new_auth_service_def split: if_splits sum.splits)
  have "users_ok Map.empty" by (simp add: users_ok_def)
  with add_users_ok [OF u] add_users_complete [OF u] s show ?thesis by simp
qed

lemma auth_validate_ok:
  assumes "auth_validate jl s now raw = Inr p"
  shows "\<exists>c. jl_parse jl (token_key s) (as_issuer s) [''HS256''] now (trim_space raw) = Parsed c True \<and>
    p = \<lparr>p_user_id = jc_subject c, p_tenant_id = jc_tenant_id c, p_username = jc_username c, p_roles = jc_roles c\<rparr> \<and>
    p_user_id p \<noteq> [] \<and> p_tenant_id p \<noteq> [] \<and> p_username p \<noteq> []"
  using assms by (auto simp: auth_validate_def Let_def split: if_splits parse_outcome.splits)

lemma auth_validate_errors:
  assumes "auth_validate jl s now raw = Inl e"
  shows "errors_is e ErrTokenExpired \<or> errors_is e ErrInvalidToken"
  using assms by (auto simp: auth_validate_def Let_def split: if_splits parse_outcome.splits)

lemma bearer_prefix: "str_fields (''Bearer '' @ token) = [''Bearer'', token] \<Longrightarrow> token \<noteq> [] \<Longrightarrow>
    bearer_token (''Bearer '' @ token) = Some token"
  by (simp add: bearer_token_def)

section \<open>Properties\<close>

text \<open>(C16) Login, issue and validate agree: the token of a login, sent back as a bearer token, is accepted
  from the moment it was issued until its expiry and puts exactly the principal of the login, its roles
  included, into the request context; from the expiry on it is refused.\<close>

theorem login_token_authenticates:
  assumes "jwt_laws jl" and "new_auth_service bc cfg = Inr s"
    and "auth_login bc jl s username password random_id t = Inr (p, token)"
    and "t \<le> now"
  shows "(if now < numeric_date (t + as_ttl s)
     then auth_middleware jl s now (''Bearer '' @ token) c = Proceed (with_principal c p)
     else auth_middleware jl s now (''Bearer '' @ token) c = Unauthorized ''invalid or expired token'') \<and>
    p_username p = username \<and> p_user_id p \<noteq> [] \<and> p_tenant_id p \<noteq> []"
proof -
  obtain u jti where u: "as_users s username = Some u" "p = user_principal u"
    and sign: "jl_sign jl ''HS256'' (as_secret s) (claims_of s p jti t) = Inr token"
    using assms(3) by (auto simp: auth_login_def issue_token_def split: option.splits if_splits sum.splits)
  have ok: "lu_username u = username" "trim_space username \<noteq> []" "lu_user_id u \<noteq> []" "lu_tenant_id u \<noteq> []"
    using new_auth_service_ok [OF assms(2)] u(1) by (auto simp: users_ok_def)
  then have p: "p_username p = username" "p_user_id p \<noteq> []" "p_tenant_id p \<noteq> []" "p_username p \<noteq> []"
    by (auto simp: u(2) user_principal_def)
  note laws = jwt_lawsD [OF assms(1) sign]
  have bearer: "bearer_token (''Bearer '' @ token) = Some token" using laws(3,5) by (rule bearer_prefix [rotated])
  have key: "token_key s ''HS256'' = Inr (as_secret s)" by (simp add: token_key_def)
  have nbf: "jc_not_before (claims_of s p jti t) \<le> now"
    using assms(4) div_mult_mod_eq [of t 1000000000] pos_mod_sign [of 1000000000 t]
    by (simp add: claims_of_def numeric_date_def)
  have iss: "jc_issuer (claims_of s p jti t) = as_issuer s" by (simp add: claims_of_def)
  show ?thesis
  proof (cases "now < numeric_date (t + as_ttl s)")
    case True
    then have "now < jc_expires_at (claims_of s p jti t)" by (simp add: claims_of_def)
    from laws(1) [where methods = "[''HS256'']" and key_of = "token_key s", OF _ key iss nbf this]
    have "auth_validate jl s now token = Inr p"
      using laws(3,4) p by (simp add: auth_validate_def Let_def claims_of_def)
    then show ?thesis using True bearer p by (simp add: auth_middleware_def)
  next
    case False
    then have "jc_expires_at (claims_of s p jti t) \<le> now" by (simp add: claims_of_def)
    from laws(2) [where methods = "[''HS256'']" and key_of = "token_key s", OF _ key iss nbf this]
    have "auth_validate jl s now token = Inl ErrTokenExpired"
      using laws(3,4) by (auto simp: auth_validate_def Let_def)
    then show ?thesis using False bearer p by (simp add: auth_middleware_def)
  qed
qed

text \<open>A request gets past the middleware only with a bearer token that verifies under the service's
  secret with HS256, names its issuer and has not expired; the principal it gets is complete. Every
  other request ends with one of two 401 texts: the third text of the source is never sent.\<close>

lemma middleware_guards:
  assumes "jwt_laws jl"
  shows "case auth_middleware jl s now header c of
      Proceed c' \<Rightarrow> \<exists>token p. bearer_token header = Some token \<and>
        jl_verifies jl ''HS256'' (as_secret s) (trim_space token) \<and> c' = with_principal c p \<and>
        p_user_id p \<noteq> [] \<and> p_tenant_id p \<noteq> [] \<and> p_username p \<noteq> []
    | Unauthorized body \<Rightarrow> body \<in> {''missing or invalid bearer token'', ''invalid or expired token''}"
proof (cases "bearer_token header")
  case None
  then show ?thesis by (simp add: auth_middleware_def)
next
  case (Some token)
  show ?thesis
  proof (cases "auth_validate jl s now token")
    case (Inl e)
    then show ?thesis using Some auth_validate_errors [OF Inl] by (auto simp: auth_middleware_def)
  next
    case (Inr p)
    from auth_validate_ok [OF Inr] obtain cl where
      "jl_parse jl (token_key s) (as_issuer s) [''HS256''] now (trim_space token) = Parsed cl True"
      and p: "p_user_id p \<noteq> []" "p_tenant_id p \<noteq> []" "p_username p \<noteq> []" by blast
    from jwt_sound(1) [OF assms this(1)]
    have "jl_verifies jl ''HS256'' (as_secret s) (trim_space token)" by (auto simp: token_key_def split: if_splits)
    with Some Inr p show ?thesis by (auto simp: auth_middleware_def)
  qed
qed

text \<open>\<open>splitRoles\<close> keeps every role of the list once, trimmed and non-empty, and
  nothing else.\<close>

theorem split_roles_correct:
  "distinct (split_roles raw) \<and> set (split_roles raw) = trim_space ` set (split_char (CHR '','') raw) - {[]}"
  by (simp add: split_roles_def fold_add_role_distinct fold_add_role_set)

text \<open>A configuration that loads is complete: a positive lifetime, one account with a password hash,
  a user and a tenant ID, and at least one role, all of them trimmed non-empty strings; with a secret of
  32 bytes and a well-formed hash the service starts on it.\<close>

theorem loaded_config_starts_service:
  assumes "load_auth_config parse_duration env = Inr cfg"
    and "32 \<le> length (ac_secret cfg)"
    and "\<forall>u \<in> set (ac_users cfg). check_password_hash bc u = None"
  shows "0 < ac_ttl cfg \<and> (\<exists>u s. ac_users cfg = [u] \<and> lu_roles u \<noteq> [] \<and> distinct (lu_roles u) \<and>
    new_auth_service bc cfg = Inr s \<and> as_users s (lu_username u) = Some u \<and> users_ok (as_users s))"
proof -
  have admin: "trim_space ''admin'' \<noteq> []" and issuer: "trim_space ''superbizagent-local'' \<noteq> []" by code_simp+
  have env: "fb \<noteq> [] \<Longrightarrow> env_or env name fb \<noteq> []"
    "trim_space fb \<noteq> [] \<Longrightarrow> trim_space (env_or env name fb) \<noteq> []" for name fb
    by (auto simp: env_or_def Let_def)
  obtain u where u: "ac_users cfg = [u]" "lu_roles u \<noteq> []" "distinct (lu_roles u)"
    "trim_space (lu_username u) \<noteq> []" "lu_user_id u \<noteq> []" "lu_tenant_id u \<noteq> []"
    and cfg: "0 < ac_ttl cfg" "ac_issuer cfg = ''superbizagent-local''"
    using assms(1) env(1) env(2) [OF admin] split_roles_correct [of "env ''SUPERBIZ_AUTH_ROLES''"]
    by (auto simp: load_auth_config_def Let_def split: if_splits sum.splits)
  have check: "check_password_hash bc u = None" using assms(3) u(1) by simp
  obtain s where s: "new_auth_service bc cfg = Inr s" "as_users s (lu_username u) = Some u"
    using assms(2) u cfg check issuer by (simp add: new_auth_service_def)
  with new_auth_service_ok [OF s(1)] u(1-3) cfg(1) show ?thesis by blast
qed

section \<open>Samples\<close>

text \<open>
  A password library that stores the password behind a mark, and a token library that can sign one
  set of claims.
\<close>

definition plain_bcrypt :: bcrypt_lib where
  "plain_bcrypt =
     \<lparr>bc_compare = (\<lambda>hash password.
        case hash of c # pw \<Rightarrow> if c = CHR ''$'' then (if pw = password then None else Some mismatched_hash)
                                else Some (ErrExternal ''bad hash'')
                   | [] \<Rightarrow> Some (ErrExternal ''short hash'')),
      bc_cost = (\<lambda>hash. Inr 4)\<rparr>"

definition the_claims :: jwt_claims where
  "the_claims =
     \<lparr>jc_tenant_id = ''tenant-acme'', jc_username = ''alice'', jc_roles = [''operator''],
      jc_issuer = ''superbizagent-local'', jc_subject = ''user-alice'', jc_id = ''00'',
      jc_issued_at = 5000000000, jc_not_before = 5000000000, jc_expires_at = 8000000000\<rparr>"

definition the_secret :: string where
  "the_secret = ''local-development-secret-that-is-long-enough''"

definition one_token_jwt :: jwt_lib where
  "one_token_jwt =
     \<lparr>jl_sign = (\<lambda>alg key c.
        if alg = ''HS256'' \<and> key = the_secret \<and> c = the_claims then Inr ''aa.bb.cc'' else Inl (ErrExternal ''sign'')),
      jl_verifies = (\<lambda>alg key token. alg = ''HS256'' \<and> key = the_secret \<and> token = ''aa.bb.cc''),
      jl_parse = (\<lambda>key_of issuer methods now token.
        if token = ''aa.bb.cc'' \<and> ''HS256'' \<in> set methods \<and> key_of ''HS256'' = Inr the_secret \<and>
           issuer = jc_issuer the_claims \<and> jc_not_before the_claims \<le> now
        then if now < jc_expires_at the_claims then Parsed the_claims True
             else ParseFailed True ''token is expired''
        else ParseFailed False ''token is malformed'')\<rparr>"

lemma one_token_laws: "jwt_laws one_token_jwt"
proof -
  have t: "trim_space ''aa.bb.cc'' = ''aa.bb.cc''" "str_fields ''Bearer aa.bb.cc'' = [''Bearer'', ''aa.bb.cc'']"
    by code_simp+
  show ?thesis
    unfolding jwt_laws_def using t by (auto simp: one_token_jwt_def split: if_splits)
qed

definition alice_config :: auth_config where
  "alice_config =
     \<lparr>ac_issuer = ''superbizagent-local'', ac_secret = the_secret, ac_ttl = 3000000000,
      ac_users = [\<lparr>lu_username = ''alice'', lu_password_hash = ''$correct-password'', lu_user_id = ''user-alice'',
                   lu_tenant_id = ''tenant-acme'', lu_roles = [''operator'']\<rparr>]\<rparr>"

theorem login_token_authenticates_witness:
  "\<exists>s p token. new_auth_service plain_bcrypt alice_config = Inr s \<and>
     auth_login plain_bcrypt one_token_jwt s ''alice'' ''correct-password'' (Inr ''00'') 5400000000 = Inr (p, token) \<and>
     auth_middleware one_token_jwt s 7999999999 (''Bearer '' @ token) background = Proceed (with_principal background p) \<and>
     auth_middleware one_token_jwt s 8000000000 (''Bearer '' @ token) background =
       Unauthorized ''invalid or expired token''"
proof -
  have ne: "trim_space ''superbizagent-local'' \<noteq> []" "trim_space ''alice'' \<noteq> []" by code_simp+
  define s where "s = \<lparr>as_issuer = ''superbizagent-local'', as_secret = the_secret, as_ttl = 3000000000,
      as_users = [''alice'' \<mapsto> hd (ac_users alice_config)]\<rparr>"
  have s: "new_auth_service plain_bcrypt alice_config = Inr s"
    using ne by (simp add: new_auth_service_def alice_config_def the_secret_def check_password_hash_def
        plain_bcrypt_def mismatched_hash_def s_def)
  have f: "as_secret s = the_secret" "as_ttl s = 3000000000" "as_issuer s = ''superbizagent-local''"
      "as_users s = [''alice'' \<mapsto> hd (ac_users alice_config)]" by (simp_all add: s_def)
  obtain p token where l: "auth_login plain_bcrypt one_token_jwt s ''alice'' ''correct-password'' (Inr ''00'') 5400000000 =
      Inr (p, token)"
    by (simp add: auth_login_def f alice_config_def plain_bcrypt_def issue_token_def one_token_jwt_def claims_of_def
        user_principal_def numeric_date_def the_claims_def)
  have "numeric_date (5400000000 + as_ttl s) = 8000000000" by (simp add: f numeric_date_def)
  with login_token_authenticates [OF one_token_laws s l, of 7999999999 background]
    login_token_authenticates [OF one_token_laws s l, of 8000000000 background] s l show ?thesis by auto
qed

definition alice_env :: "string \<Rightarrow> string" where
  "alice_env name =
     (if name = ''SUPERBIZ_JWT_SECRET'' then the_secret
      else if name = ''SUPERBIZ_AUTH_PASSWORD_HASH'' then ''$pw''
      else if name = ''SUPERBIZ_AUTH_ROLES'' then '' operator,,admin , operator'' else [])"

theorem loaded_config_starts_service_witness:
  "\<exists>cfg u s. load_auth_config (\<lambda>raw. Inl (ErrText raw)) alice_env = Inr cfg \<and> ac_users cfg = [u] \<and>
     lu_roles u = [''operator'', ''admin''] \<and> new_auth_service plain_bcrypt cfg = Inr s"
proof -
  have "load_auth_config (\<lambda>raw. Inl (ErrText raw)) alice_env = Inr
      \<lparr>ac_issuer = ''superbizagent-local'', ac_secret = the_secret, ac_ttl = 3600000000000,
       ac_users = [\<lparr>lu_username = ''admin'', lu_password_hash = ''$pw'', lu_user_id = ''local-admin'',
          lu_tenant_id = ''local-tenant'', lu_roles = [''operator'', ''admin'']\<rparr>]\<rparr>"
    by code_simp
  then obtain cfg where c: "load_auth_config (\<lambda>raw. Inl (ErrText raw)) alice_env = Inr cfg"
    and f: "ac_secret cfg = the_secret" "ac_users cfg = [\<lparr>lu_username = ''admin'', lu_password_hash = ''$pw'',
      lu_user_id = ''local-admin'', lu_tenant_id = ''local-tenant'', lu_roles = [''operator'', ''admin'']\<rparr>]" by simp
  have "32 \<le> length (ac_secret cfg)" by (simp add: f the_secret_def)
  moreover have "\<forall>u \<in> set (ac_users cfg). check_password_hash plain_bcrypt u = None"
    by (simp add: f check_password_hash_def plain_bcrypt_def mismatched_hash_def)
  ultimately show ?thesis using loaded_config_starts_service [OF c] c f(2) by fastforce
qed

text \<open>A failed login does not tell an unknown account from a wrong password, and issues no token.\<close>

theorem login_failures_alike:
  assumes "as_users s name = None" and "as_users s name' = Some u" and "bc_compare bc (lu_password_hash u) pw \<noteq> None"
  shows "login_handler bc jl s (Some (name, pw')) rnd now = Inl ErrInvalidCredentials \<and>
    login_handler bc jl s (Some (name', pw)) rnd now = Inl ErrInvalidCredentials"
  using assms by (auto simp: login_handler_def auth_login_def)

theorem login_failures_alike_witness:
  "login_handler plain_bcrypt one_token_jwt
     \<lparr>as_issuer = ''i'', as_secret = the_secret, as_ttl = 1, as_users = [''alice'' \<mapsto> hd (ac_users alice_config)]\<rparr>
     (Some (''alice'', ''x'')) (Inr ''00'') 0 = Inl ErrInvalidCredentials"
proof -
  let ?s = "\<lparr>as_issuer = ''i'', as_secret = the_secret, as_ttl = 1, as_users = [''alice'' \<mapsto> hd (ac_users alice_config)]\<rparr>"
  have "as_users ?s ''bob'' = None" "as_users ?s ''alice'' = Some (hd (ac_users alice_config))"
    "bc_compare plain_bcrypt (lu_password_hash (hd (ac_users alice_config))) ''x'' \<noteq> None"
    by (simp_all add: alice_config_def plain_bcrypt_def)
  from login_failures_alike [OF this] show ?thesis by blast
qed

lemma middleware_guards_witness:
  "\<exists>body. auth_middleware one_token_jwt
     \<lparr>as_issuer = ''superbizagent-local'', as_secret = the_secret, as_ttl = 1, as_users = Map.empty\<rparr>
     6000000000 ''Basic aa.bb.cc'' background = Unauthorized body \<and>
     body \<in> {''missing or invalid bearer token'', ''invalid or expired token''}"
proof -
  let ?s = "\<lparr>as_issuer = ''superbizagent-local'', as_secret = the_secret, as_ttl = 1, as_users = Map.empty\<rparr>"
  have "bearer_token ''Basic aa.bb.cc'' = None" by code_simp
  then obtain body where "auth_middleware one_token_jwt ?s 6000000000 ''Basic aa.bb.cc'' background = Unauthorized body"
    by (simp add: auth_middleware_def)
  with middleware_guards [where s = ?s and now = 6000000000 and header = "''Basic aa.bb.cc''" and c = background,
      OF one_token_laws] show ?thesis by simp
qed

end
