(* ===== verification/Tool_Policy.thy ===== *)
theory Tool_Policy
  imports Auth
begin

text \<open>
  The agent's tools: the access policy every tool is wrapped with (internal/ai/tools/policy.go), the
  read-only SQL tool (mysql_crud.go), the document tool
  (query_internal_docs.go), the MCP client (query_log.go) and the assembly of the agent that registers
  them (internal/ai/agent/chat_pipeline/flow.go).

  A tool that the library calls is a record of two functions; \<open>'w\<close> is whatever state running it
  changes. Calls into libraries and services are arguments. The last section follows what becomes of
  the MCP client when the assembly fails: Go assigns the named results before it runs the deferred
  functions, so the deferred \<open>closer.Close()\<close> sees the returned closer.
\<close>

section \<open>The policy\<close>

record tool_policy =
  tp_tenants :: "string list"
  tp_roles :: "string list"
  tp_require_principal :: bool

record 'w invokable =
  iv_info :: "string result"
  iv_run :: "ctx \<Rightarrow> string \<Rightarrow> ('w, string) op"

datatype 'w base_tool = Invokable "'w invokable" | NotInvokable "string result"

record 'w policy_tool =
  pt_name :: string
  pt_delegate :: "'w invokable"
  pt_policy :: tool_policy

fun contains :: "string list \<Rightarrow> string \<Rightarrow> bool" where
  "contains [] target = False"
| "contains (v # vs) target = (if v = target then True else contains vs target)"

fun any_role :: "string list \<Rightarrow> string list \<Rightarrow> bool" where
  "any_role allowed [] = False"
| "any_role allowed (r # rs) = (if contains allowed r then True else any_role allowed rs)"

definition tool_allowed :: "ctx \<Rightarrow> tool_policy \<Rightarrow> bool" where
  "tool_allowed c policy =
     (case principal_from_context c of
        None \<Rightarrow> False
      | Some p \<Rightarrow>
          if p_tenant_id p = [] \<or> p_user_id p = [] then False
          else if tp_tenants policy \<noteq> [] \<and> \<not> contains (tp_tenants policy) (p_tenant_id p) then False
          else if tp_roles policy = [] then True
          else any_role (tp_roles policy) (p_roles p))"

definition wrap_tool :: "string \<Rightarrow> 'w base_tool option \<Rightarrow> tool_policy \<Rightarrow> 'w policy_tool result" where
  "wrap_tool name base policy =
     (case base of
        None \<Rightarrow> Inl (ErrText ''tool is required'')
      | Some (NotInvokable _) \<Rightarrow> Inl (ErrText (''tool is not invokable: '' @ name))
      | Some (Invokable iv) \<Rightarrow> Inr \<lparr>pt_name = name, pt_delegate = iv, pt_policy = policy\<rparr>)"

definition policy_info :: "'w policy_tool \<Rightarrow> string result" where
  "policy_info t = iv_info (pt_delegate t)"

definition policy_run :: "'w policy_tool \<Rightarrow> ctx \<Rightarrow> string \<Rightarrow> ('w, string) op" where
  "policy_run t c args w =
     (if \<not> tool_allowed c (pt_policy t) then (w, Inl (ErrWrap (pt_name t) ErrToolDenied))
      else iv_run (pt_delegate t) c args w)"

lemma contains_iff [simp]: "contains vs target \<longleftrightarrow> target \<in> set vs"
  by (induction vs) auto

lemma any_role_iff [simp]: "any_role allowed rs \<longleftrightarrow> set allowed \<inter> set rs \<noteq> {}"
  by (induction rs) auto

lemma tool_allowed_iff:
  "tool_allowed c policy \<longleftrightarrow>
     (\<exists>p. principal_from_context c = Some p \<and> p_tenant_id p \<noteq> [] \<and> p_user_id p \<noteq> [] \<and>
        (tp_tenants policy = [] \<or> p_tenant_id p \<in> set (tp_tenants policy)) \<and>
        (tp_roles policy = [] \<or> set (tp_roles policy) \<inter> set (p_roles p) \<noteq> {}))"
  by (auto simp: tool_allowed_def split: option.splits)

section \<open>The SQL tool\<close>

definition validate_read_only_sql :: "string \<Rightarrow> go_error option" where
  "validate_read_only_sql sql =
     (let query = trim_space sql
      in if query = [] \<or> CHR '';'' \<in> set query then Some ErrMysqlSQLInvalid
         else case str_fields (to_upper query) of
                [] \<Rightarrow> Some ErrMysqlSQLInvalid
              | word # _ \<Rightarrow>
                  if word = ''SELECT'' \<or> word = ''SHOW'' \<or> word = ''DESCRIBE'' \<or> word = ''DESC'' \<or> word = ''EXPLAIN''
                  then None else Some ErrMysqlWriteDenied)"

record mysql_config =
  my_dsn :: string
  my_timeout :: int

definition load_mysql_config :: "(string \<Rightarrow> int result) \<Rightarrow> string option \<Rightarrow> string option \<Rightarrow> mysql_config" where
  "load_mysql_config parse_duration dsn timeout =
     \<lparr>my_dsn = (case dsn of None \<Rightarrow> [] | Some v \<Rightarrow> trim_space v),
      my_timeout = (case timeout of
          None \<Rightarrow> 5 * 1000000000
        | Some v \<Rightarrow> (case parse_duration v of Inl _ \<Rightarrow> 5 * 1000000000 | Inr t \<Rightarrow> if 0 < t then t else 5 * 1000000000))\<rparr>"

record mysql_tool =
  mt_db_open :: bool
  mt_timeout :: int

definition new_mysql_tool :: "(string \<Rightarrow> unit result) \<Rightarrow> mysql_config \<Rightarrow> mysql_tool result" where
  "new_mysql_tool gorm_open cfg =
     (let timeout = (if my_timeout cfg \<le> 0 then 5 * 1000000000 else my_timeout cfg)
      in if trim_space (my_dsn cfg) = [] then Inr \<lparr>mt_db_open = False, mt_timeout = timeout\<rparr>
         else case gorm_open (my_dsn cfg) of
                Inl e \<Rightarrow> Inl (ErrWrap ''open mysql data source: '' e)
              | Inr _ \<Rightarrow> Inr \<lparr>mt_db_open = True, mt_timeout = timeout\<rparr>)"

text \<open>\<open>query\<close> is the database, \<open>marshal\<close> the JSON encoding of its rows.\<close>

definition mysql_run ::
  "(int \<Rightarrow> string \<Rightarrow> ('w, 'rows) op) \<Rightarrow> ('rows \<Rightarrow> string result) \<Rightarrow> mysql_tool \<Rightarrow> string option \<Rightarrow> ('w, string) op" where
  "mysql_run query marshal t input w =
     (case input of
        None \<Rightarrow> (w, Inl (ErrText ''mysql input is required''))
      | Some sql \<Rightarrow>
          (case validate_read_only_sql sql of
             Some e \<Rightarrow> (w, Inl e)
           | None \<Rightarrow>
               if \<not> mt_db_open t then (w, Inl ErrMysqlDSNRequired)
               else case query (mt_timeout t) sql w of
                      (w', Inl e) \<Rightarrow> (w', Inl e)
                    | (w', Inr rows) \<Rightarrow> (w', marshal rows)))"

section \<open>The document tool\<close>

text \<open>\<open>log.Fatal\<close> ends the process.\<close>

datatype 'a fatal_result = Returned "'a result" | ProcessExit go_error

definition query_internal_docs ::
  "unit result \<Rightarrow> (ctx \<Rightarrow> string \<Rightarrow> 'docs result) \<Rightarrow> ('docs \<Rightarrow> string) \<Rightarrow> ctx \<Rightarrow> string \<Rightarrow> string fatal_result" where
  "query_internal_docs new_retriever retrieve marshal c query =
     (case new_retriever of
        Inl e \<Rightarrow> ProcessExit e
      | Inr _ \<Rightarrow> (case retrieve c query of Inl e \<Rightarrow> ProcessExit e | Inr docs \<Rightarrow> Returned (Inr (marshal docs))))"

section \<open>The MCP client\<close>

text \<open>
  What each library call of \<open>GetLogMcpToolWithCloser\<close> returns. The result has the tools and a closer
  for the open client; the boolean tells whether a client is open when the function returns.
\<close>

record 'w mcp_calls =
  mcp_url :: "string result"
  mcp_new :: "unit result"
  mcp_start :: "unit result"
  mcp_initialize :: "unit result"
  mcp_tools :: "'w base_tool list result"

definition get_log_mcp_tools :: "'w mcp_calls \<Rightarrow> bool \<times> 'w base_tool list result" where
  "get_log_mcp_tools m =
     (case mcp_url m of Inl e \<Rightarrow> (False, Inl e) | Inr _ \<Rightarrow>
      case mcp_new m of Inl e \<Rightarrow> (False, Inl e) | Inr _ \<Rightarrow>
      case mcp_start m of Inl e \<Rightarrow> (False, Inl e) | Inr _ \<Rightarrow>
      case mcp_initialize m of Inl e \<Rightarrow> (False, Inl e) | Inr _ \<Rightarrow>
      case mcp_tools m of Inl e \<Rightarrow> (False, Inl e) | Inr tools \<Rightarrow> (True, Inr tools))"

section \<open>Assembling the agent\<close>

definition operators :: tool_policy where
  "operators = \<lparr>tp_tenants = [], tp_roles = [''operator'', ''admin''], tp_require_principal = False\<rparr>"

definition everyone :: tool_policy where
  "everyone = \<lparr>tp_tenants = [], tp_roles = [], tp_require_principal = False\<rparr>"

record 'w react_env =
  re_model :: "unit result"
  re_mcp :: "'w mcp_calls"
  re_alerts :: "'w invokable"
  re_mysql :: "'w invokable result"
  re_time :: "'w invokable"
  re_docs :: "'w invokable"
  re_agent :: "unit result"
  re_lambda :: "unit result"

fun tool_info :: "'w base_tool \<Rightarrow> string result" where
  "tool_info (Invokable iv) = iv_info iv"
| "tool_info (NotInvokable i) = i"

definition append_policy_tool :: "string \<Rightarrow> 'w base_tool option \<Rightarrow> tool_policy \<Rightarrow> 'w policy_tool list \<Rightarrow> 'w policy_tool list result" where
  "append_policy_tool name base policy tools =
     (case wrap_tool name base policy of Inl e \<Rightarrow> Inl e | Inr t \<Rightarrow> Inr (tools @ [t]))"

fun append_mcp_tools :: "'w base_tool list \<Rightarrow> 'w policy_tool list \<Rightarrow> 'w policy_tool list result" where
  "append_mcp_tools [] tools = Inr tools"
| "append_mcp_tools (b # bs) tools =
     (case tool_info b of
        Inl e \<Rightarrow> Inl (ErrWrap ''inspect mcp tool: '' e)
      | Inr name \<Rightarrow>
          (case append_policy_tool name (Some b) operators tools of
             Inl e \<Rightarrow> Inl e
           | Inr tools' \<Rightarrow> append_mcp_tools bs tools'))"

definition bind_result :: "'a result \<Rightarrow> ('a \<Rightarrow> 'b result) \<Rightarrow> 'b result" where
  "bind_result r f = (case r of Inl e \<Rightarrow> Inl e | Inr x \<Rightarrow> f x)"

text \<open>The body of \<open>newReactAgentLambda\<close> after the MCP call: the registered tools or the error.\<close>

definition register_tools :: "'w react_env \<Rightarrow> 'w base_tool list \<Rightarrow> 'w policy_tool list result" where
  "register_tools env mcp =
     bind_result (append_mcp_tools mcp []) (\<lambda>tools.
     bind_result (append_policy_tool ''prometheus_alerts'' (Some (Invokable (re_alerts env))) operators tools) (\<lambda>tools.
     bind_result (case re_mysql env of Inl e \<Rightarrow> Inl (ErrWrap ''initialize mysql tool: '' e) | Inr t \<Rightarrow> Inr t) (\<lambda>mysql.
     bind_result (append_policy_tool ''mysql_crud'' (Some (Invokable mysql)) operators tools) (\<lambda>tools.
     bind_result (append_policy_tool ''get_current_time'' (Some (Invokable (re_time env))) everyone tools) (\<lambda>tools.
     bind_result (append_policy_tool ''query_internal_docs'' (Some (Invokable (re_docs env))) everyone tools) (\<lambda>tools.
     bind_result (re_agent env) (\<lambda>_.
     bind_result (re_lambda env) (\<lambda>_. Inr tools))))))))"

text \<open>
  The deferred function: it closes the client when the cleanup flag is set and the result variable
  \<open>closer\<close> is not nil at that time; the second argument is that variable after the return statement.
\<close>

definition deferred_close :: "bool \<Rightarrow> bool \<Rightarrow> bool \<Rightarrow> bool" where
  "deferred_close cleanup closer client_open = (if cleanup \<and> closer then False else client_open)"

text \<open>
  \<open>newReactAgentLambda\<close>: whether the MCP client is open after the return, and the result with the
  closer (true when it is not nil). An error of the MCP call is logged and leaves no tools.
\<close>

definition new_react_agent :: "'w react_env \<Rightarrow> bool \<times> ('w policy_tool list \<times> bool) result" where
  "new_react_agent env =
     (case re_model env of Inl e \<Rightarrow> (False, Inl e) | Inr _ \<Rightarrow>
      (let (client_open, fetched) = get_log_mcp_tools (re_mcp env);
           mcp = (case fetched of Inl _ \<Rightarrow> [] | Inr tools \<Rightarrow> tools);
           closer = client_open
       in case register_tools env mcp of
            Inl e \<Rightarrow> (deferred_close True False client_open, Inl e)
          | Inr tools \<Rightarrow> (deferred_close False closer client_open, Inr (tools, closer))))"

lemma append_mcp_policies:
  "append_mcp_tools bs tools = Inr tools' \<Longrightarrow>
   \<exists>more. tools' = tools @ more \<and> list_all (\<lambda>t. pt_policy t = operators) more \<and> length more = length bs"
proof (induction bs tools rule: append_mcp_tools.induct)
  case (2 b bs tools)
  obtain name where n: "tool_info b = Inr name" using 2(2) by (auto split: sum.splits)
  obtain t where t: "wrap_tool name (Some b) operators = Inr t" "append_mcp_tools bs (tools @ [t]) = Inr tools'"
    using 2(2) n by (auto simp: append_policy_tool_def split: sum.splits)
  have "pt_policy t = operators" using t(1) by (auto simp: wrap_tool_def split: base_tool.splits)
  moreover obtain more where "tools' = (tools @ [t]) @ more" "list_all (\<lambda>t. pt_policy t = operators) more"
    "length more = length bs"
    using 2(1) [OF n _ t(2)] t(1) by (auto simp: append_policy_tool_def)
  ultimately show ?case by (intro exI [of _ "t # more"]) auto
qed simp

section \<open>Properties\<close>

text \<open>(C13) A wrapped tool runs its delegate exactly when the request carries a complete principal whose
  tenant is listed (if tenants are listed) and one of whose roles is listed (if roles are listed);
  otherwise the delegate is not run, nothing changes and the error is the denial.\<close>

theorem policy_enforced:
  "policy_run t c args w =
     (if \<exists>p. principal_from_context c = Some p \<and> p_tenant_id p \<noteq> [] \<and> p_user_id p \<noteq> [] \<and>
           (tp_tenants (pt_policy t) = [] \<or> p_tenant_id p \<in> set (tp_tenants (pt_policy t))) \<and>
           (tp_roles (pt_policy t) = [] \<or> set (tp_roles (pt_policy t)) \<inter> set (p_roles p) \<noteq> {})
      then iv_run (pt_delegate t) c args w
      else (w, Inl (ErrWrap (pt_name t) ErrToolDenied)))"
  unfolding policy_run_def tool_allowed_iff [symmetric] by simp

definition operator_ctx :: ctx where
  "operator_ctx = with_principal background
     \<lparr>p_user_id = ''u'', p_tenant_id = ''t'', p_username = ''bob'', p_roles = [''viewer'', ''operator'']\<rparr>"

theorem policy_enforced_witness:
  "policy_run \<lparr>pt_name = ''mysql_crud'',
      pt_delegate = \<lparr>iv_info = Inr [], iv_run = (\<lambda>c args (w::nat). (w + 1, Inr args))\<rparr>,
      pt_policy = \<lparr>tp_tenants = [''t''], tp_roles = [''operator''], tp_require_principal = False\<rparr>\<rparr>
     operator_ctx ''{}'' 0 = (1, Inr ''{}'')"
  unfolding policy_enforced by (simp add: operator_ctx_def)

text \<open>(C14) Every tool the agent is built with is wrapped: the MCP tools, the alert tool and the SQL tool
  with the policy for operators and admins, the clock and the document tool with the policy that only
  asks for a principal; so a request without a principal can run no tool at all.\<close>

theorem agent_tools_guarded:
  assumes "snd (new_react_agent env) = Inr (tools, closer)"
  shows "\<exists>mcp. map pt_name tools = mcp @
        [''prometheus_alerts'', ''mysql_crud'', ''get_current_time'', ''query_internal_docs''] \<and>
      map pt_policy tools = replicate (length mcp + 2) operators @ [everyone, everyone] \<and>
      (\<forall>t \<in> set tools. \<forall>args w. policy_run t background args w = (w, Inl (ErrWrap (pt_name t) ErrToolDenied)))"
proof -
  obtain mcp where r: "register_tools env mcp = Inr tools"
    using assms by (auto simp: new_react_agent_def Let_def split: sum.splits prod.splits)
  then obtain mtools mysql where m: "append_mcp_tools mcp [] = Inr mtools"
    and tools: "tools = mtools @
      [\<lparr>pt_name = ''prometheus_alerts'', pt_delegate = re_alerts env, pt_policy = operators\<rparr>,
       \<lparr>pt_name = ''mysql_crud'', pt_delegate = mysql, pt_policy = operators\<rparr>,
       \<lparr>pt_name = ''get_current_time'', pt_delegate = re_time env, pt_policy = everyone\<rparr>,
       \<lparr>pt_name = ''query_internal_docs'', pt_delegate = re_docs env, pt_policy = everyone\<rparr>]"
    by (auto simp: register_tools_def bind_result_def append_policy_tool_def wrap_tool_def split: sum.splits)
  have ops: "map pt_policy mtools = replicate (length mtools) operators"
    using append_mcp_policies [OF m] by (auto simp: list_all_iff intro!: replicate_eqI)
  have "\<not> tool_allowed background p" for p
    by (simp add: tool_allowed_def background_def principal_from_context_def)
  then have deny: "policy_run t background args w = (w, Inl (ErrWrap (pt_name t) ErrToolDenied))"
    for t :: "'a policy_tool" and args w by (simp add: policy_run_def)
  show ?thesis
  proof (intro exI [of _ "map pt_name mtools"] conjI ballI allI)
    show "map pt_policy tools = replicate (length (map pt_name mtools) + 2) operators @ [everyone, everyone]"
      unfolding replicate_add by (simp add: tools ops numeral_2_eq_2)
  qed (simp_all add: tools deny)
qed

definition echo_tool :: "string \<Rightarrow> nat invokable" where
  "echo_tool name = \<lparr>iv_info = Inr name, iv_run = (\<lambda>c args w. (w + 1, Inr args))\<rparr>"

definition sample_env :: "nat react_env" where
  "sample_env =
     \<lparr>re_model = Inr (),
      re_mcp = \<lparr>mcp_url = Inr ''http://mcp'', mcp_new = Inr (), mcp_start = Inr (), mcp_initialize = Inr (),
                mcp_tools = Inr [Invokable (echo_tool ''search_log'')]\<rparr>,
      re_alerts = echo_tool ''query_prometheus_alerts'', re_mysql = Inr (echo_tool ''mysql_crud''),
      re_time = echo_tool ''get_current_time'', re_docs = echo_tool ''query_internal_docs'',
      re_agent = Inr (), re_lambda = Inr ()\<rparr>"

theorem agent_tools_guarded_witness:
  "\<exists>tools. snd (new_react_agent sample_env) = Inr (tools, True) \<and> length tools = 5 \<and>
     policy_run (hd tools) background ''{}'' 0 = (0, Inl (ErrWrap ''search_log'' ErrToolDenied))"
proof -
  obtain tools where t: "snd (new_react_agent sample_env) = Inr (tools, True)"
    and l: "length tools = 5" "pt_name (hd tools) = ''search_log''" "tools \<noteq> []"
    by (simp add: new_react_agent_def sample_env_def get_log_mcp_tools_def register_tools_def bind_result_def
        append_policy_tool_def wrap_tool_def echo_tool_def)
  from agent_tools_guarded [OF t] l t show ?thesis by (metis list.set_sel(1))
qed

text \<open>When the MCP client was opened and a later step of the assembly fails, the client stays open and
  the caller gets no closer for it: the returned nil has already replaced the closer when the deferred
  cleanup looks at it.\<close>

theorem failed_assembly_leaks_mcp_client:
  assumes "re_model env = Inr x" and "get_log_mcp_tools (re_mcp env) = (True, Inr mcp)"
    and "register_tools env mcp = Inl e"
  shows "new_react_agent env = (True, Inl e)"
  using assms by (simp add: new_react_agent_def deferred_close_def)

theorem failed_assembly_leaks_mcp_client_witness:
  "new_react_agent (sample_env\<lparr>re_mysql := Inl (ErrExternal ''dial tcp'')\<rparr>) =
     (True, Inl (ErrWrap ''initialize mysql tool: '' (ErrExternal ''dial tcp'')))"
proof -
  let ?env = "sample_env\<lparr>re_mysql := Inl (ErrExternal ''dial tcp'')\<rparr>"
  have "re_model ?env = Inr ()"
    "get_log_mcp_tools (re_mcp ?env) = (True, Inr [Invokable (echo_tool ''search_log'')])"
    "register_tools ?env [Invokable (echo_tool ''search_log'')] =
       Inl (ErrWrap ''initialize mysql tool: '' (ErrExternal ''dial tcp''))"
    by (simp_all add: sample_env_def get_log_mcp_tools_def register_tools_def bind_result_def
        append_policy_tool_def wrap_tool_def echo_tool_def)
  from failed_assembly_leaks_mcp_client [OF this] show ?thesis .
qed

text \<open>The SQL tool sends a query to the database only when it is one statement without a semicolon
  that starts with one of the five read keywords; every other input is an error and reaches nothing.\<close>

theorem sql_tool_sends_only_read_keywords:
  assumes "mysql_run query marshal t input w = (w', r)"
  shows "(w' = w \<and> isl r) \<or>
    (\<exists>sql word rest. input = Some sql \<and> CHR '';'' \<notin> set (trim_space sql) \<and> mt_db_open t \<and>
       str_fields (to_upper (trim_space sql)) = word # rest \<and>
       word \<in> {''SELECT'', ''SHOW'', ''DESCRIBE'', ''DESC'', ''EXPLAIN''} \<and> w' = fst (query (mt_timeout t) sql w))"
proof (cases input)
  case None
  then show ?thesis using assms by (auto simp: mysql_run_def)
next
  case (Some sql)
  show ?thesis
  proof (cases "validate_read_only_sql sql")
    case None
    then have "CHR '';'' \<notin> set (trim_space sql) \<and> (\<exists>word rest. str_fields (to_upper (trim_space sql)) = word # rest \<and>
        word \<in> {''SELECT'', ''SHOW'', ''DESCRIBE'', ''DESC'', ''EXPLAIN''})"
      by (auto simp: validate_read_only_sql_def Let_def split: if_splits list.splits)
    with assms Some None show ?thesis
      by (cases "mt_db_open t") (auto simp: mysql_run_def split: prod.splits sum.splits)
  qed (use assms Some in \<open>auto simp: mysql_run_def\<close>)
qed

theorem sql_tool_sends_only_read_keywords_witness:
  "mysql_run (\<lambda>timeout sql w. (w + 1, Inr sql)) Inr \<lparr>mt_db_open = True, mt_timeout = 1\<rparr>
     (Some '' update t set x = 1'') (0::nat) = (0, Inl ErrMysqlWriteDenied)"
proof -
  let ?run = "mysql_run (\<lambda>timeout sql w. (w + 1, Inr sql)) Inr \<lparr>mt_db_open = True, mt_timeout = 1\<rparr>
      (Some '' update t set x = 1'') (0::nat)"
  obtain w' r where run: "?run = (w', r)" by fastforce
  have "snd ?run = Inl ErrMysqlWriteDenied" by code_simp
  moreover have "str_fields (to_upper (trim_space '' update t set x = 1'')) =
      [''UPDATE'', ''T'', ''SET'', ''X'', ''='', ''1'']" by code_simp
  ultimately show ?thesis using sql_tool_sends_only_read_keywords [OF run] run by auto
qed

text \<open>The keyword check does not make a statement read-only: it lets through statements that write a
  file, lock rows, or execute the statement they explain.\<close>

theorem sql_check_admits_writes:
  "validate_read_only_sql ''SELECT 1 INTO OUTFILE f'' = None \<and>
   validate_read_only_sql ''select * from t for update'' = None \<and>
   validate_read_only_sql ''EXPLAIN ANALYZE DELETE FROM t'' = None \<and>
   validate_read_only_sql ''UPDATE t SET x = 1'' = Some ErrMysqlWriteDenied"
  by (intro conjI; code_simp)

text \<open>The document tool never returns an error: whatever goes wrong with a retrieval, a refused
  tenant scope included, ends the whole process.\<close>

theorem document_tool_exits_on_error:
  assumes "isl new_retriever \<or> isl (retrieve c query)"
  shows "\<exists>e. query_internal_docs new_retriever retrieve marshal c query = ProcessExit e"
  using assms by (auto simp: query_internal_docs_def isl_def split: sum.splits)

theorem document_tool_exits_on_error_witness:
  "query_internal_docs (Inr ()) (\<lambda>c q. Inl ErrTenantScopeRequired :: unit result) (\<lambda>d. []) background ''cpu'' =
     ProcessExit ErrTenantScopeRequired"
proof -
  have "isl (Inr () :: unit result) \<or> isl ((\<lambda>c q. Inl ErrTenantScopeRequired :: unit result) background ''cpu'')" by simp
  from document_tool_exits_on_error [OF this, of "\<lambda>d. []"] show ?thesis by (simp add: query_internal_docs_def)
qed

end
