(* ===== verification/Chat_Pipeline.thy ===== *)
theory Chat_Pipeline
  imports Turn_Loop Tool_Policy
begin

text \<open>
  The chat agent of internal/ai/agent/chat_pipeline: the intent check before a retrieval (intent.go,
  retriever.go), the inputs of the two branches of the graph (lambda_func.go), the adapter that turns
  one agent run into agent events (adk_adapter.go), the construction of the graph (orchestration.go)
  and the runtime that owns it (runtime.go). The compiled graph is the library's: a runner with an
  invoke and a stream function, the outcomes of the graph calls are arguments.

  The lemmas connect the adapter with the session of \<open>Turn_Loop\<close>: what a turn sends to its receiver is
  a function of the runner's answer.
\<close>

section \<open>Intent\<close>

definition small_talk :: "string list" where
  "small_talk =
     [[CHR 0xE4, CHR 0xBD, CHR 0xA0, CHR 0xE5, CHR 0xA5, CHR 0xBD],
      [CHR 0xE6, CHR 0x82, CHR 0xA8, CHR 0xE5, CHR 0xA5, CHR 0xBD],
      ''hello'',
      ''hi'',
      [CHR 0xE8, CHR 0xB0, CHR 0xA2, CHR 0xE8, CHR 0xB0, CHR 0xA2],
      [CHR 0xE5, CHR 0x86, CHR 0x8D, CHR 0xE8, CHR 0xA7, CHR 0x81],
      [CHR 0xE7, CHR 0x8E, CHR 0xB0, CHR 0xE5, CHR 0x9C, CHR 0xA8, CHR 0xE5, CHR 0x87,
       CHR 0xA0, CHR 0xE7, CHR 0x82, CHR 0xB9],
      [CHR 0xE5, CHR 0x87, CHR 0xA0, CHR 0xE7, CHR 0x82, CHR 0xB9, CHR 0xE4, CHR 0xBA, CHR 0x86],
      [CHR 0xE4, CHR 0xBB, CHR 0x8A, CHR 0xE5, CHR 0xA4, CHR 0xA9, CHR 0xE6, CHR 0x97,
       CHR 0xA5, CHR 0xE6, CHR 0x9C, CHR 0x9F],
      [CHR 0xE5, CHR 0xBD, CHR 0x93, CHR 0xE5, CHR 0x89, CHR 0x8D, CHR 0xE6, CHR 0x97,
       CHR 0xB6, CHR 0xE9, CHR 0x97, CHR 0xB4],
      [CHR 0xE7, CHR 0xBB, CHR 0xA7, CHR 0xE7, CHR 0xBB, CHR 0xAD],
      [CHR 0xE5, CHR 0x88, CHR 0x9A, CHR 0xE6, CHR 0x89, CHR 0x8D],
      [CHR 0xE4, CHR 0xB8, CHR 0x8A, CHR 0xE9, CHR 0x9D, CHR 0xA2],
      [CHR 0xE8, CHR 0xBF, CHR 0x99, CHR 0xE4, CHR 0xB8, CHR 0xAA, CHR 0xE6, CHR 0x80,
       CHR 0x8E, CHR 0xE4, CHR 0xB9, CHR 0x88, CHR 0xE5, CHR 0x8A, CHR 0x9E],
      [CHR 0xE9, CHR 0x82, CHR 0xA3, CHR 0xE4, CHR 0xB8, CHR 0xAA, CHR 0xE6, CHR 0x80,
       CHR 0x8E, CHR 0xE4, CHR 0xB9, CHR 0x88, CHR 0xE5, CHR 0x8A, CHR 0x9E]]"

fun any_prefix :: "string list \<Rightarrow> string \<Rightarrow> bool" where
  "any_prefix [] s = False"
| "any_prefix (p # ps) s = (if s = p \<or> prefix p s then True else any_prefix ps s)"

definition should_retrieve :: "string \<Rightarrow> bool" where
  "should_retrieve query =
     (let normalized = to_lower (trim_space query)
      in if normalized = [] then False
         else if any_prefix small_talk normalized then False else True)"

definition intent_retrieve :: "(ctx \<Rightarrow> string \<Rightarrow> ('w, 'doc list) op) \<Rightarrow> ctx \<Rightarrow> string \<Rightarrow> ('w, 'doc list) op" where
  "intent_retrieve delegate c query w =
     (if \<not> should_retrieve query then (w, Inr []) else delegate c query w)"

lemma any_prefix_iff: "any_prefix ps s \<longleftrightarrow> (\<exists>p \<in> set ps. prefix p s)"
  by (induction ps) auto

section \<open>The adapter\<close>

record user_input =
  ui_query :: string
  ui_history :: "msgptr list"

definition is_user :: "msgptr \<Rightarrow> bool" where
  "is_user m = (case m of None \<Rightarrow> False | Some m' \<Rightarrow> msg_role m' = User)"

text \<open>The loop from the last index down; the index plus one, zero when there is none.\<close>

fun last_user :: "msgptr list \<Rightarrow> nat \<Rightarrow> nat option" where
  "last_user messages 0 = None"
| "last_user messages (Suc i) = (if is_user (messages ! i) then Some i else last_user messages i)"

definition user_message_from_input :: "agent_input option \<Rightarrow> user_input result" where
  "user_message_from_input input =
     (case input of
        None \<Rightarrow> Inl (ErrText ''chat agent input messages are required'')
      | Some i \<Rightarrow>
          if ai_messages i = [] then Inl (ErrText ''chat agent input messages are required'')
          else case last_user (ai_messages i) (length (ai_messages i)) of
                 None \<Rightarrow> Inl (ErrText ''chat agent input requires a user message'')
               | Some j \<Rightarrow>
                   Inr \<lparr>ui_query = (case ai_messages i ! j of None \<Rightarrow> [] | Some m \<Rightarrow> msg_content m),
                        ui_history = take j (ai_messages i)\<rparr>)"

type_synonym msg_stream = "msgptr list \<times> go_error option"

record 'w runner =
  rn_invoke :: "ctx \<Rightarrow> user_input \<Rightarrow> ('w, msgptr) op"
  rn_stream :: "ctx \<Rightarrow> user_input \<Rightarrow> ('w, msg_stream option) op"

record 'w adk_agent =
  aa_runner :: "'w runner"
  aa_name :: string
  aa_description :: string

definition new_adk_agent :: "'w runner option \<Rightarrow> string \<Rightarrow> string \<Rightarrow> 'w adk_agent result" where
  "new_adk_agent r name description =
     (case r of
        None \<Rightarrow> Inl (ErrText ''chat agent runner is required'')
      | Some rn \<Rightarrow>
          if name = [] then Inl (ErrText ''chat agent name is required'')
          else Inr \<lparr>aa_runner = rn, aa_name = name, aa_description = description\<rparr>)"

definition error_event :: "go_error \<Rightarrow> agent_event" where
  "error_event e = \<lparr>ae_err = Some e, ae_output = None\<rparr>"

definition output_event :: "message_output \<Rightarrow> agent_event" where
  "output_event out = \<lparr>ae_err = None, ae_output = Some (Some out)\<rparr>"

text \<open>The goroutine of \<open>Run\<close>: the events it sends before it closes the iterator.\<close>

definition adk_run :: "'w adk_agent \<Rightarrow> ctx \<Rightarrow> agent_input option \<Rightarrow> 'w \<Rightarrow> 'w \<times> agent_event list" where
  "adk_run a c input w =
     (case user_message_from_input input of
        Inl e \<Rightarrow> (w, [error_event e])
      | Inr um \<Rightarrow>
          if (case input of None \<Rightarrow> False | Some i \<Rightarrow> ai_streaming i) then
            (case rn_stream (aa_runner a) c um w of
               (w', Inl e) \<Rightarrow> (w', [error_event e])
             | (w', Inr None) \<Rightarrow> (w', [error_event (ErrText ''chat agent returned nil stream'')])
             | (w', Inr (Some s)) \<Rightarrow>
                 (w', [output_event \<lparr>mo_streaming = True, mo_stream = Some s, mo_message = None\<rparr>]))
          else
            (case rn_invoke (aa_runner a) c um w of
               (w', Inl e) \<Rightarrow> (w', [error_event e])
             | (w', Inr None) \<Rightarrow> (w', [error_event (ErrText ''chat agent returned nil message'')])
             | (w', Inr (Some m)) \<Rightarrow>
                 (w', [output_event \<lparr>mo_streaming = False, mo_stream = None, mo_message = Some m\<rparr>])))"

text \<open>The inputs of the retrieval and of the prompt; the date is the formatted current time.\<close>

definition input_to_rag :: "user_input \<Rightarrow> string result" where
  "input_to_rag i = Inr (ui_query i)"

record prompt_input =
  pi_content :: string
  pi_history :: "msgptr list"
  pi_date :: string

definition input_to_chat :: "string \<Rightarrow> user_input \<Rightarrow> prompt_input result" where
  "input_to_chat date i = Inr \<lparr>pi_content = ui_query i, pi_history = ui_history i, pi_date = date\<rparr>"

section \<open>Building the graph\<close>

definition add_graph_step :: "string \<Rightarrow> string \<Rightarrow> unit result \<Rightarrow> unit result" where
  "add_graph_step kind name r =
     (case r of Inl e \<Rightarrow> Inl (ErrWrap (''graph '' @ kind @ '' '' @ name @ '': '') e) | Inr x \<Rightarrow> Inr x)"

fun add_edges :: "(string \<times> string \<Rightarrow> unit result) \<Rightarrow> (string \<times> string) list \<Rightarrow> unit result" where
  "add_edges add [] = Inr ()"
| "add_edges add (e # es) =
     (case add_graph_step ''edge'' (fst e @ '' -> '' @ snd e) (add e) of
        Inl err \<Rightarrow> Inl err
      | Inr _ \<Rightarrow> add_edges add es)"

definition chat_edges :: "(string \<times> string) list" where
  "chat_edges =
     [(''start'', ''InputToRag''), (''start'', ''InputToChat''), (''ReactAgent'', ''end''),
      (''InputToRag'', ''MilvusRetriever''), (''MilvusRetriever'', ''ChatTemplate''),
      (''InputToChat'', ''ChatTemplate''), (''ChatTemplate'', ''ReactAgent'')]"

record 'w graph_env =
  ge_node :: "string \<Rightarrow> unit result"
  ge_template :: "unit result"
  ge_react :: "'w react_env"
  ge_retriever :: "unit result"
  ge_edge :: "string \<times> string \<Rightarrow> unit result"
  ge_compile :: "unit result"

text \<open>
  \<open>BuildChatAgentWithResources\<close>: whether the MCP client is open after the return, and the closer of
  the result. The deferred function of this function sees the returned closer too.
\<close>

definition build_chat_agent :: "'w graph_env \<Rightarrow> bool \<times> bool result" where
  "build_chat_agent env =
     (case bind_result (add_graph_step ''node'' ''InputToRag'' (ge_node env ''InputToRag'')) (\<lambda>_.
           bind_result (ge_template env) (\<lambda>_.
           add_graph_step ''node'' ''ChatTemplate'' (ge_node env ''ChatTemplate''))) of
        Inl e \<Rightarrow> (False, Inl e)
      | Inr _ \<Rightarrow>
          (case new_react_agent (ge_react env) of
             (client_open, Inl e) \<Rightarrow> (deferred_close True False client_open, Inl e)
           | (client_open, Inr (tools, closer)) \<Rightarrow>
               (case bind_result (add_graph_step ''node'' ''ReactAgent'' (ge_node env ''ReactAgent'')) (\<lambda>_.
                     bind_result (ge_retriever env) (\<lambda>_.
                     bind_result (add_graph_step ''node'' ''MilvusRetriever'' (ge_node env ''MilvusRetriever'')) (\<lambda>_.
                     bind_result (add_graph_step ''node'' ''InputToChat'' (ge_node env ''InputToChat'')) (\<lambda>_.
                     bind_result (add_edges (ge_edge env) chat_edges) (\<lambda>_.
                       case ge_compile env of
                         Inl e \<Rightarrow> Inl (ErrWrap ''graph compile ChatAgent: '' e)
                       | Inr x \<Rightarrow> Inr x))))) of
                  Inl e \<Rightarrow> (deferred_close True False client_open, Inl e)
                | Inr _ \<Rightarrow> (deferred_close False closer client_open, Inr closer))))"

section \<open>The runtime\<close>

text \<open>Resources are numbered closers, nil entries included.\<close>

record runtime =
  rt_agent :: bool
  rt_resources :: "nat option list"

fun close_resources :: "(nat \<Rightarrow> go_error option) \<Rightarrow> nat option list \<Rightarrow> go_error option \<Rightarrow> nat list \<Rightarrow> nat list \<times> go_error option" where
  "close_resources close [] first_err closed = (closed, first_err)"
| "close_resources close (None # rs) first_err closed = close_resources close rs first_err closed"
| "close_resources close (Some r # rs) first_err closed =
     close_resources close rs (case (first_err, close r) of (None, Some e) \<Rightarrow> Some e | _ \<Rightarrow> first_err) (closed @ [r])"

text \<open>\<open>Close\<close>: the runtime, the closers it called in order, and its result.\<close>

definition runtime_close :: "(nat \<Rightarrow> go_error option) \<Rightarrow> runtime option \<Rightarrow> runtime option \<times> nat list \<times> go_error option" where
  "runtime_close close r =
     (case r of
        None \<Rightarrow> (None, [], None)
      | Some rt \<Rightarrow>
          (case close_resources close (rev (rt_resources rt)) None [] of
             (closed, err) \<Rightarrow> (Some (rt\<lparr>rt_resources := []\<rparr>), closed, err)))"

definition new_runtime :: "bool \<times> bool result \<Rightarrow> 'w runner option \<Rightarrow> bool \<times> runtime result" where
  "new_runtime built runnable =
     (case built of
        (client_open, Inl e) \<Rightarrow> (client_open, Inl e)
      | (client_open, Inr closer) \<Rightarrow>
          (case new_adk_agent runnable ''ChatAgent'' ''Multi-user incident assistance chat agent'' of
             Inl e \<Rightarrow> (if closer then False else client_open, Inl e)
           | Inr _ \<Rightarrow> (client_open, Inr \<lparr>rt_agent = True, rt_resources = [if closer then Some 0 else None]\<rparr>)))"

section \<open>Lemmas\<close>

lemma last_user_Some:
  "last_user ms n = Some j \<Longrightarrow> j < n \<and> is_user (ms ! j) \<and> (\<forall>i. j < i \<and> i < n \<longrightarrow> \<not> is_user (ms ! i))"
  by (induction n) (auto split: if_splits simp: less_Suc_eq)

lemma last_user_None: "last_user ms n = None \<longleftrightarrow> (\<forall>i < n. \<not> is_user (ms ! i))"
  by (induction n) (auto simp: less_Suc_eq)

lemma user_message_from_question:
  assumes "n = length history"
  shows "user_message_from_input (Some \<lparr>ai_messages = history @ [Some (user_message q)], ai_streaming = b\<rparr>) =
    Inr \<lparr>ui_query = q, ui_history = history\<rparr>"
  by (simp add: user_message_from_input_def is_user_def plain_message_def)

lemma close_resources_all:
  "close_resources close rs first_err closed =
     (closed @ List.map_filter id rs,
      case first_err of Some e \<Rightarrow> Some e
      | None \<Rightarrow> (case find (\<lambda>r. close r \<noteq> None) (List.map_filter id rs) of None \<Rightarrow> None | Some r \<Rightarrow> close r))"
  by (induction close rs first_err closed rule: close_resources.induct)
    (auto simp: List.map_filter_def split: option.splits)

section \<open>Properties\<close>

text \<open>The query of a run is the question of its last user message and the history is everything
  before it; messages after the last user message are dropped, and the question appended to a stored
  history comes back unchanged with the whole history.\<close>

theorem adapter_splits_at_last_question:
  assumes "user_message_from_input (Some i) = Inr um"
  shows "\<exists>m rest. ai_messages i = ui_history um @ Some m # rest \<and> msg_role m = User \<and> ui_query um = msg_content m \<and>
    list_all (\<lambda>x. \<not> is_user x) rest"
proof -
  obtain j where j: "last_user (ai_messages i) (length (ai_messages i)) = Some j"
    and um: "ui_history um = take j (ai_messages i)"
      "ui_query um = (case ai_messages i ! j of None \<Rightarrow> [] | Some m \<Rightarrow> msg_content m)"
    using assms by (auto simp: user_message_from_input_def split: if_splits option.splits)
  note l = last_user_Some [OF j]
  obtain m where m: "ai_messages i ! j = Some m" "msg_role m = User"
    using l by (auto simp: is_user_def split: option.splits)
  have "ai_messages i = take j (ai_messages i) @ Some m # drop (Suc j) (ai_messages i)"
    using l m(1) by (metis id_take_nth_drop)
  moreover have "list_all (\<lambda>x. \<not> is_user x) (drop (Suc j) (ai_messages i))"
    using l by (auto simp: list_all_length)
  ultimately show ?thesis using um m by (intro exI [of _ m] exI [of _ "drop (Suc j) (ai_messages i)"]) simp
qed

theorem adapter_splits_at_last_question_witness:
  "\<exists>m rest. [Some (user_message ''a''), None, Some (user_message ''b''), Some (assistant_message ''c'')] =
     [Some (user_message ''a''), None] @ Some m # rest \<and> msg_content m = ''b''"
proof -
  let ?i = "\<lparr>ai_messages = [Some (user_message ''a''), None, Some (user_message ''b''), Some (assistant_message ''c'')],
      ai_streaming = False\<rparr>"
  have "user_message_from_input (Some ?i) = Inr \<lparr>ui_query = ''b'', ui_history = [Some (user_message ''a''), None]\<rparr>"
    by (simp add: user_message_from_input_def is_user_def plain_message_def eval_nat_numeral)
  from adapter_splits_at_last_question [OF this] show ?thesis by simp
qed

text \<open>What the runner answers to an input, as the trace its turn must have.\<close>

definition answer_trace :: "msgptr result \<Rightarrow> turn_event list" where
  "answer_trace r =
     (case r of
        Inl e \<Rightarrow> [done_event (Some e)]
      | Inr None \<Rightarrow> [done_event (Some (ErrText ''chat agent returned nil message''))]
      | Inr (Some m) \<Rightarrow> [message_event (Some m), done_event None])"

text \<open>A turn with a question answers with exactly one message and the end, or with exactly one error:
  without the streaming flag the runner is invoked once and its stream function never.\<close>

theorem turn_answers_once:
  "turn_trace (map Some (snd (adk_run a c (Some \<lparr>ai_messages = history @ [Some (user_message q)], ai_streaming = False\<rparr>) w))) =
     answer_trace (snd (rn_invoke (aa_runner a) c \<lparr>ui_query = q, ui_history = history\<rparr> w)) \<and>
   fst (adk_run a c (Some \<lparr>ai_messages = history @ [Some (user_message q)], ai_streaming = False\<rparr>) w) =
     fst (rn_invoke (aa_runner a) c \<lparr>ui_query = q, ui_history = history\<rparr> w)"
  by (auto simp: adk_run_def user_message_from_question answer_trace_def error_event_def output_event_def
      split: prod.splits sum.splits option.splits)

text \<open>The greeting filter compares prefixes, so a question that only begins like a greeting is not
  looked up: every query that starts with the letters "hi" in any case retrieves nothing.\<close>

theorem greeting_prefix_skips_retrieval:
  assumes "prefix ''hi'' (to_lower (trim_space query))"
  shows "intent_retrieve delegate c query w = (w, Inr [])"
proof -
  have "''hi'' \<in> set small_talk" by (simp add: small_talk_def)
  then have "any_prefix small_talk (to_lower (trim_space query))" using assms by (auto simp: any_prefix_iff)
  then show ?thesis by (simp add: intent_retrieve_def should_retrieve_def Let_def)
qed

theorem greeting_prefix_skips_retrieval_witness:
  "intent_retrieve (\<lambda>c q w. (w + 1, Inr [''runbook''])) c '' High CPU on node 7'' (0::nat) = (0, Inr []) \<and>
   intent_retrieve (\<lambda>c q w. (w + 1, Inr [''runbook''])) c ''CPU high on node 7'' (0::nat) = (1, Inr [''runbook''])"
proof -
  have p: "prefix ''hi'' (to_lower (trim_space '' High CPU on node 7''))" by code_simp
  have "should_retrieve ''CPU high on node 7''" by code_simp
  then have "intent_retrieve (\<lambda>c q w. (w + 1, Inr [''runbook''])) c ''CPU high on node 7'' (0::nat) = (1, Inr [''runbook''])"
    by (simp add: intent_retrieve_def)
  then show ?thesis by (simp add: greeting_prefix_skips_retrieval [OF p])
qed

text \<open>A failure to build the graph after the agent was assembled leaks the agent's MCP client as well:
  it stays open, and neither function hands out a closer for it.\<close>

theorem failed_graph_leaks_mcp_client:
  assumes "new_react_agent (ge_react env) = (True, Inr (tools, True))"
    and "ge_template env = Inr ()" and "ge_node env ''InputToRag'' = Inr ()" and "ge_node env ''ChatTemplate'' = Inr ()"
    and "snd (build_chat_agent env) = Inl e"
  shows "fst (new_runtime (build_chat_agent env) rn) \<and> snd (new_runtime (build_chat_agent env) rn) = Inl e"
proof -
  have "fst (build_chat_agent env)"
    using assms by (auto simp: build_chat_agent_def bind_result_def add_graph_step_def deferred_close_def split: sum.splits)
  with assms(5) show ?thesis by (cases "build_chat_agent env") (simp add: new_runtime_def)
qed

definition sample_graph :: "nat graph_env" where
  "sample_graph =
     \<lparr>ge_node = (\<lambda>n. Inr ()), ge_template = Inr (), ge_react = sample_env,
      ge_retriever = Inl (ErrExternal ''milvus: connection refused''), ge_edge = (\<lambda>e. Inr ()), ge_compile = Inr ()\<rparr>"

theorem failed_graph_leaks_mcp_client_witness:
  "fst (new_runtime (build_chat_agent sample_graph) rn)"
proof -
  obtain tools where r: "new_react_agent (ge_react sample_graph) = (True, Inr (tools, True))"
    by (simp add: sample_graph_def new_react_agent_def sample_env_def get_log_mcp_tools_def register_tools_def
        bind_result_def append_policy_tool_def wrap_tool_def echo_tool_def deferred_close_def)
  then have e: "snd (build_chat_agent sample_graph) = Inl (ErrExternal ''milvus: connection refused'')"
    by (simp add: build_chat_agent_def sample_graph_def bind_result_def add_graph_step_def)
  have "ge_template sample_graph = Inr ()" "ge_node sample_graph ''InputToRag'' = Inr ()"
    "ge_node sample_graph ''ChatTemplate'' = Inr ()" by (simp_all add: sample_graph_def)
  from failed_graph_leaks_mcp_client [OF r this e] show ?thesis by blast
qed

text \<open>Closing the runtime closes every resource once, in reverse order, whatever errors occur, and
  reports the first of them; closing it again closes nothing and reports nothing.\<close>

theorem runtime_close_all:
  assumes "runtime_close close (Some rt) = (rt', closed, err)"
  shows "closed = rev (List.map_filter id (rt_resources rt)) \<and>
    err = (case find (\<lambda>r. close r \<noteq> None) closed of None \<Rightarrow> None | Some r \<Rightarrow> close r) \<and>
    runtime_close close rt' = (rt', [], None)"
proof -
  have "List.map_filter id (rev rs) = rev (List.map_filter id rs)" for rs :: "nat option list"
    by (simp add: List.map_filter_def rev_map rev_filter)
  with assms show ?thesis by (auto simp: runtime_close_def close_resources_all)
qed

theorem runtime_close_all_witness:
  "runtime_close (\<lambda>r. if r = 1 then Some Canceled else None) (Some \<lparr>rt_agent = True, rt_resources = [Some 0, None, Some 1]\<rparr>) =
     (Some \<lparr>rt_agent = True, rt_resources = []\<rparr>, [1, 0], Some Canceled)"
proof -
  let ?close = "\<lambda>r. if r = 1 then Some Canceled else (None :: go_error option)"
  let ?rt = "\<lparr>rt_agent = True, rt_resources = [Some 0, None, Some 1]\<rparr> :: runtime"
  obtain rt' closed err where run: "runtime_close ?close (Some ?rt) = (rt', closed, err)" by (metis prod_cases3)
  have "rt' = Some \<lparr>rt_agent = True, rt_resources = []\<rparr>" using run by (auto simp: runtime_close_def)
  with runtime_close_all [OF run] run show ?thesis by (simp add: List.map_filter_def)
qed

end
