(* ===== verification/Sse.thy ===== *)
theory Sse
  imports Tool_Policy
begin

text \<open>
  The server-sent-event client of internal/logic/sse/sse.go: a bounded channel between the request
  handler, which sends events and finishes, and the writer goroutine. A \<open>select\<close> is the list of its
  possible results; a send on a closed channel is a ready case that panics. \<open>sc_written\<close> is what the
  writer has written to the response after the greeting, \<open>sc_sent\<close> is a history variable: the payloads
  whose send succeeded.
\<close>

record sse_client =
  sc_cap :: nat
  sc_queue :: "string list"
  sc_closed :: bool
  sc_cancelled :: bool
  sc_finished :: bool
  sc_written :: "string list"
  sc_sent :: "string list"

definition sse_buffer_size :: "int \<Rightarrow> int" where
  "sse_buffer_size n = (if n \<le> 0 then 100 else n)"

text \<open>\<open>Create\<close>: the greeting goes to the response directly, before the writer starts.\<close>

definition greeting :: "string \<Rightarrow> string list" where
  "greeting client_id =
     [''id: '' @ client_id @ [CHR 0x0A],
      ''event: connected'' @ [CHR 0x0A],
      ''data: {'' @ [CHR 0x22] @ ''status'' @ [CHR 0x22] @ '': '' @ [CHR 0x22] @ ''connected'' @ [CHR 0x22] @ '', '' @
      [CHR 0x22] @ ''client_id'' @ [CHR 0x22] @ '': '' @ [CHR 0x22] @ client_id @ [CHR 0x22] @ ''}'' @ [CHR 0x0A, CHR 0x0A]]"

definition sse_create :: "bool \<Rightarrow> int \<Rightarrow> bool \<Rightarrow> sse_client result" where
  "sse_create request_given buffer_size ctx_done =
     (if \<not> request_given then Inl ErrUnavailable
      else Inr \<lparr>sc_cap = nat (sse_buffer_size buffer_size), sc_queue = [], sc_closed = False,
                sc_cancelled = ctx_done, sc_finished = False, sc_written = [], sc_sent = []\<rparr>)"

definition format_event :: "int \<Rightarrow> string \<Rightarrow> string \<Rightarrow> string" where
  "format_event now event_type data =
     ''id: '' @ show_int now @ [CHR 0x0A] @ ''event: '' @ event_type @ [CHR 0x0A] @ ''data: '' @ data @
     [CHR 0x0A, CHR 0x0A]"

datatype send_outcome = Sent | NotSent | SendPanics

definition push_results :: "string \<Rightarrow> sse_client \<Rightarrow> (sse_client \<times> send_outcome) list" where
  "push_results payload c =
     (let ready =
        (if sc_cancelled c then [(c, NotSent)] else []) @
        (if sc_closed c then [(c, SendPanics)]
         else if length (sc_queue c) < sc_cap c
              then [(c\<lparr>sc_queue := sc_queue c @ [payload], sc_sent := sc_sent c @ [payload]\<rparr>, Sent)]
              else [])
      in if ready = [] then [(c\<lparr>sc_cancelled := True\<rparr>, NotSent)] else ready)"

text \<open>\<open>SendToClient\<close>; a nil client sends nothing.\<close>

definition send_to_client :: "int \<Rightarrow> string \<Rightarrow> string \<Rightarrow> sse_client option \<Rightarrow> (sse_client option \<times> send_outcome) list" where
  "send_to_client now event_type data client =
     (case client of
        None \<Rightarrow> [(None, NotSent)]
      | Some c \<Rightarrow> map (\<lambda>(c', r). (Some c', r)) (push_results (format_event now event_type data) c))"

text \<open>\<open>Finish\<close> closes the channel once and then waits for the writer.\<close>

definition finish_close :: "sse_client \<Rightarrow> sse_client" where
  "finish_close c = (if sc_closed c then c else c\<lparr>sc_closed := True\<rparr>)"

definition finish_returns :: "sse_client \<Rightarrow> bool" where
  "finish_returns c = sc_finished c"

text \<open>The possible results of one round of \<open>writeLoop\<close>; none when it waits or has returned.\<close>

definition writer_results :: "sse_client \<Rightarrow> sse_client list" where
  "writer_results c =
     (if sc_finished c then []
      else
        (if sc_cancelled c then [c\<lparr>sc_finished := True\<rparr>] else []) @
        (case sc_queue c of
           payload # rest \<Rightarrow> [c\<lparr>sc_queue := rest, sc_written := sc_written c @ [payload]\<rparr>]
         | [] \<Rightarrow> if sc_closed c then [c\<lparr>sc_finished := True\<rparr>] else []))"

text \<open>Any interleaving of the handler's calls, the writer and the end of the request's context; a send
  that panics is not a step.\<close>

inductive sse_step :: "sse_client \<Rightarrow> sse_client \<Rightarrow> bool" where
  Send: "(c', r) \<in> set (push_results payload c) \<Longrightarrow> r \<noteq> SendPanics \<Longrightarrow> sse_step c c'"
| Write: "c' \<in> set (writer_results c) \<Longrightarrow> sse_step c c'"
| Finish: "sse_step c (finish_close c)"
| Disconnect: "sse_step c (c\<lparr>sc_cancelled := True\<rparr>)"

definition sse_inv :: "sse_client \<Rightarrow> bool" where
  "sse_inv c \<longleftrightarrow> sc_sent c = sc_written c @ sc_queue c \<and> length (sc_queue c) \<le> sc_cap c \<and>
     (sc_finished c \<longrightarrow> sc_cancelled c \<or> (sc_closed c \<and> sc_queue c = []))"

lemma sse_inv_create: "sse_create b n d = Inr c \<Longrightarrow> sse_inv c \<and> sc_sent c = []"
  by (auto simp: sse_create_def sse_inv_def split: if_splits)

lemma push_inv: "(c', r) \<in> set (push_results payload c) \<Longrightarrow> sse_inv c \<Longrightarrow> sse_inv c'"
  by (auto simp: push_results_def sse_inv_def Let_def split: if_splits)

lemma writer_inv: "c' \<in> set (writer_results c) \<Longrightarrow> sse_inv c \<Longrightarrow> sse_inv c'"
  by (cases "sc_queue c") (auto simp: writer_results_def sse_inv_def split: if_splits)

lemma sse_step_inv: "sse_step c c' \<Longrightarrow> sse_inv c \<Longrightarrow> sse_inv c'"
proof (induction rule: sse_step.induct)
  case (Finish c)
  then show ?case by (auto simp: finish_close_def sse_inv_def)
next
  case (Disconnect c)
  then show ?case by (auto simp: sse_inv_def)
qed (auto intro: push_inv writer_inv)

lemma sse_reach_inv: "sse_step\<^sup>*\<^sup>* c c' \<Longrightarrow> sse_inv c \<Longrightarrow> sse_inv c'"
  by (induction rule: rtranclp_induct) (auto intro: sse_step_inv)

text \<open>The writer alone, once the channel is closed.\<close>

inductive writer_run :: "nat \<Rightarrow> sse_client \<Rightarrow> sse_client \<Rightarrow> bool" where
  Stop: "writer_run 0 c c"
| Round: "c1 \<in> set (writer_results c) \<Longrightarrow> writer_run n c1 c2 \<Longrightarrow> writer_run (Suc n) c c2"

inductive_cases writer_run_SucE: "writer_run (Suc n) c c2"

lemma writer_results_measure:
  assumes "c1 \<in> set (writer_results c)" and "sc_closed c" and "\<not> sc_finished c"
  shows "sc_closed c1 \<and> (sc_finished c1 \<or> length (sc_queue c1) < length (sc_queue c))"
  using assms by (auto simp: writer_results_def split: if_splits list.splits)

lemma writer_results_nonempty: "sc_closed c \<Longrightarrow> \<not> sc_finished c \<Longrightarrow> writer_results c \<noteq> []"
  by (auto simp: writer_results_def split: list.splits)

lemma writer_run_bound:
  "writer_run n c c2 \<Longrightarrow> sc_closed c \<Longrightarrow> \<not> sc_finished c \<Longrightarrow> n \<le> Suc (length (sc_queue c))"
proof (induction rule: writer_run.induct)
  case (Round c1 c n c2)
  from writer_results_measure [OF Round(1,4,5)] Round(2,3) show ?case
    by (cases "sc_finished c1") (auto elim: writer_run.cases simp: writer_results_def)
qed simp

section \<open>Properties\<close>

text \<open>(C21) Nothing is lost or reordered: at every moment what the writer wrote is the beginning of what was
  sent, the rest is in the buffer, and when the writer has ended and the client was never cancelled
  every event that was sent has been written.\<close>

theorem sse_delivers_in_order:
  assumes "sse_create b n d = Inr c" and "sse_step\<^sup>*\<^sup>* c c'"
  shows "sc_sent c' = sc_written c' @ sc_queue c' \<and> length (sc_queue c') \<le> sc_cap c' \<and>
    (finish_returns c' \<and> \<not> sc_cancelled c' \<longrightarrow> sc_written c' = sc_sent c')"
  using sse_reach_inv [OF assms(2)] sse_inv_create [OF assms(1)]
  by (auto simp: sse_inv_def finish_returns_def)

text \<open>(C22) \<open>Finish\<close> returns: once the channel is closed the writer can always go on until it has ended, and
  it ends after at most one round for every buffered event and one more.\<close>

theorem sse_finish_terminates:
  assumes "writer_run n (finish_close c) c'" and "\<not> sc_finished c"
  shows "n \<le> Suc (length (sc_queue c)) \<and> (sc_finished c' \<or> writer_results c' \<noteq> [])"
proof -
  have closed: "sc_closed (finish_close c)" by (simp add: finish_close_def)
  have same: "\<not> sc_finished (finish_close c)" "sc_queue (finish_close c) = sc_queue c"
    using assms(2) by (simp_all add: finish_close_def)
  have "sc_closed c2 \<Longrightarrow> sc_closed c3" if "writer_run m c2 c3" for m c2 c3
    using that by (induction rule: writer_run.induct) (auto simp: writer_results_def split: if_splits list.splits)
  with assms(1) closed have "sc_closed c'" by blast
  with writer_results_nonempty writer_run_bound [OF assms(1) closed same(1)] same(2) show ?thesis by metis
qed

definition two_events :: sse_client where
  "two_events =
     \<lparr>sc_cap = 2, sc_queue = [''a'', ''b''], sc_closed = False, sc_cancelled = False, sc_finished = False,
      sc_written = [], sc_sent = [''a'', ''b'']\<rparr>"

theorem sse_finish_terminates_witness:
  "\<exists>c'. writer_run 3 (finish_close two_events) c' \<and> sc_finished c' \<and> sc_written c' = [''a'', ''b''] \<and>
     3 \<le> Suc (length (sc_queue two_events))"
proof -
  define c0 where "c0 = finish_close two_events"
  define c1 where "c1 = c0\<lparr>sc_queue := [''b''], sc_written := [''a'']\<rparr>"
  define c2 where "c2 = c0\<lparr>sc_queue := [], sc_written := [''a'', ''b'']\<rparr>"
  define c3 where "c3 = c2\<lparr>sc_finished := True\<rparr>"
  have s: "c1 \<in> set (writer_results c0)" "c2 \<in> set (writer_results c1)" "c3 \<in> set (writer_results c2)"
    by (simp_all add: c0_def c1_def c2_def c3_def finish_close_def two_events_def writer_results_def)
  have "writer_run (Suc (Suc (Suc 0))) c0 c3"
    by (rule Round [OF s(1)], rule Round [OF s(2)], rule Round [OF s(3)], rule Stop)
  then have r: "writer_run 3 c0 c3" by (simp add: numeral_3_eq_3)
  have "\<not> sc_finished two_events" by (simp add: two_events_def)
  from sse_finish_terminates [OF r [unfolded c0_def] this] r show ?thesis
    by (intro exI [of _ c3]) (auto simp: c0_def c2_def c3_def)
qed

theorem sse_delivers_in_order_witness:
  "\<exists>c c'. sse_create True 2 False = Inr c \<and> sse_step\<^sup>*\<^sup>* c c' \<and> sc_sent c' = [''x''] \<and>
     sc_written c' @ sc_queue c' = [''x'']"
proof -
  define c where "c = \<lparr>sc_cap = 2, sc_queue = [], sc_closed = False, sc_cancelled = False, sc_finished = False,
      sc_written = [], sc_sent = []\<rparr>"
  have n: "sse_create True 2 False = Inr c" by (simp add: sse_create_def sse_buffer_size_def c_def)
  have "sse_step c (c\<lparr>sc_queue := [''x''], sc_sent := [''x'']\<rparr>)"
    by (rule Send [of _ Sent "''x''"]) (simp_all add: push_results_def c_def)
  then have r: "sse_step\<^sup>*\<^sup>* c (c\<lparr>sc_queue := [''x''], sc_sent := [''x'']\<rparr>)" by auto
  from sse_delivers_in_order [OF n r] n r show ?thesis
    by (intro exI [of _ c] exI [of _ "c\<lparr>sc_queue := [''x''], sc_sent := [''x'']\<rparr>"]) simp
qed

text \<open>A client that does not keep up is cut off: a send into a full buffer is dropped and cancels the
  client, after which its writer may stop at any round.\<close>

theorem slow_client_cut_off:
  assumes "length (sc_queue c) = sc_cap c" and "\<not> sc_closed c" and "\<not> sc_cancelled c" and "\<not> sc_finished c"
  shows "push_results payload c = [(c\<lparr>sc_cancelled := True\<rparr>, NotSent)] \<and>
    c\<lparr>sc_cancelled := True, sc_finished := True\<rparr> \<in> set (writer_results (c\<lparr>sc_cancelled := True\<rparr>))"
  using assms by (simp add: push_results_def writer_results_def)

theorem slow_client_cut_off_witness:
  "push_results ''c'' two_events = [(two_events\<lparr>sc_cancelled := True\<rparr>, NotSent)]"
  using slow_client_cut_off [of two_events "''c''"] by (simp add: two_events_def)

text \<open>A send after \<open>Finish\<close> panics: always when the client was not cancelled, and possibly (the select
  may pick the closed channel) when it was.\<close>

theorem send_after_finish_panics:
  "(\<not> sc_cancelled c \<longrightarrow> push_results payload (finish_close c) = [(finish_close c, SendPanics)]) \<and>
   (finish_close c, SendPanics) \<in> set (push_results payload (finish_close c))"
  by (simp add: push_results_def finish_close_def)

theorem send_after_finish_panics_witness:
  "push_results ''c'' (finish_close two_events) = [(finish_close two_events, SendPanics)]"
  using send_after_finish_panics [of two_events "''c''"] by (simp add: two_events_def)

text \<open>The data of an event is not escaped: data with an empty line in it is, byte for byte, two events,
  the second one with the type and the data that the text chooses.\<close>

theorem event_data_splits:
  "format_event now ty
     (a @ [CHR 0x0A, CHR 0x0A] @ ''id: '' @ show_int i @ [CHR 0x0A] @ ''event: '' @ ty' @ [CHR 0x0A] @ ''data: '' @ b) =
   format_event now ty a @ format_event i ty' b"
  by (simp add: format_event_def)

end
