(* ===== verification/Chat_Controller.thy ===== *)
theory Chat_Controller
  imports Store_Properties Run_Limiter Redis_Lock Turn_Registry Chat_Pipeline Sse
begin

text \<open>
  The chat controller of internal/controller/chat: the session key of a request (session.go), the turn
  lock, the session of the registry, the input of a turn and the stored turn (chat_new.go), and the
  handler of /api/chat (chat_v1_chat.go).

  The handler and the session's goroutine run concurrently: \<open>chat_step\<close> interleaves the receiver that
  the session calls with each event of the trace (first its effects, then the send into the channel of
  four) with the handler that reads the channel or gives up when the context ends. The stores are used
  through the interfaces of \<open>Store_Interface\<close>; the lemmas about a whole turn are proved inside
  \<open>idempotent_store\<close> and hold for every store.
\<close>

section \<open>Keys, locks and inputs\<close>

definition session_key_of :: "ctx \<Rightarrow> string \<Rightarrow> session_key result" where
  "session_key_of c conversation_id =
     (case principal_from_context c of
        None \<Rightarrow> Inl ErrUnauthenticated
      | Some p \<Rightarrow>
          (let key = \<lparr>sk_tenant = p_tenant_id p, sk_user = p_user_id p, sk_conversation = conversation_id\<rparr>
           in case validate_key key of Some e \<Rightarrow> Inl e | None \<Rightarrow> Inr key))"

definition append_turn :: "'s appender \<Rightarrow> 's idempotent option \<Rightarrow> ctx option \<Rightarrow> session_key \<Rightarrow> string \<Rightarrow> msgptr \<Rightarrow> msgptr \<Rightarrow> ('s, unit) op" where
  "append_turn app idem c k ik u a s =
     (if ik = [] then app c k u a s
      else case idem of
             None \<Rightarrow> (s, Inl (ErrText ''conversation store does not support idempotency keys''))
           | Some f \<Rightarrow> (case f c k ik u a s of (s', Inl e) \<Rightarrow> (s', Inl e) | (s', Inr _) \<Rightarrow> (s', Inr ())))"

definition build_turn_input :: "'s loader \<Rightarrow> session_key \<Rightarrow> string \<Rightarrow> ctx option \<Rightarrow> ('s, agent_input option) op" where
  "build_turn_input load k question c s =
     (case load c k s of
        (s', Inl e) \<Rightarrow> (s', Inl e)
      | (s', Inr (history, _)) \<Rightarrow>
          (s', Inr (Some \<lparr>ai_messages = history @ [Some (user_message question)], ai_streaming = False\<rparr>)))"

text \<open>The lock of a turn: its lease, whether its context was cancelled, and the \<open>once\<close> of the release.\<close>

record turn_lock =
  tk_lease :: "lease option"
  tk_cancelled :: bool
  tk_released :: bool

definition lock_turn ::
  "locker option \<Rightarrow> session_key \<Rightarrow> string result \<Rightarrow> attempt list \<Rightarrow> lock_world \<Rightarrow> lock_world \<times> turn_lock result option" where
  "lock_turn l k token attempts w =
     (case l of
        None \<Rightarrow> (w, Some (Inr \<lparr>tk_lease = None, tk_cancelled = False, tk_released = False\<rparr>))
      | Some l' \<Rightarrow>
          (case redis_lock l' k token attempts w of
             (w', None) \<Rightarrow> (w', None)
           | (w', Some (Inl e)) \<Rightarrow> (w', Some (Inl e))
           | (w', Some (Inr le)) \<Rightarrow>
               (w', Some (Inr \<lparr>tk_lease = Some le, tk_cancelled = False, tk_released = False\<rparr>))))"

text \<open>The goroutine behind \<open>StartRenewal\<close>: an error of the renewal cancels the turn's context.\<close>

definition renewal_ended :: "go_error option \<Rightarrow> turn_lock \<Rightarrow> turn_lock" where
  "renewal_ended r tk = (case r of None \<Rightarrow> tk | Some _ \<Rightarrow> tk\<lparr>tk_cancelled := True\<rparr>)"

definition release_turn :: "reply \<Rightarrow> turn_lock \<Rightarrow> lock_world \<Rightarrow> turn_lock \<times> lock_world" where
  "release_turn r tk w =
     (case tk_lease tk of
        None \<Rightarrow> (tk, w)
      | Some le \<Rightarrow>
          if tk_released tk then (tk, w)
          else (tk\<lparr>tk_cancelled := True, tk_released := True\<rparr>, fst (redis_unlock r le w)))"

definition turn_session_of ::
  "bool \<Rightarrow> ctx option \<Rightarrow> session_key \<Rightarrow> int \<Rightarrow> (registry, nat) op" where
  "turn_session_of runtime_ready c k now r =
     (if \<not> runtime_ready then (r, Inl (ErrText ''chat agent runtime is not initialized''))
      else get_or_create c k (Some (\<lambda>_. Inr True)) now r)"

definition controller_close ::
  "(nat \<Rightarrow> go_error option) \<Rightarrow> run_limiter option \<Rightarrow> registry option \<Rightarrow> (run_limiter option \<times> registry option) \<times> go_error option" where
  "controller_close outcome limiter loops =
     (case loops of
        None \<Rightarrow> ((map_option limiter_close limiter, None), None)
      | Some r \<Rightarrow> (case registry_stop_all outcome r of
           (r', err) \<Rightarrow> ((map_option limiter_close limiter, Some r'), err)))"

section \<open>The chat turn\<close>

record 's chat_turn =
  ct_store :: 's
  ct_limiter :: "run_limiter option"
  ct_released :: bool
  ct_answer :: string

definition release_once :: "'s chat_turn \<Rightarrow> 's chat_turn" where
  "release_once t =
     (if ct_released t then t
      else t\<lparr>ct_released := True, ct_limiter := map_option limiter_release (ct_limiter t)\<rparr>)"

text \<open>\<open>emit\<close> up to the channel send: the turn and the event that it sends.\<close>

definition chat_emit ::
  "'s appender \<Rightarrow> 's idempotent option \<Rightarrow> session_key \<Rightarrow> string \<Rightarrow> string \<Rightarrow> ctx \<Rightarrow> turn_event \<Rightarrow> 's chat_turn \<Rightarrow> 's chat_turn \<times> turn_event" where
  "chat_emit app idem k ik question c ev t =
     (let t1 = (case te_message ev of None \<Rightarrow> t | Some m \<Rightarrow> t\<lparr>ct_answer := msg_content m\<rparr>);
          (t2, err) =
            (if te_done ev \<and> te_err ev = None then
               if ct_answer t1 = [] then (t1, Some (ErrText ''chat agent returned empty response''))
               else case append_turn app idem (Some c) k ik (Some (user_message question))
                           (Some (assistant_message (ct_answer t1))) (ct_store t1) of
                      (s', Inl e) \<Rightarrow> (t1\<lparr>ct_store := s'\<rparr>, Some e)
                    | (s', Inr _) \<Rightarrow> (t1\<lparr>ct_store := s'\<rparr>, None)
             else (t1, te_err ev));
          t3 = (if te_done ev \<or> err \<noteq> None then release_once t2 else t2)
      in (t3, ev\<lparr>te_err := err\<rparr>))"

text \<open>
  One request: the turn, the events the session still emits, the event waiting to be sent, the
  channel, the turn's context and the reply of the handler.
\<close>

record 's chat_run =
  cr_turn :: "'s chat_turn"
  cr_todo :: "turn_event list"
  cr_pending :: "turn_event option"
  cr_chan :: "turn_event list"
  cr_ctx :: ctx
  cr_reply :: "string result option"

definition handler_read :: "'s chat_run \<Rightarrow> 's chat_run" where
  "handler_read r =
     (case cr_chan r of
        [] \<Rightarrow> r
      | ev # rest \<Rightarrow>
          r\<lparr>cr_chan := rest,
            cr_reply :=
              (case te_err ev of
                 Some e \<Rightarrow> Some (Inl e)
               | None \<Rightarrow> if te_done ev then Some (Inr (ct_answer (cr_turn r))) else None)\<rparr>)"

text \<open>The session's goroutine, and the handler with the end of its context.\<close>

inductive emit_step for app idem k ik question where
  Process: "cr_pending r = None \<Longrightarrow> cr_todo r = ev # rest \<Longrightarrow>
    chat_emit app idem k ik question (cr_ctx r) ev (cr_turn r) = (t, ev') \<Longrightarrow>
    emit_step app idem k ik question r (r\<lparr>cr_turn := t, cr_todo := rest, cr_pending := Some ev'\<rparr>)"
| Enqueue: "cr_pending r = Some ev \<Longrightarrow> length (cr_chan r) < 4 \<Longrightarrow>
    emit_step app idem k ik question r (r\<lparr>cr_pending := None, cr_chan := cr_chan r @ [ev]\<rparr>)"

inductive handler_step :: "'s chat_run \<Rightarrow> 's chat_run \<Rightarrow> bool" where
  Read: "cr_reply r = None \<Longrightarrow> cr_chan r \<noteq> [] \<Longrightarrow> handler_step r (handler_read r)"
| End: "handler_step r (r\<lparr>cr_ctx := (cr_ctx r)\<lparr>ctx_err := Some e\<rparr>\<rparr>)"
| GiveUp: "cr_reply r = None \<Longrightarrow> ctx_err (cr_ctx r) = Some e \<Longrightarrow> handler_step r (r\<lparr>cr_reply := Some (Inl e)\<rparr>)"

inductive_cases emit_stepE: "emit_step app idem k ik question r r'"
inductive_cases handler_stepE: "handler_step r r'"

definition chat_step where
  "chat_step app idem k ik question r r' \<longleftrightarrow> emit_step app idem k ik question r r' \<or> handler_step r r'"

definition chat_start :: "'s \<Rightarrow> run_limiter option \<Rightarrow> ctx \<Rightarrow> turn_event list \<Rightarrow> 's chat_run" where
  "chat_start s limiter c trace =
     \<lparr>cr_turn = \<lparr>ct_store = s, ct_limiter = limiter, ct_released = False, ct_answer = []\<rparr>,
      cr_todo = trace, cr_pending = None, cr_chan = [], cr_ctx = c, cr_reply = None\<rparr>"

text \<open>The answer after a list of messages: the content of the last non-nil one.\<close>

fun answer_after :: "string \<Rightarrow> msgptr list \<Rightarrow> string" where
  "answer_after a [] = a"
| "answer_after a (None # ms) = answer_after a ms"
| "answer_after a (Some m # ms) = answer_after (msg_content m) ms"

lemma answer_after_append: "answer_after a (xs @ ys) = answer_after (answer_after a xs) ys"
  by (induction a xs rule: answer_after.induct) auto

lemma chat_emit_message:
  "chat_emit app idem k ik q c (message_event m) t = (t\<lparr>ct_answer := answer_after (ct_answer t) [m]\<rparr>, message_event m)"
  by (cases m) (auto simp: chat_emit_def message_event_def Let_def)

text \<open>
  The invariant of a run over the trace of messages \<open>msgs\<close> and end \<open>e\<close>: before the end only the answer
  has changed and no event in flight is final; afterwards the turn and the final event are those of
  one call of the receiver with the end, under the context of that moment.
\<close>

definition turn_before :: "'s \<Rightarrow> run_limiter option \<Rightarrow> msgptr list \<Rightarrow> 's chat_turn" where
  "turn_before s limiter msgs =
     \<lparr>ct_store = s, ct_limiter = limiter, ct_released = False, ct_answer = answer_after [] msgs\<rparr>"

definition plain_event :: "turn_event \<Rightarrow> bool" where
  "plain_event ev \<longleftrightarrow> \<not> te_done ev \<and> te_err ev = None"

definition in_flight :: "'s chat_run \<Rightarrow> turn_event set" where
  "in_flight r = set_option (cr_pending r) \<union> set (cr_chan r)"

definition running_inv where
  "running_inv s limiter msgs e r \<longleftrightarrow>
     (\<exists>ms1 ms2. msgs = ms1 @ ms2 \<and> cr_todo r = map message_event ms2 @ [done_event e] \<and>
        cr_turn r = turn_before s limiter ms1 \<and> (\<forall>ev \<in> in_flight r. plain_event ev) \<and>
        (\<forall>a. cr_reply r \<noteq> Some (Inr a)))"

definition ended_inv where
  "ended_inv app idem k ik q s limiter msgs e r \<longleftrightarrow>
     (\<exists>c ev. chat_emit app idem k ik q c (done_event e) (turn_before s limiter msgs) = (cr_turn r, ev) \<and>
        cr_todo r = [] \<and> (\<forall>ev' \<in> in_flight r. plain_event ev' \<or> ev' = ev) \<and>
        (\<forall>a. cr_reply r = Some (Inr a) \<longrightarrow> a = ct_answer (cr_turn r) \<and> te_err ev = None))"

lemma done_event_fields:
  "chat_emit app idem k ik q c (done_event e) t = (t', ev) \<Longrightarrow> te_done ev \<and> ct_released t' \<and> ct_answer t' = ct_answer t"
  by (auto simp: chat_emit_def done_event_def Let_def release_once_def split: if_splits prod.splits sum.splits)

lemma running_start: "running_inv s limiter msgs e (chat_start s limiter c (map message_event msgs @ [done_event e]))"
  unfolding running_inv_def
  by (intro exI [of _ "[]"] exI [of _ msgs]) (simp add: chat_start_def turn_before_def in_flight_def)

lemma in_flight_read: "in_flight (handler_read r) \<subseteq> in_flight r"
  by (auto simp: handler_read_def in_flight_def split: list.splits)

lemma handler_keeps:
  assumes "handler_step r r'"
  shows "cr_turn r' = cr_turn r \<and> cr_todo r' = cr_todo r \<and> in_flight r' \<subseteq> in_flight r \<and>
    (\<forall>a. cr_reply r' = Some (Inr a) \<longrightarrow> cr_reply r = Some (Inr a) \<or>
       a = ct_answer (cr_turn r) \<and> (\<exists>ev \<in> in_flight r. te_done ev \<and> te_err ev = None))"
  using assms
proof cases
  case Read
  then obtain ev rest where c: "cr_chan r = ev # rest" by (cases "cr_chan r") auto
  then have "ev \<in> in_flight r" by (simp add: in_flight_def)
  with Read c in_flight_read [of r] show ?thesis
    by (auto simp: handler_read_def split: option.splits if_splits)
qed (auto simp: in_flight_def)

lemma running_step:
  assumes "chat_step app idem k ik q r r'" and "running_inv s limiter msgs e r"
  shows "running_inv s limiter msgs e r' \<or> ended_inv app idem k ik q s limiter msgs e r'"
proof -
  obtain ms1 ms2 where m: "msgs = ms1 @ ms2" "cr_todo r = map message_event ms2 @ [done_event e]"
    "cr_turn r = turn_before s limiter ms1" "\<forall>ev \<in> in_flight r. plain_event ev" "\<forall>a. cr_reply r \<noteq> Some (Inr a)"
    using assms(2) unfolding running_inv_def by blast
  from assms(1) consider "emit_step app idem k ik q r r'" | "handler_step r r'" unfolding chat_step_def by blast
  then show ?thesis
  proof cases
    case 1
    then show ?thesis
    proof cases
      case (Process ev rest t ev')
      show ?thesis
      proof (cases ms2)
        case Nil
        then have "ev = done_event e" "rest = []" using m(2) Process(3) by auto
        with Process m Nil have "ended_inv app idem k ik q s limiter msgs e r'"
          unfolding ended_inv_def
          by (intro exI [of _ "cr_ctx r"] exI [of _ ev']) (auto simp: in_flight_def)
        then show ?thesis ..
      next
        case (Cons x xs)
        then have ev: "ev = message_event x" "rest = map message_event xs @ [done_event e]"
          using m(2) Process(3) by auto
        with Process m(3) have t: "t = turn_before s limiter (ms1 @ [x])" "ev' = message_event x"
          by (auto simp: chat_emit_message turn_before_def answer_after_append)
        have "running_inv s limiter msgs e r'"
          unfolding running_inv_def
          by (intro exI [of _ "ms1 @ [x]"] exI [of _ xs])
            (use Process m Cons ev t in \<open>auto simp: in_flight_def plain_event_def message_event_def\<close>)
        then show ?thesis ..
      qed
    next
      case (Enqueue ev)
      have "running_inv s limiter msgs e r'"
        unfolding running_inv_def
        by (intro exI [of _ ms1] exI [of _ ms2]) (use Enqueue m in \<open>auto simp: in_flight_def\<close>)
      then show ?thesis ..
    qed
  next
    case 2
    note h = handler_keeps [OF 2]
    have "running_inv s limiter msgs e r'"
      unfolding running_inv_def
      by (intro exI [of _ ms1] exI [of _ ms2]) (use h m in \<open>auto simp: plain_event_def\<close>)
    then show ?thesis ..
  qed
qed

lemma ended_step:
  assumes "chat_step app idem k ik q r r'" and "ended_inv app idem k ik q s limiter msgs e r"
  shows "ended_inv app idem k ik q s limiter msgs e r'"
proof -
  obtain c ev where m: "chat_emit app idem k ik q c (done_event e) (turn_before s limiter msgs) = (cr_turn r, ev)"
    "cr_todo r = []" "\<forall>ev' \<in> in_flight r. plain_event ev' \<or> ev' = ev"
    "\<forall>a. cr_reply r = Some (Inr a) \<longrightarrow> a = ct_answer (cr_turn r) \<and> te_err ev = None"
    using assms(2) unfolding ended_inv_def by blast
  from assms(1) consider "emit_step app idem k ik q r r'" | "handler_step r r'" unfolding chat_step_def by blast
  then show ?thesis
  proof cases
    case 1
    then show ?thesis
    proof cases
      case (Enqueue x)
      show ?thesis unfolding ended_inv_def
        by (intro exI [of _ c] exI [of _ ev]) (use Enqueue m in \<open>auto simp: in_flight_def\<close>)
    qed (use m in simp)
  next
    case 2
    note h = handler_keeps [OF 2]
    show ?thesis unfolding ended_inv_def
      by (intro exI [of _ c] exI [of _ ev]) (use h m in \<open>auto simp: plain_event_def\<close>)
  qed
qed

lemma chat_reachable:
  assumes "(chat_step app idem k ik q)\<^sup>*\<^sup>* (chat_start s limiter c (map message_event msgs @ [done_event e])) r"
  shows "running_inv s limiter msgs e r \<or> ended_inv app idem k ik q s limiter msgs e r"
  using assms
proof (induction rule: rtranclp_induct)
  case base
  show ?case by (rule disjI1, rule running_start)
next
  case (step r r')
  then show ?case using running_step ended_step by metis
qed

section \<open>What a turn does to a store\<close>

context idempotent_store
begin

lemma append_turn_effect:
  assumes "inv s" and "ok_key k"
    and "append_turn append (Some append_idem) c k ik (Some u) (Some a) s = (s', r)"
  shows "inv s' \<and> limit s' = limit s \<and>
    (view s' = view s \<or> view s' = (view s)(k := spec_turn (limit s) (canon u) (canon a) (view s k))) \<and>
    (r = Inr () \<longrightarrow> view s' = (view s)(k := spec_turn (limit s) (canon u) (canon a) (view s k)) \<or>
       (ik \<noteq> [] \<and> (\<exists>h. turn_hash u a = Inr h \<and> used s k ik = Some h)))"
proof (cases "ik = []")
  case True
  then have app: "append c k (Some u) (Some a) s = (s', r)" using assms(3) by (simp add: append_turn_def)
  show ?thesis
  proof (cases r)
    case (Inl e)
    with append_keeps [OF assms(1,2) app] append_err [OF assms(1,2)] app show ?thesis by fastforce
  next
    case (Inr x)
    with append_keeps [OF assms(1,2) app] append_ok [OF assms(1,2)] app show ?thesis by fastforce
  qed
next
  case False
  obtain b where app: "append_idem c k ik (Some u) (Some a) s = (s', b)"
    and r: "r = (case b of Inl e \<Rightarrow> Inl e | Inr _ \<Rightarrow> Inr ())"
    using assms(3) False by (auto simp: append_turn_def split: prod.splits sum.splits)
  show ?thesis
  proof (cases b)
    case (Inl e)
    with idem_keeps [OF assms(1,2) app] idem_err [OF assms(1,2)] app r show ?thesis by fastforce
  next
    case (Inr x)
    with idem_keeps [OF assms(1,2) app] idem_true [OF assms(1,2)] idem_false [OF assms(1,2)] app r False
    show ?thesis by (cases x) fastforce+
  qed
qed

definition turn_done :: "'a \<Rightarrow> session_key \<Rightarrow> string \<Rightarrow> string \<Rightarrow> 'a \<Rightarrow> bool" where
  "turn_done s k q answer s' \<longleftrightarrow>
     view s' = (view s)(k := spec_turn (limit s) (canon (user_message q)) (canon (assistant_message answer)) (view s k))"

lemma chat_emit_end:
  assumes "inv s" and "ok_key k"
    and "chat_emit append (Some append_idem) k ik q c (done_event e) (turn_before s limiter msgs) = (t, ev)"
  shows "inv (ct_store t) \<and> limit (ct_store t) = limit s \<and>
    (view (ct_store t) = view s \<or> turn_done s k q (answer_after [] msgs) (ct_store t)) \<and>
    (te_err ev = None \<longrightarrow> e = None \<and> answer_after [] msgs \<noteq> [] \<and>
       (turn_done s k q (answer_after [] msgs) (ct_store t) \<or>
        (ik \<noteq> [] \<and> (\<exists>h. turn_hash (user_message q) (assistant_message (answer_after [] msgs)) = Inr h \<and>
           used s k ik = Some h))))"
proof (cases "e = None \<and> answer_after [] msgs \<noteq> []")
  case True
  obtain s' r where app: "append_turn append (Some append_idem) (Some c) k ik (Some (user_message q))
      (Some (assistant_message (answer_after [] msgs))) s = (s', r)" by fastforce
  with True assms(3) have "ct_store t = s' \<and> te_err ev = (case r of Inl e \<Rightarrow> Some e | Inr _ \<Rightarrow> None)"
    by (auto simp: chat_emit_def done_event_def turn_before_def Let_def release_once_def split: sum.splits)
  with append_turn_effect [OF assms(1,2) app] True show ?thesis
    by (cases r) (auto simp: turn_done_def)
next
  case False
  with assms(3) have "ct_store t = s \<and> te_err ev \<noteq> None"
    by (auto simp: chat_emit_def done_event_def turn_before_def Let_def release_once_def split: if_splits)
  with assms(1) False show ?thesis by auto
qed

text \<open>A whole request, in any interleaving.\<close>

lemma chat_run_effect:
  assumes "inv s" and "ok_key k"
    and "(chat_step append (Some append_idem) k ik q)\<^sup>*\<^sup>* (chat_start s limiter c (map message_event msgs @ [done_event e])) r"
  shows "inv (ct_store (cr_turn r)) \<and>
    (view (ct_store (cr_turn r)) = view s \<or> turn_done s k q (answer_after [] msgs) (ct_store (cr_turn r))) \<and>
    (\<forall>a. cr_reply r = Some (Inr a) \<longrightarrow> a = answer_after [] msgs \<and> a \<noteq> [] \<and> e = None \<and> ct_released (cr_turn r) \<and>
       (turn_done s k q a (ct_store (cr_turn r)) \<or>
        (ik \<noteq> [] \<and> (\<exists>h. turn_hash (user_message q) (assistant_message a) = Inr h \<and> used s k ik = Some h))))"
  using chat_reachable [OF assms(3)]
proof
  assume "running_inv s limiter msgs e r"
  with assms(1) show ?thesis by (auto simp: running_inv_def turn_before_def)
next
  assume "ended_inv append (Some append_idem) k ik q s limiter msgs e r"
  then obtain c' ev where
    emit: "chat_emit append (Some append_idem) k ik q c' (done_event e) (turn_before s limiter msgs) = (cr_turn r, ev)"
    and reply: "\<forall>a. cr_reply r = Some (Inr a) \<longrightarrow> a = ct_answer (cr_turn r) \<and> te_err ev = None"
    unfolding ended_inv_def by blast
  from chat_emit_end [OF assms(1,2) emit] done_event_fields [OF emit] reply show ?thesis
    by (auto simp: turn_before_def)
qed

lemma build_turn_input_ok:
  assumes "inv s" and "ok_key k" and "build_turn_input load k q c s = (s', Inr i)"
  shows "i = Some \<lparr>ai_messages = fst (view s k) @ [Some (user_message q)], ai_streaming = False\<rparr> \<and>
    view s' = view s \<and> inv s'"
proof -
  obtain h v where ld: "load c k s = (s', Inr (h, v))"
    and i: "i = Some \<lparr>ai_messages = h @ [Some (user_message q)], ai_streaming = False\<rparr>"
    using assms(3) by (auto simp: build_turn_input_def split: prod.splits sum.splits)
  from load_ok [OF assms(1,2) ld] load_keeps [OF assms(1,2) ld] i show ?thesis by (metis fst_conv)
qed

lemma chat_retry_conflicts:
  assumes "inv s" and "ok_key k" and "ik \<noteq> []" and "used s k ik = Some h"
    and "turn_hash (user_message q) (assistant_message (answer_after [] msgs)) = Inr h'" and "h' \<noteq> h"
    and "(chat_step append (Some append_idem) k ik q)\<^sup>*\<^sup>* (chat_start s limiter c (map message_event msgs @ [done_event e])) r"
  shows "view (ct_store (cr_turn r)) = view s \<and> (\<forall>a. cr_reply r \<noteq> Some (Inr a))"
  using chat_reachable [OF assms(7)]
proof
  assume "running_inv s limiter msgs e r"
  then show ?thesis by (auto simp: running_inv_def turn_before_def)
next
  assume "ended_inv append (Some append_idem) k ik q s limiter msgs e r"
  then obtain c' ev where
    emit: "chat_emit append (Some append_idem) k ik q c' (done_event e) (turn_before s limiter msgs) = (cr_turn r, ev)"
    and reply: "\<forall>a. cr_reply r = Some (Inr a) \<longrightarrow> a = ct_answer (cr_turn r) \<and> te_err ev = None"
    unfolding ended_inv_def by blast
  obtain s' b where app: "append_idem (Some c') k ik (Some (user_message q))
      (Some (assistant_message (answer_after [] msgs))) s = (s', b)" by fastforce
  note rejected = reused_key_rejected [OF assms(1,2,4,5,6) app]
  then obtain e' where "b = Inl e'" by blast
  with app assms(3) emit have "te_err ev \<noteq> None \<and> (ct_store (cr_turn r) = s \<or> ct_store (cr_turn r) = s')"
    by (auto simp: chat_emit_def done_event_def turn_before_def append_turn_def Let_def release_once_def
        split: if_splits dest!: sym [of _ "cr_turn r"])
  with rejected reply show ?thesis by auto
qed

end

section \<open>Progress of the session's goroutine\<close>

definition events_left :: "'s chat_run \<Rightarrow> nat" where
  "events_left r = length (cr_todo r) + (if cr_pending r = None then 0 else 1) + length (cr_chan r)"

lemma events_left_step: "chat_step app idem k ik q r r' \<Longrightarrow> events_left r' \<le> events_left r"
  unfolding chat_step_def
proof (elim disjE)
  assume "emit_step app idem k ik q r r'"
  then show ?thesis by cases (auto simp: events_left_def)
next
  assume "handler_step r r'"
  then show ?thesis by cases (auto simp: events_left_def handler_read_def split: list.splits)
qed

lemma events_left_reachable:
  "(chat_step app idem k ik q)\<^sup>*\<^sup>* r r' \<Longrightarrow> events_left r' \<le> events_left r"
  by (induction rule: rtranclp_induct) (auto dest: events_left_step)

lemma events_left_start [simp]: "events_left (chat_start s limiter c trace) = length trace"
  by (simp add: events_left_def chat_start_def)

lemma emit_step_enabled:
  assumes "cr_pending r \<noteq> None \<or> cr_todo r \<noteq> []" and "events_left r \<le> 4"
  shows "\<exists>r'. emit_step app idem k ik q r r'"
proof (cases "cr_pending r")
  case None
  then obtain ev rest where "cr_todo r = ev # rest" using assms(1) by (cases "cr_todo r") auto
  with None show ?thesis
    by (cases "chat_emit app idem k ik q (cr_ctx r) ev (cr_turn r)") (blast intro: emit_step.Process)
next
  case (Some ev)
  then have "length (cr_chan r) < 4" using assms(2) by (simp add: events_left_def)
  with Some show ?thesis by (blast intro: emit_step.Enqueue)
qed

end
