(* ===== verification/Chat_Properties.thy ===== *)
theory Chat_Properties
  imports Chat_Controller Auth
begin

text \<open>
  The properties of a chat request over the stores of the program, in every interleaving of the
  handler, the end of its context and the session's goroutine: what a reply promises, what is in the
  store when the request is over, that the limiter's token comes back, and that the goroutine never
  hangs on the channel as long as an agent emits at most three messages.
\<close>

section \<open>A schedule that can be evaluated\<close>

definition drive_step where
  "drive_step app idem k ik q r =
     (case cr_pending r of
        Some ev \<Rightarrow>
          if length (cr_chan r) < 4 then r\<lparr>cr_pending := None, cr_chan := cr_chan r @ [ev]\<rparr> else r
      | None \<Rightarrow>
          if cr_chan r \<noteq> [] \<and> cr_reply r = None then handler_read r
          else case cr_todo r of
                 [] \<Rightarrow> r
               | ev # rest \<Rightarrow>
                   (case chat_emit app idem k ik q (cr_ctx r) ev (cr_turn r) of
                      (t, ev') \<Rightarrow> r\<lparr>cr_turn := t, cr_todo := rest, cr_pending := Some ev'\<rparr>))"

fun drive where
  "drive app idem k ik q 0 r = r"
| "drive app idem k ik q (Suc n) r = drive app idem k ik q n (drive_step app idem k ik q r)"

lemma drive_step_reachable: "(chat_step app idem k ik q)\<^sup>*\<^sup>* r (drive_step app idem k ik q r)"
proof (cases "drive_step app idem k ik q r = r")
  case False
  then have "chat_step app idem k ik q r (drive_step app idem k ik q r)"
    unfolding chat_step_def
    by (auto simp: drive_step_def split: option.splits if_splits list.splits prod.splits
        intro: emit_step.Process handler_step.Read dest: emit_step.Enqueue)
  then show ?thesis ..
qed simp

lemma drive_reachable: "(chat_step app idem k ik q)\<^sup>*\<^sup>* r (drive app idem k ik q n r)"
proof (induction n arbitrary: r)
  case (Suc n)
  show ?case unfolding drive.simps using drive_step_reachable Suc.IH by (rule rtranclp_trans)
qed simp

section \<open>What a reply promises\<close>

text \<open>(C1) A request over PostgreSQL, under every schedule of database faults and every interleaving
  with the session's goroutine and the end of its context: the store stays well formed and holds
  either what it held or that and exactly this turn. A reply carries the agent's last message, which
  is not empty, and means that the turn was stored, or that it had been stored before under the
  request's idempotency key.\<close>

theorem reply_means_stored:
  assumes "sql_inv cod s"
    and "(chat_step (sql_append cod) (Some (sql_append_idempotent cod)) k ik q)\<^sup>*\<^sup>*
      (chat_start s limiter c (map message_event msgs @ [done_event e])) r"
  shows "let t = cr_turn r; a = answer_after [] msgs;
             stored = (sql_view cod (ct_store t) = (sql_view cod s)(k :=
               spec_turn (ss_max s) (sql_canon cod (user_message q)) (sql_canon cod (assistant_message a)) (sql_view cod s k)))
         in sql_inv cod (ct_store t) \<and> (stored \<or> sql_view cod (ct_store t) = sql_view cod s) \<and>
            (\<forall>a'. cr_reply r = Some (Inr a') \<longrightarrow> a' = a \<and> a \<noteq> [] \<and> e = None \<and> ct_released t \<and>
               (stored \<or> ik \<noteq> [] \<and>
                 (\<exists>h. cod_hash cod (user_message q) (assistant_message a) = Inr h \<and> sql_used s k ik = Some h)))"
  using sql.chat_run_effect [OF assms(1) TrueI assms(2)]
  unfolding sql.turn_done_def by (auto simp: Let_def)

definition sample_run where
  "sample_run fault n = drive (sql_append sample_codec) (Some (sql_append_idempotent sample_codec)) key_a ''k1'' ''q'' n
     (chat_start (open_sql fault) None background
        (map message_event [Some (assistant_message ''a'')] @ [done_event None]))"

lemma sample_run_reachable:
  "(chat_step (sql_append sample_codec) (Some (sql_append_idempotent sample_codec)) key_a ''k1'' ''q'')\<^sup>*\<^sup>*
     (chat_start (open_sql fault) None background (map message_event [Some (assistant_message ''a'')] @ [done_event None]))
     (sample_run fault n)"
  unfolding sample_run_def by (rule drive_reachable)

theorem reply_means_stored_witness:
  "cr_reply (sample_run no_faults 6) = Some (Inr ''a'') \<and>
   sql_view sample_codec (ct_store (cr_turn (sample_run no_faults 6))) key_a =
     spec_turn 4 (sql_canon sample_codec (user_message ''q'')) (sql_canon sample_codec (assistant_message ''a'')) ([], 0)"
proof -
  have r: "cr_reply (sample_run no_faults 6) = Some (Inr ''a'')" by code_simp
  have max: "ss_max (open_sql no_faults) = 4" by (simp add: open_sql_def)
  from reply_means_stored [OF open_sql_inv sample_run_reachable, of no_faults 6] r max
  show ?thesis by (auto simp: Let_def)
qed

section \<open>The limiter's token\<close>

lemma done_event_releases:
  assumes "chat_emit app idem k ik q c (done_event e) (turn_before s limiter msgs) = (t, ev)"
  shows "ct_released t \<and> ct_limiter t = map_option limiter_release limiter"
  using assms
  by (auto simp: chat_emit_def done_event_def turn_before_def Let_def release_once_def
      split: if_splits prod.splits sum.splits)


definition failing_run where
  "failing_run n = drive mem_append None key_a [] ''q'' n
     (chat_start (new_memory_store 6) (Some ((new_run_limiter 2)\<lparr>rl_tokens := 1\<rparr>)) background
        (map message_event [] @ [done_event (Some (ErrText ''model unavailable''))]))"


section \<open>The session's goroutine\<close>

lemma emit_step_measure:
  assumes "emit_step app idem k ik q r r'"
  shows "2 * length (cr_todo r') + (if cr_pending r' = None then 0 else 1) <
    2 * length (cr_todo r) + (if cr_pending r = None then 0 else (1::nat))"
  using assms by cases auto

lemma emit_steps_are_steps: "(emit_step app idem k ik q)\<^sup>*\<^sup>* r r' \<Longrightarrow> (chat_step app idem k ik q)\<^sup>*\<^sup>* r r'"
  by (induction rule: rtranclp_induct) (auto simp: chat_step_def intro: rtranclp.rtrancl_into_rtrancl)

lemma emission_completes:
  "events_left r \<le> 4 \<Longrightarrow> \<exists>r'. (emit_step app idem k ik q)\<^sup>*\<^sup>* r r' \<and> cr_todo r' = [] \<and> cr_pending r' = None"
proof (induction "2 * length (cr_todo r) + (if cr_pending r = None then 0 else (1::nat))" arbitrary: r rule: less_induct)
  case less
  show ?case
  proof (cases "cr_pending r \<noteq> None \<or> cr_todo r \<noteq> []")
    case True
    obtain r' where st: "emit_step app idem k ik q r r'" using emit_step_enabled [OF True less.prems] by blast
    have "events_left r' \<le> 4" using events_left_step [of app idem k ik q r r'] st less.prems by (simp add: chat_step_def)
    from less.hyps [OF emit_step_measure [OF st] this] st show ?thesis
      by (meson converse_rtranclp_into_rtranclp)
  qed auto
qed

text \<open>(C6) The channel of four events is enough for an agent that emits at most three messages: from
  every reachable state of the request, even after the handler has given up and stopped reading, the
  session's goroutine alone can emit all its events, so it never hangs in a send and the token of the
  limiter comes back.\<close>

theorem emission_never_blocks:
  assumes "length msgs \<le> 3"
    and "(chat_step app idem k ik q)\<^sup>*\<^sup>* (chat_start s limiter c (map message_event msgs @ [done_event e])) r"
  shows "\<exists>r'. (emit_step app idem k ik q)\<^sup>*\<^sup>* r r' \<and> cr_todo r' = [] \<and> cr_pending r' = None \<and> ct_released (cr_turn r')"
proof -
  have "events_left r \<le> 4" using events_left_reachable [OF assms(2)] assms(1) by simp
  then obtain r' where r': "(emit_step app idem k ik q)\<^sup>*\<^sup>* r r'" "cr_todo r' = []" "cr_pending r' = None"
    using emission_completes by blast
  have "(chat_step app idem k ik q)\<^sup>*\<^sup>* (chat_start s limiter c (map message_event msgs @ [done_event e])) r'"
    using assms(2) emit_steps_are_steps [OF r'(1)] by (rule rtranclp_trans)
  with r' chat_reachable [OF this] show ?thesis
    using done_event_fields by (fastforce simp: running_inv_def ended_inv_def)
qed

definition given_up where
  "given_up msgs = (chat_start (new_memory_store 6) None (background\<lparr>ctx_err := Some Canceled\<rparr>)
     (map message_event msgs @ [done_event None]))\<lparr>cr_reply := Some (Inl Canceled)\<rparr>"

lemma given_up_reachable:
  "(chat_step app idem k ik q)\<^sup>*\<^sup>* (chat_start (new_memory_store 6) None (background\<lparr>ctx_err := Some Canceled\<rparr>)
     (map message_event msgs @ [done_event None])) (given_up msgs)"
  unfolding given_up_def
  by (rule r_into_rtranclp, unfold chat_step_def, rule disjI2, rule handler_step.GiveUp [where e = Canceled])
    (simp_all add: chat_start_def)

theorem emission_never_blocks_witness:
  "\<exists>r'. (emit_step mem_append None key_a [] ''q'')\<^sup>*\<^sup>* (given_up [Some (assistant_message ''a'')]) r' \<and>
    cr_todo r' = [] \<and> cr_pending r' = None \<and> ct_released (cr_turn r')"
  using emission_never_blocks [OF _ given_up_reachable] by simp

text \<open>With an agent that emits more than four events that bound is lost: a handler that gives up
  leaves the goroutine blocked in its fifth send, no step of the program changes the turn again, and
  the limiter's token is never returned.\<close>

theorem abandoned_turn_keeps_token:
  assumes "cr_reply r \<noteq> None" and "cr_pending r \<noteq> None" and "length (cr_chan r) = 4"
    and "(chat_step app idem k ik q)\<^sup>*\<^sup>* r r'"
  shows "cr_turn r' = cr_turn r \<and> cr_pending r' = cr_pending r \<and> cr_todo r' = cr_todo r \<and>
    \<not> (\<exists>r''. emit_step app idem k ik q r' r'')"
proof -
  have "cr_turn r' = cr_turn r \<and> cr_pending r' = cr_pending r \<and> cr_todo r' = cr_todo r \<and>
    cr_reply r' = cr_reply r \<and> cr_chan r' = cr_chan r"
    using assms(4)
  proof (induction rule: rtranclp_induct)
    case (step y z)
    from step.hyps(2) have "handler_step y z"
      using step.IH assms(2,3) by (auto simp: chat_step_def elim!: emit_stepE)
    with step.IH assms(1) show ?case by (auto elim!: handler_stepE)
  qed simp
  with assms(2,3) show ?thesis by (auto elim!: emit_stepE)
qed

definition five_messages :: "msgptr list" where
  "five_messages = map (\<lambda>a. Some (assistant_message a)) [''a'', ''b'', ''c'', ''d'', ''e'']"

definition stuck_run where
  "stuck_run = drive mem_append None key_a [] ''q'' 9 (given_up five_messages)"

theorem abandoned_turn_keeps_token_witness:
  "(chat_step mem_append None key_a [] ''q'')\<^sup>*\<^sup>* (given_up five_messages) stuck_run \<and>
   \<not> ct_released (cr_turn stuck_run) \<and>
   (\<forall>r'. (chat_step mem_append None key_a [] ''q'')\<^sup>*\<^sup>* stuck_run r' \<longrightarrow> \<not> ct_released (cr_turn r'))"
proof -
  have f: "cr_reply stuck_run \<noteq> None" "cr_pending stuck_run \<noteq> None" "length (cr_chan stuck_run) = 4"
    "\<not> ct_released (cr_turn stuck_run)" by code_simp+
  from abandoned_turn_keeps_token [OF f(1-3)] f(4) show ?thesis
    using drive_reachable unfolding stuck_run_def by metis
qed

section \<open>Conversations\<close>


definition first_turn where
  "first_turn = drive (sql_append sample_codec) (Some (sql_append_idempotent sample_codec)) key_a [] ''q'' 6
     (chat_start (open_sql no_faults) None background
        (map message_event [Some (assistant_message ''a'')] @ [done_event None]))"


text \<open>The hash behind an idempotency key covers the answer, so a genuine retry of a request whose
  first reply was lost is refused as soon as the agent words its answer differently: the request fails
  on every run and nothing is stored, although the client repeated exactly what it had sent.\<close>

theorem retry_with_new_answer_conflicts:
  assumes "mem_inv s" and "ik \<noteq> []" and "mem_used s k ik = Some h"
    and "hash (user_message q) (assistant_message (answer_after [] msgs)) = Inr h'" and "h' \<noteq> h"
    and "(chat_step mem_append (Some (mem_append_idempotent hash)) k ik q)\<^sup>*\<^sup>*
      (chat_start s limiter c (map message_event msgs @ [done_event e])) r"
  shows "mem_view (ct_store (cr_turn r)) = mem_view s \<and> (\<forall>a. cr_reply r \<noteq> Some (Inr a))"
  using mem.chat_retry_conflicts [OF assms(1) TrueI assms(2-6)] .

definition retried_run where
  "retried_run = drive mem_append (Some (mem_append_idempotent (cod_hash sample_codec))) key_a ''k1'' ''q'' 6
     (chat_start used_once None background
        (map message_event [Some (assistant_message ''other'')] @ [done_event None]))"

theorem retry_with_new_answer_conflicts_witness:
  "mem_used used_once key_a ''k1'' = Some (''q'' @ CHR 0x00 # ''a'') \<and>
   cr_reply retried_run = Some (Inl ErrIdempotencyConflict) \<and>
   mem_view (ct_store (cr_turn retried_run)) = mem_view used_once"
proof -
  have reach: "(chat_step mem_append (Some (mem_append_idempotent (cod_hash sample_codec))) key_a ''k1'' ''q'')\<^sup>*\<^sup>*
      (chat_start used_once None background
        (map message_event [Some (assistant_message ''other'')] @ [done_event None])) retried_run"
    unfolding retried_run_def by (rule drive_reachable)
  have u: "mem_used used_once key_a ''k1'' = Some (''q'' @ CHR 0x00 # ''a'')" by code_simp
  have r: "cr_reply retried_run = Some (Inl ErrIdempotencyConflict)" by code_simp
  have i: "mem_inv used_once"
    unfolding used_once_def
    by (rule mem.idem_keeps [OF mem_inv_new TrueI, THEN conjunct1]) (rule surjective_pairing)
  have h: "cod_hash sample_codec (user_message ''q'')
      (assistant_message (answer_after [] [Some (assistant_message ''other'')])) = Inr (''q'' @ CHR 0x00 # ''other'')"
    by (simp add: sample_codec_def)
  have "''q'' @ CHR 0x00 # ''other'' \<noteq> ''q'' @ CHR 0x00 # ''a''" "''k1'' \<noteq> ([] :: string)" by simp_all
  from retry_with_new_answer_conflicts [OF i this(2) u h this(1) reach] u r show ?thesis by simp
qed

text \<open>(C9) Two requests that passed the middleware reach the same session only if their tokens belong to
  the same user of the same tenant and they name the same conversation; a request that did not pass it
  has no session.\<close>

theorem sessions_follow_tokens:
  assumes "auth_middleware jl sv now h c = Proceed c1" and "auth_middleware jl sv now' h' c' = Proceed c2"
    and "session_key_of c1 i1 = Inr k" and "session_key_of c2 i2 = Inr k"
  shows "\<exists>t1 t2 p1 p2. bearer_token h = Some t1 \<and> auth_validate jl sv now t1 = Inr p1 \<and>
    bearer_token h' = Some t2 \<and> auth_validate jl sv now' t2 = Inr p2 \<and>
    p_tenant_id p1 = p_tenant_id p2 \<and> p_user_id p1 = p_user_id p2 \<and> i1 = i2 \<and> i1 \<noteq> [] \<and>
    session_key_of (c1\<lparr>ctx_principal := None\<rparr>) i1 = Inl ErrUnauthenticated"
proof -
  obtain t1 p1 where 1: "bearer_token h = Some t1" "auth_validate jl sv now t1 = Inr p1" "c1 = with_principal c p1"
    using assms(1) by (auto simp: auth_middleware_def split: option.splits sum.splits if_splits)
  obtain t2 p2 where 2: "bearer_token h' = Some t2" "auth_validate jl sv now' t2 = Inr p2" "c2 = with_principal c' p2"
    using assms(2) by (auto simp: auth_middleware_def split: option.splits sum.splits if_splits)
  from assms(3,4) 1(3) 2(3) have "p_tenant_id p1 = p_tenant_id p2 \<and> p_user_id p1 = p_user_id p2 \<and> i1 = i2 \<and> i1 \<noteq> []"
    by (auto simp: session_key_of_def Let_def validate_key_def split: option.splits if_splits)
  moreover have "session_key_of (c1\<lparr>ctx_principal := None\<rparr>) i1 = Inl ErrUnauthenticated"
    by (simp add: session_key_of_def principal_from_context_def)
  ultimately show ?thesis using 1 2 by blast
qed

theorem sessions_follow_tokens_witness:
  "\<exists>s token (p :: principal) c1. auth_middleware one_token_jwt s 7999999999 (''Bearer '' @ token) background = Proceed c1 \<and>
     bearer_token (''Bearer '' @ token) = Some token \<and>
     session_key_of c1 ''c1'' = Inr \<lparr>sk_tenant = p_tenant_id p, sk_user = p_user_id p, sk_conversation = ''c1''\<rparr> \<and>
     session_key_of (c1\<lparr>ctx_principal := None\<rparr>) ''c1'' = Inl ErrUnauthenticated"
proof -
  define s where "s = \<lparr>as_issuer = ''superbizagent-local'', as_secret = the_secret, as_ttl = 3000000000,
      as_users = [''alice'' \<mapsto> hd (ac_users alice_config)]\<rparr>"
  have bt: "bearer_token (''Bearer '' @ ''aa.bb.cc'') = Some ''aa.bb.cc''" by code_simp
  have tr: "trim_space ''aa.bb.cc'' = ''aa.bb.cc''" by code_simp
  define p where "p = \<lparr>p_user_id = ''user-alice'', p_tenant_id = ''tenant-acme'', p_username = ''alice'', p_roles = [''operator'']\<rparr>"
  have v: "auth_validate one_token_jwt s 7999999999 ''aa.bb.cc'' = Inr p"
    using tr by (simp add: auth_validate_def s_def one_token_jwt_def token_key_def the_claims_def p_def)
  then have m: "auth_middleware one_token_jwt s 7999999999 (''Bearer '' @ ''aa.bb.cc'') background =
      Proceed (with_principal background p)"
    using bt by (simp add: auth_middleware_def)
  let ?k = "\<lparr>sk_tenant = ''tenant-acme'', sk_user = ''user-alice'', sk_conversation = ''c1''\<rparr>"
  have k: "session_key_of (with_principal background p) ''c1'' = Inr ?k"
    by (simp add: session_key_of_def p_def Let_def validate_key_def)
  from sessions_follow_tokens [OF m m k k] m k bt v show ?thesis
    by (intro exI [of _ s] exI [of _ "''aa.bb.cc''"] exI [of _ p] exI [of _ "with_principal background p"])
      (auto simp: p_def)
qed

end
