(* ===== verification/Chat_Stream.thy ===== *)
theory Chat_Stream
  imports Chat_Properties Sse
begin

text \<open>
  The streaming handler of internal/controller/chat/chat_v1_chat_stream.go. Its receiver forwards every
  message to the event client, stores the whole answer at the end of the turn and reports the end over a
  channel of one; the handler waits for that report or for the end of its context and then finishes the
  client. \<open>stream_step\<close> interleaves the session's goroutine, the handler, the writer of the client and
  the end of the request. The receiver is split where another goroutine can come between its effects
  that matter: before the final \<open>done\<close> event, after the turn was stored.
\<close>

section \<open>The receiver\<close>

record 's stream_turn =
  st_store :: 's
  st_limiter :: "run_limiter option"
  st_released :: bool
  st_response :: string
  st_client :: "sse_client option"
  st_done :: "go_error option list"

definition stream_release :: "'s stream_turn \<Rightarrow> 's stream_turn" where
  "stream_release t =
     (if st_released t then t
      else t\<lparr>st_released := True, st_limiter := map_option limiter_release (st_limiter t)\<rparr>)"

definition report :: "go_error option \<Rightarrow> 's stream_turn \<Rightarrow> 's stream_turn" where
  "report e t = t\<lparr>st_done := st_done t @ [e]\<rparr>"

text \<open>The possible results of \<open>send\<close>.\<close>

definition stream_send :: "int \<Rightarrow> string \<Rightarrow> string \<Rightarrow> 's stream_turn \<Rightarrow> ('s stream_turn \<times> send_outcome) list" where
  "stream_send now ty data t =
     map (\<lambda>(c, r). (t\<lparr>st_client := c\<rparr>, r)) (send_to_client now ty data (st_client t))"

text \<open>What a call of the receiver comes to: it returns, it is about to send the final event, or it panics.\<close>

datatype emit_outcome = Returns "go_error option" | AboutToFinish | Panics

definition failed_send :: "'s stream_turn \<Rightarrow> 's stream_turn \<times> emit_outcome" where
  "failed_send t = (report (Some ErrUnavailable) (stream_release t), Returns (Some ErrUnavailable))"

text \<open>The part that follows the message of an event.\<close>

definition stream_end ::
  "'s appender \<Rightarrow> 's idempotent option \<Rightarrow> session_key \<Rightarrow> string \<Rightarrow> string \<Rightarrow> ctx \<Rightarrow> turn_event \<Rightarrow> 's stream_turn \<Rightarrow>
   's stream_turn \<times> emit_outcome" where
  "stream_end app idem k ik question c ev t =
     (if \<not> te_done ev then (t, Returns None)
      else case te_err ev of
             Some e \<Rightarrow> (report (Some e) (stream_release t), Returns None)
           | None \<Rightarrow>
               if st_response t = []
               then (report (Some (ErrText ''chat agent returned empty stream'')) (stream_release t), Returns None)
               else case append_turn app idem (Some c) k ik (Some (user_message question))
                           (Some (assistant_message (st_response t))) (st_store t) of
                      (s', Inl e) \<Rightarrow> (report (Some e) (stream_release (t\<lparr>st_store := s'\<rparr>)), Returns None)
                    | (s', Inr _) \<Rightarrow> (t\<lparr>st_store := s'\<rparr>, AboutToFinish))"

definition stream_emit ::
  "'s appender \<Rightarrow> 's idempotent option \<Rightarrow> session_key \<Rightarrow> string \<Rightarrow> string \<Rightarrow> ctx \<Rightarrow> int \<Rightarrow> turn_event \<Rightarrow> 's stream_turn \<Rightarrow>
   ('s stream_turn \<times> emit_outcome) list" where
  "stream_emit app idem k ik question c now ev t =
     (case te_message ev of
        None \<Rightarrow> [stream_end app idem k ik question c ev t]
      | Some m \<Rightarrow>
          map (\<lambda>(t', r). case r of
                 Sent \<Rightarrow> stream_end app idem k ik question c ev t'
               | NotSent \<Rightarrow> failed_send t'
               | SendPanics \<Rightarrow> (t', Panics))
            (stream_send now ''message'' (msg_content m) (t\<lparr>st_response := st_response t @ msg_content m\<rparr>)))"

definition stream_finish :: "int \<Rightarrow> 's stream_turn \<Rightarrow> ('s stream_turn \<times> emit_outcome) list" where
  "stream_finish now t =
     map (\<lambda>(t', r). case r of
            Sent \<Rightarrow> (stream_release (report None t'), Returns None)
          | NotSent \<Rightarrow> failed_send t'
          | SendPanics \<Rightarrow> (t', Panics))
       (stream_send now ''done'' ''Stream completed'' t)"

section \<open>One request\<close>

record 's stream_run =
  sr_turn :: "'s stream_turn"
  sr_todo :: "turn_event list"
  sr_final :: bool
  sr_panicked :: bool
  sr_ctx :: ctx
  sr_result :: "unit result option"
  sr_returned :: bool

definition after_emit :: "turn_event list \<Rightarrow> 's stream_turn \<times> emit_outcome \<Rightarrow> 's stream_run \<Rightarrow> 's stream_run" where
  "after_emit rest res r =
     (case res of (t, out) \<Rightarrow>
        r\<lparr>sr_turn := t,
          sr_todo := (if out = Returns None \<or> out = AboutToFinish then rest else []),
          sr_final := (out = AboutToFinish),
          sr_panicked := (out = Panics)\<rparr>)"

text \<open>The session's goroutine: a receiver that returns an error or panics ends the turn.\<close>

inductive stream_emit_step for app idem k ik question where
  Event: "\<not> sr_panicked r \<Longrightarrow> \<not> sr_final r \<Longrightarrow> sr_todo r = ev # rest \<Longrightarrow>
    res \<in> set (stream_emit app idem k ik question (sr_ctx r) now ev (sr_turn r)) \<Longrightarrow>
    stream_emit_step app idem k ik question r (after_emit rest res r)"
| Final: "\<not> sr_panicked r \<Longrightarrow> sr_final r \<Longrightarrow> res \<in> set (stream_finish now (sr_turn r)) \<Longrightarrow>
    stream_emit_step app idem k ik question r (after_emit [] res r)"

definition close_client :: "'s stream_turn \<Rightarrow> 's stream_turn" where
  "close_client t = t\<lparr>st_client := map_option finish_close (st_client t)\<rparr>"

text \<open>
  The handler: it reads the report (after an error it sends the error event, whatever becomes of it, and
  closes the client), or gives up when its context has ended; it returns when the writer has ended. The
  writer, the client's disconnection and the end of the context are steps of their own.
\<close>

inductive stream_handler_step :: "'s stream_run \<Rightarrow> 's stream_run \<Rightarrow> bool" where
  Success: "sr_result r = None \<Longrightarrow> st_done (sr_turn r) = None # rest \<Longrightarrow>
    stream_handler_step r (r\<lparr>sr_turn := close_client ((sr_turn r)\<lparr>st_done := rest\<rparr>), sr_result := Some (Inr ())\<rparr>)"
| Failure: "sr_result r = None \<Longrightarrow> st_done (sr_turn r) = Some e # rest \<Longrightarrow>
    (t, out) \<in> set (stream_send now ''error'' msg ((sr_turn r)\<lparr>st_done := rest\<rparr>)) \<Longrightarrow>
    stream_handler_step r (r\<lparr>sr_turn := close_client t, sr_result := Some (Inl e)\<rparr>)"
| GiveUp: "sr_result r = None \<Longrightarrow> ctx_err (sr_ctx r) = Some e \<Longrightarrow>
    stream_handler_step r (r\<lparr>sr_turn := close_client (sr_turn r), sr_result := Some (Inl e)\<rparr>)"
| Return: "sr_result r \<noteq> None \<Longrightarrow> st_client (sr_turn r) = Some c \<Longrightarrow> finish_returns c \<Longrightarrow>
    stream_handler_step r (r\<lparr>sr_returned := True\<rparr>)"
| End: "stream_handler_step r (r\<lparr>sr_ctx := (sr_ctx r)\<lparr>ctx_err := Some e\<rparr>\<rparr>)"
| Write: "st_client (sr_turn r) = Some c \<Longrightarrow> c' \<in> set (writer_results c) \<Longrightarrow>
    stream_handler_step r (r\<lparr>sr_turn := (sr_turn r)\<lparr>st_client := Some c'\<rparr>\<rparr>)"
| Disconnect: "st_client (sr_turn r) = Some c \<Longrightarrow>
    stream_handler_step r (r\<lparr>sr_turn := (sr_turn r)\<lparr>st_client := Some (c\<lparr>sc_cancelled := True\<rparr>)\<rparr>\<rparr>)"

definition stream_step where
  "stream_step app idem k ik question r r' \<longleftrightarrow>
     stream_emit_step app idem k ik question r r' \<or> stream_handler_step r r'"

definition stream_start :: "'s \<Rightarrow> run_limiter option \<Rightarrow> sse_client \<Rightarrow> ctx \<Rightarrow> turn_event list \<Rightarrow> 's stream_run" where
  "stream_start s limiter client c trace =
     \<lparr>sr_turn = \<lparr>st_store = s, st_limiter = limiter, st_released = False, st_response = [], st_client = Some client, st_done = []\<rparr>,
      sr_todo = trace, sr_final = False, sr_panicked = False, sr_ctx = c, sr_result = None, sr_returned = False\<rparr>"

section \<open>The handler before the turn\<close>

text \<open>
  Both handlers take their resources one after the other and undo what they took when a later step
  fails; the lock is released by the deferred call. The arguments are the outcomes of the calls, in
  order; without a limiter \<open>Acquire\<close> is not called.
\<close>

datatype cleanup = SendErrorEvent | FinishClient | ReleaseToken | UnlockTurn

definition acquire_outcome :: "bool \<Rightarrow> unit result \<Rightarrow> unit result" where
  "acquire_outcome limiter_given r = (if limiter_given then r else Inr ())"

definition chat_setup ::
  "'a result \<Rightarrow> 'b result \<Rightarrow> 'c result \<Rightarrow> bool \<Rightarrow> unit result \<Rightarrow> unit result \<Rightarrow> cleanup list \<times> go_error option" where
  "chat_setup key lock session limiter_given acquire push =
     (case key of Inl e \<Rightarrow> ([], Some e) | Inr _ \<Rightarrow>
      case lock of Inl e \<Rightarrow> ([], Some e) | Inr _ \<Rightarrow>
      case session of Inl e \<Rightarrow> ([UnlockTurn], Some e) | Inr _ \<Rightarrow>
      case acquire_outcome limiter_given acquire of Inl e \<Rightarrow> ([UnlockTurn], Some e) | Inr _ \<Rightarrow>
      case push of Inl e \<Rightarrow> ([ReleaseToken, UnlockTurn], Some e) | Inr _ \<Rightarrow> ([], None))"

definition stream_setup ::
  "'a result \<Rightarrow> 'd result \<Rightarrow> 'b result \<Rightarrow> 'c result \<Rightarrow> bool \<Rightarrow> unit result \<Rightarrow> unit result \<Rightarrow> cleanup list \<times> go_error option" where
  "stream_setup key client lock session limiter_given acquire push =
     (case key of Inl e \<Rightarrow> ([], Some e) | Inr _ \<Rightarrow>
      case client of Inl e \<Rightarrow> ([], Some e) | Inr _ \<Rightarrow>
      case lock of Inl e \<Rightarrow> ([SendErrorEvent, FinishClient], Some e) | Inr _ \<Rightarrow>
      case session of Inl e \<Rightarrow> ([SendErrorEvent, UnlockTurn], Some e) | Inr _ \<Rightarrow>
      case acquire_outcome limiter_given acquire of
        Inl e \<Rightarrow> ([SendErrorEvent, FinishClient, UnlockTurn], Some e) | Inr _ \<Rightarrow>
      case push of
        Inl e \<Rightarrow> ([ReleaseToken, SendErrorEvent, FinishClient, UnlockTurn], Some e) | Inr _ \<Rightarrow> ([], None))"

section \<open>The effects of sends\<close>

lemma push_results_cases:
  assumes "(c', r) \<in> set (push_results p c)"
  shows "sc_closed c' = sc_closed c \<and> sc_finished c' = sc_finished c \<and>
    (case r of Sent \<Rightarrow> \<not> sc_closed c \<and> sc_sent c' = sc_sent c @ [p]
     | NotSent \<Rightarrow> sc_sent c' = sc_sent c \<and> sc_cancelled c'
     | SendPanics \<Rightarrow> c' = c \<and> sc_closed c)"
  using assms by (auto simp: push_results_def Let_def split: if_splits)

lemma stream_send_cases:
  assumes "(t', r) \<in> set (stream_send now ty data t)" and "st_client t = Some c"
  obtains c' where "t' = t\<lparr>st_client := Some c'\<rparr>" and "(c', r) \<in> set (push_results (format_event now ty data) c)"
  using assms by (auto simp: stream_send_def send_to_client_def)

fun contents :: "msgptr list \<Rightarrow> string" where
  "contents [] = []"
| "contents (None # ms) = contents ms"
| "contents (Some m # ms) = msg_content m @ contents ms"

fun payloads :: "msgptr list \<Rightarrow> (string \<times> string) list" where
  "payloads [] = []"
| "payloads (None # ms) = payloads ms"
| "payloads (Some m # ms) = (''message'', msg_content m) # payloads ms"

lemma contents_append [simp]: "contents (xs @ ys) = contents xs @ contents ys"
  by (induction xs rule: contents.induct) auto

lemma payloads_append [simp]: "payloads (xs @ ys) = payloads xs @ payloads ys"
  by (induction xs rule: payloads.induct) auto

text \<open>The events a client was sent, whatever the time stamps in their ids.\<close>

definition event_text :: "string \<times> string \<Rightarrow> string \<Rightarrow> bool" where
  "event_text ev p \<longleftrightarrow> (\<exists>now. p = format_event now (fst ev) (snd ev))"

definition was_sent :: "(string \<times> string) list \<Rightarrow> sse_client \<Rightarrow> bool" where
  "was_sent evs c \<longleftrightarrow> list_all2 event_text evs (sc_sent c)"

lemma was_sent_step:
  "was_sent evs c \<Longrightarrow> sc_sent c' = sc_sent c @ [format_event now ty data] \<Longrightarrow> was_sent (evs @ [(ty, data)]) c'"
  by (auto simp: was_sent_def event_text_def intro!: list_all2_appendI)

lemma was_sent_same: "sc_sent c' = sc_sent c \<Longrightarrow> was_sent evs c' = was_sent evs c"
  by (simp add: was_sent_def)

lemma writer_results_cases:
  "c' \<in> set (writer_results c) \<Longrightarrow> sc_sent c' = sc_sent c \<and> sc_closed c' = sc_closed c"
  by (auto simp: writer_results_def split: if_splits list.splits)

lemma finish_close_fields [simp]:
  "sc_sent (finish_close c) = sc_sent c" "sc_closed (finish_close c)" "sc_cancelled (finish_close c) = sc_cancelled c"
  by (auto simp: finish_close_def)

section \<open>The phases of a request\<close>

definition append_gives where
  "append_gives app idem k ik q a s s' r \<longleftrightarrow>
     (\<exists>c. append_turn app idem (Some c) k ik (Some (user_message q)) (Some (assistant_message a)) s = (s', r))"

definition sr_client :: "'s stream_run \<Rightarrow> sse_client" where
  "sr_client r = the (st_client (sr_turn r))"

definition client_inv :: "'s stream_run \<Rightarrow> bool" where
  "client_inv r \<longleftrightarrow> (\<exists>c. st_client (sr_turn r) = Some c \<and> sse_inv c \<and> (sc_closed c \<longleftrightarrow> sr_result r \<noteq> None))"

definition phase_running where
  "phase_running s limiter msgs e r \<longleftrightarrow>
     (\<exists>ms1 ms2. msgs = ms1 @ ms2 \<and> sr_todo r = map message_event ms2 @ [done_event e] \<and>
        st_response (sr_turn r) = contents ms1 \<and> was_sent (payloads ms1) (sr_client r)) \<and>
     \<not> sr_final r \<and> \<not> sr_panicked r \<and> st_store (sr_turn r) = s \<and> st_limiter (sr_turn r) = limiter \<and>
     \<not> st_released (sr_turn r) \<and> st_done (sr_turn r) = [] \<and> sr_result r \<noteq> Some (Inr ())"

definition phase_storing where
  "phase_storing app idem k ik q s limiter msgs e r \<longleftrightarrow>
     append_gives app idem k ik q (contents msgs) s (st_store (sr_turn r)) (Inr ()) \<and> e = None \<and> contents msgs \<noteq> [] \<and>
     was_sent (payloads msgs) (sr_client r) \<and> sr_todo r = [] \<and>
     sr_final r \<and> \<not> sr_panicked r \<and> st_limiter (sr_turn r) = limiter \<and>
     \<not> st_released (sr_turn r) \<and> st_done (sr_turn r) = [] \<and> sr_result r \<noteq> Some (Inr ())"

definition store_kept where
  "store_kept app idem k ik q s msgs r \<longleftrightarrow>
     st_store (sr_turn r) = s \<or> (\<exists>x. append_gives app idem k ik q (contents msgs) s (st_store (sr_turn r)) x)"

definition phase_over where
  "phase_over app idem k ik q s limiter msgs e r \<longleftrightarrow>
     store_kept app idem k ik q s msgs r \<and> sr_todo r = [] \<and> \<not> sr_final r \<and> \<not> sr_panicked r \<and>
     st_released (sr_turn r) \<and> st_limiter (sr_turn r) = map_option limiter_release limiter \<and>
     length (st_done (sr_turn r)) \<le> 1 \<and>
     (None \<in> set (st_done (sr_turn r)) \<or> sr_result r = Some (Inr ()) \<longrightarrow>
        append_gives app idem k ik q (contents msgs) s (st_store (sr_turn r)) (Inr ()) \<and> e = None \<and> contents msgs \<noteq> [] \<and>
        was_sent (payloads msgs @ [(''done'', ''Stream completed'')]) (sr_client r))"

definition phase_panicked where
  "phase_panicked app idem k ik q s limiter msgs r \<longleftrightarrow>
     store_kept app idem k ik q s msgs r \<and> sr_panicked r \<and> \<not> sr_final r \<and> sr_todo r = [] \<and>
     \<not> st_released (sr_turn r) \<and> st_limiter (sr_turn r) = limiter \<and> st_done (sr_turn r) = [] \<and>
     (\<exists>e'. sr_result r = Some (Inl e'))"

definition stream_inv where
  "stream_inv app idem k ik q s limiter msgs e r \<longleftrightarrow> client_inv r \<and>
     (phase_running s limiter msgs e r \<or> phase_storing app idem k ik q s limiter msgs e r \<or>
      phase_over app idem k ik q s limiter msgs e r \<or> phase_panicked app idem k ik q s limiter msgs r)"

lemmas phase_defs = phase_running_def phase_storing_def phase_over_def phase_panicked_def store_kept_def

lemma stream_inv_start:
  assumes "sse_create given n d = Inr client"
  shows "stream_inv app idem k ik q s limiter msgs e
    (stream_start s limiter client c (map message_event msgs @ [done_event e]))" (is "stream_inv _ _ _ _ _ _ _ _ _ ?r")
proof -
  have "sse_inv client \<and> sc_sent client = [] \<and> \<not> sc_closed client"
    using assms by (auto simp: sse_create_def sse_inv_def split: if_splits)
  then have "client_inv ?r \<and> phase_running s limiter msgs e ?r"
    unfolding phase_running_def
    by (intro conjI exI [of _ "[]"] exI [of _ msgs])
      (auto simp: client_inv_def stream_start_def sr_client_def was_sent_def)
  then show ?thesis by (simp add: stream_inv_def)
qed

text \<open>A send by the session's goroutine keeps the client's invariant.\<close>

lemma client_after_send:
  assumes "client_inv r" and "(t', out) \<in> set (stream_send now ty data t)" and "st_client t = st_client (sr_turn r)"
  obtains c' where "t' = t\<lparr>st_client := Some c'\<rparr>" and "sse_inv c'" and "sc_closed c' \<longleftrightarrow> sr_result r \<noteq> None"
    and "case out of Sent \<Rightarrow> sr_result r = None \<and> sc_sent c' = sc_sent (sr_client r) @ [format_event now ty data]
         | NotSent \<Rightarrow> sc_sent c' = sc_sent (sr_client r)
         | SendPanics \<Rightarrow> sc_sent c' = sc_sent (sr_client r) \<and> sr_result r \<noteq> None"
proof -
  obtain c where c: "st_client (sr_turn r) = Some c" "sse_inv c" "sc_closed c \<longleftrightarrow> sr_result r \<noteq> None"
    using assms(1) unfolding client_inv_def by blast
  obtain c' where c': "t' = t\<lparr>st_client := Some c'\<rparr>" "(c', out) \<in> set (push_results (format_event now ty data) c)"
    using stream_send_cases [OF assms(2)] assms(3) c(1) by metis
  from push_results_cases [OF c'(2)] push_inv [OF c'(2) c(2)] c c'(1) that [of c'] show thesis
    by (auto simp: sr_client_def split: send_outcome.splits)
qed

lemma running_message:
  assumes "client_inv r" and "phase_running s limiter msgs e r" and "sr_todo r = message_event x # rest"
    and "rest \<noteq> []" and "res \<in> set (stream_emit app idem k ik q c now (message_event x) (sr_turn r))"
  shows "stream_inv app idem k ik q s limiter msgs e (after_emit rest res r)"
proof -
  obtain ms1 ms2 where m: "msgs = ms1 @ ms2" "sr_todo r = map message_event ms2 @ [done_event e]"
      "st_response (sr_turn r) = contents ms1" "was_sent (payloads ms1) (sr_client r)"
    using assms(2) unfolding phase_running_def by blast
  obtain xs where xs: "ms2 = x # xs" "rest = map message_event xs @ [done_event e]"
    using m(2) assms(3,4) by (cases ms2) (auto simp: message_event_def)
  have msgs: "msgs = (ms1 @ [x]) @ xs" using m(1) xs(1) by simp
  show ?thesis
  proof (cases x)
    case None
    then have res: "res = (sr_turn r, Returns None)"
      using assms(5) by (simp add: stream_emit_def message_event_def stream_end_def)
    have "phase_running s limiter msgs e (after_emit rest res r)"
      unfolding phase_running_def
      by (intro conjI exI [of _ "ms1 @ [x]"] exI [of _ xs])
        (use assms(2) m msgs xs None res in \<open>auto simp: after_emit_def phase_running_def sr_client_def\<close>)
    with assms(1) res show ?thesis by (simp add: stream_inv_def client_inv_def after_emit_def)
  next
    case (Some msg)
    let ?t = "(sr_turn r)\<lparr>st_response := st_response (sr_turn r) @ msg_content msg\<rparr>"
    obtain t' out where send: "(t', out) \<in> set (stream_send now ''message'' (msg_content msg) ?t)"
      and res: "res = (case out of Sent \<Rightarrow> (t', Returns None) | NotSent \<Rightarrow> failed_send t' | SendPanics \<Rightarrow> (t', Panics))"
      using assms(5) Some by (auto simp: stream_emit_def message_event_def stream_end_def)
    obtain c' where c': "t' = ?t\<lparr>st_client := Some c'\<rparr>" "sse_inv c'" "sc_closed c' \<longleftrightarrow> sr_result r \<noteq> None"
      "case out of Sent \<Rightarrow> sr_result r = None \<and> sc_sent c' = sc_sent (sr_client r) @ [format_event now ''message'' (msg_content msg)]
         | NotSent \<Rightarrow> sc_sent c' = sc_sent (sr_client r)
         | SendPanics \<Rightarrow> sc_sent c' = sc_sent (sr_client r) \<and> sr_result r \<noteq> None"
      using client_after_send [OF assms(1) send] by auto
    show ?thesis
    proof (cases out)
      case Sent
      have sent: "was_sent (payloads (ms1 @ [x])) c'"
        using was_sent_step [OF m(4)] c'(4) Sent Some by simp
      have "phase_running s limiter msgs e (after_emit rest res r)"
        unfolding phase_running_def
        by (intro conjI exI [of _ "ms1 @ [x]"] exI [of _ xs])
          (use assms(2) m msgs xs Some res Sent c' sent in \<open>auto simp: after_emit_def phase_running_def sr_client_def\<close>)
      with c' res Sent show ?thesis by (simp add: stream_inv_def client_inv_def after_emit_def)
    next
      case NotSent
      then have "phase_over app idem k ik q s limiter msgs e (after_emit rest res r)"
        using assms(2) res c' by (auto simp: phase_over_def phase_running_def store_kept_def after_emit_def
            failed_send_def report_def stream_release_def)
      with c' res NotSent show ?thesis
        by (simp add: stream_inv_def client_inv_def after_emit_def failed_send_def report_def stream_release_def)
    next
      case SendPanics
      then have "phase_panicked app idem k ik q s limiter msgs (after_emit rest res r)"
        using assms(2) res c' by (auto simp: phase_panicked_def phase_running_def store_kept_def after_emit_def)
          (metis (full_types) old.unit.exhaust sum.exhaust)
      with c' res SendPanics show ?thesis by (simp add: stream_inv_def client_inv_def after_emit_def)
    qed
  qed
qed

lemma running_end:
  assumes "client_inv r" and "phase_running s limiter msgs e r" and "sr_todo r = [done_event e]"
    and "res \<in> set (stream_emit app idem k ik q c now (done_event e) (sr_turn r))"
  shows "stream_inv app idem k ik q s limiter msgs e (after_emit [] res r)"
proof -
  have m: "st_response (sr_turn r) = contents msgs" "was_sent (payloads msgs) (sr_client r)"
    using assms(2,3) unfolding phase_running_def by auto
  have res: "res = stream_end app idem k ik q c (done_event e) (sr_turn r)"
    using assms(4) by (simp add: stream_emit_def done_event_def)
  have cl: "client_inv (after_emit [] res r)"
    using assms(1) unfolding res
    by (auto simp: client_inv_def after_emit_def stream_end_def done_event_def report_def stream_release_def
        split: option.splits sum.splits prod.splits)
  show ?thesis
  proof (cases "e = None \<and> contents msgs \<noteq> []")
    case True
    obtain s' x where app: "append_turn app idem (Some c) k ik (Some (user_message q))
        (Some (assistant_message (contents msgs))) s = (s', x)" by fastforce
    then have gives: "append_gives app idem k ik q (contents msgs) s s' x" unfolding append_gives_def by blast
    show ?thesis
    proof (cases x)
      case (Inl e')
      then have "phase_over app idem k ik q s limiter msgs e (after_emit [] res r)"
        using assms(2) True m app gives res
        by (auto simp: phase_over_def phase_running_def store_kept_def after_emit_def stream_end_def done_event_def
            report_def stream_release_def)
      with cl show ?thesis by (simp add: stream_inv_def)
    next
      case (Inr u)
      then have "phase_storing app idem k ik q s limiter msgs e (after_emit [] res r)"
        using assms(2) True m app gives res
        by (auto simp: phase_storing_def phase_running_def after_emit_def stream_end_def done_event_def sr_client_def)
      with cl show ?thesis by (simp add: stream_inv_def)
    qed
  next
    case False
    then have "res = (report (Some (case e of None \<Rightarrow> ErrText ''chat agent returned empty stream'' | Some e' \<Rightarrow> e'))
        (stream_release (sr_turn r)), Returns None)"
      using m res by (auto simp: stream_end_def done_event_def split: option.splits)
    then have "phase_over app idem k ik q s limiter msgs e (after_emit [] res r)"
      using assms(2)
      by (auto simp: phase_over_def phase_running_def store_kept_def after_emit_def report_def stream_release_def)
    with cl show ?thesis by (simp add: stream_inv_def)
  qed
qed

lemma storing_final:
  assumes "client_inv r" and "phase_storing app idem k ik q s limiter msgs e r"
    and "res \<in> set (stream_finish now (sr_turn r))"
  shows "stream_inv app idem k ik q s limiter msgs e (after_emit [] res r)"
proof -
  obtain t' out where send: "(t', out) \<in> set (stream_send now ''done'' ''Stream completed'' (sr_turn r))"
    and res: "res = (case out of Sent \<Rightarrow> (stream_release (report None t'), Returns None)
        | NotSent \<Rightarrow> failed_send t' | SendPanics \<Rightarrow> (t', Panics))"
    using assms(3) by (auto simp: stream_finish_def)
  obtain c' where c': "t' = (sr_turn r)\<lparr>st_client := Some c'\<rparr>" "sse_inv c'" "sc_closed c' \<longleftrightarrow> sr_result r \<noteq> None"
    "case out of Sent \<Rightarrow> sr_result r = None \<and> sc_sent c' = sc_sent (sr_client r) @ [format_event now ''done'' ''Stream completed'']
       | NotSent \<Rightarrow> sc_sent c' = sc_sent (sr_client r)
       | SendPanics \<Rightarrow> sc_sent c' = sc_sent (sr_client r) \<and> sr_result r \<noteq> None"
    using client_after_send [OF assms(1) send] by auto
  note st = assms(2) [unfolded phase_storing_def]
  have cl: "client_inv (after_emit [] res r)"
    using c' res by (cases out) (auto simp: client_inv_def after_emit_def failed_send_def report_def stream_release_def)
  show ?thesis
  proof (cases out)
    case Sent
    then have "was_sent (payloads msgs @ [(''done'', ''Stream completed'')]) c'"
      using was_sent_step [of "payloads msgs" "sr_client r" c'] st c'(4) by simp
    then have "phase_over app idem k ik q s limiter msgs e (after_emit [] res r)"
      using st res c' Sent
      by (auto simp: phase_over_def store_kept_def after_emit_def report_def stream_release_def sr_client_def)
    with cl show ?thesis by (simp add: stream_inv_def)
  next
    case NotSent
    then have "phase_over app idem k ik q s limiter msgs e (after_emit [] res r)"
      using st res c'
      by (auto simp: phase_over_def store_kept_def after_emit_def failed_send_def report_def stream_release_def)
    with cl show ?thesis by (simp add: stream_inv_def)
  next
    case SendPanics
    then have "phase_panicked app idem k ik q s limiter msgs (after_emit [] res r)"
      using st res c' by (auto simp: phase_panicked_def store_kept_def after_emit_def)
        (metis (full_types) old.unit.exhaust sum.exhaust)
    with cl show ?thesis by (simp add: stream_inv_def)
  qed
qed

text \<open>The handler, the writer and the end of the request.\<close>

lemma emit_keeps_stream_inv:
  assumes "stream_emit_step app idem k ik q r r'" and "stream_inv app idem k ik q s limiter msgs e r"
  shows "stream_inv app idem k ik q s limiter msgs e r'"
proof -
  have cl: "client_inv r" using assms(2) by (simp add: stream_inv_def)
  from assms(1) show ?thesis
  proof cases
    case (Event ev rest res now)
    then have run: "phase_running s limiter msgs e r"
      using assms(2) by (auto simp: stream_inv_def phase_storing_def phase_over_def phase_panicked_def)
    then obtain ms2 where todo: "sr_todo r = map message_event ms2 @ [done_event e]"
      unfolding phase_running_def by blast
    show ?thesis
    proof (cases ms2)
      case Nil
      with todo Event(4) have "sr_todo r = [done_event e]" "ev = done_event e" "rest = []" by auto
      with running_end [OF cl run] Event show ?thesis by auto
    next
      case (Cons x xs)
      with todo Event(4) have "sr_todo r = message_event x # rest" "ev = message_event x" "rest \<noteq> []" by auto
      with running_message [OF cl run] Event show ?thesis by auto
    qed
  next
    case (Final res now)
    then have "phase_storing app idem k ik q s limiter msgs e r"
      using assms(2) by (auto simp: stream_inv_def phase_running_def phase_over_def phase_panicked_def)
    from storing_final [OF cl this] Final show ?thesis by auto
  qed
qed

text \<open>A step that leaves the turn alone but for the client, and the request but for its context and its end.\<close>

definition only_client :: "'s stream_run \<Rightarrow> 's stream_run \<Rightarrow> bool" where
  "only_client r r' \<longleftrightarrow>
     (\<exists>c. sr_turn r' = (sr_turn r)\<lparr>st_client := Some c\<rparr> \<and> sc_sent c = sc_sent (sr_client r)) \<and>
     sr_todo r' = sr_todo r \<and> sr_final r' = sr_final r \<and> sr_panicked r' = sr_panicked r \<and>
     (sr_result r' = sr_result r \<or> (\<exists>e. sr_result r' = Some (Inl e)))"

lemma only_client_keeps:
  assumes "only_client r r'" and "client_inv r'" and "stream_inv app idem k ik q s limiter msgs e r"
  shows "stream_inv app idem k ik q s limiter msgs e r'"
proof -
  obtain c where c: "sr_turn r' = (sr_turn r)\<lparr>st_client := Some c\<rparr>" "sc_sent c = sc_sent (sr_client r)"
    and f: "sr_todo r' = sr_todo r" "sr_final r' = sr_final r" "sr_panicked r' = sr_panicked r"
    "sr_result r' = sr_result r \<or> (\<exists>e. sr_result r' = Some (Inl e))"
    using assms(1) unfolding only_client_def by blast
  then have sent: "was_sent evs (sr_client r') \<longleftrightarrow> was_sent evs (sr_client r)" for evs
    by (simp add: sr_client_def was_sent_def)
  have fields: "st_store (sr_turn r') = st_store (sr_turn r)" "st_limiter (sr_turn r') = st_limiter (sr_turn r)"
    "st_released (sr_turn r') = st_released (sr_turn r)" "st_response (sr_turn r') = st_response (sr_turn r)"
    "st_done (sr_turn r') = st_done (sr_turn r)" using c(1) by simp_all
  from assms(3) consider "phase_running s limiter msgs e r" | "phase_storing app idem k ik q s limiter msgs e r"
    | "phase_over app idem k ik q s limiter msgs e r" | "phase_panicked app idem k ik q s limiter msgs r"
    unfolding stream_inv_def by blast
  then show ?thesis
  proof cases
    case 1
    then have "phase_running s limiter msgs e r'" using f(4) by (auto simp: phase_running_def f(1-3) fields sent)
    with assms(2) show ?thesis by (simp add: stream_inv_def)
  next
    case 2
    then have "phase_storing app idem k ik q s limiter msgs e r'" using f(4) by (auto simp: phase_storing_def f(1-3) fields sent)
    with assms(2) show ?thesis by (simp add: stream_inv_def)
  next
    case 3
    then have "phase_over app idem k ik q s limiter msgs e r'"
      using f(4) by (auto simp: phase_over_def store_kept_def f(1-3) fields sent)
    with assms(2) show ?thesis by (simp add: stream_inv_def)
  next
    case 4
    then have "phase_panicked app idem k ik q s limiter msgs r'"
      using f(4) by (auto simp: phase_panicked_def store_kept_def f(1-3) fields)
    with assms(2) show ?thesis by (simp add: stream_inv_def)
  qed
qed

text \<open>Reading the report: only a request that is over has one.\<close>

lemma report_read:
  assumes "stream_inv app idem k ik q s limiter msgs e r" and "st_done (sr_turn r) = d # rest"
    and "sr_result r = None"
  shows "phase_over app idem k ik q s limiter msgs e r \<and> rest = []"
  using assms by (auto simp: stream_inv_def phase_running_def phase_storing_def phase_panicked_def phase_over_def)

lemma read_keeps:
  assumes "stream_inv app idem k ik q s limiter msgs e r" and "sr_result r = None" and "st_done (sr_turn r) = d # rest"
    and "sr_turn r' = (sr_turn r)\<lparr>st_done := rest, st_client := Some c\<rparr>" and "sr_todo r' = sr_todo r"
    and "sr_final r' = sr_final r" and "sr_panicked r' = sr_panicked r"
    and "sr_result r' = Some (case d of None \<Rightarrow> Inr () | Some x \<Rightarrow> Inl x)"
    and "d = None \<Longrightarrow> sc_sent c = sc_sent (sr_client r)" and "client_inv r'"
  shows "stream_inv app idem k ik q s limiter msgs e r'"
proof -
  from report_read [OF assms(1,3,2)] have over: "phase_over app idem k ik q s limiter msgs e r" and "rest = []" by auto
  then have "phase_over app idem k ik q s limiter msgs e r'"
    using assms(3-9) by (cases d) (auto simp: phase_over_def store_kept_def sr_client_def was_sent_def)
  with assms(10) show ?thesis by (simp add: stream_inv_def)
qed

lemma handler_keeps_stream_inv:
  assumes "stream_handler_step r r'" and inv: "stream_inv app idem k ik q s limiter msgs e r"
  shows "stream_inv app idem k ik q s limiter msgs e r'"
proof -
  have cl: "client_inv r" using inv by (simp add: stream_inv_def)
  then obtain c where c: "st_client (sr_turn r) = Some c" "sse_inv c" "sc_closed c \<longleftrightarrow> sr_result r \<noteq> None"
    unfolding client_inv_def by blast
  have fin: "sse_inv (finish_close c)" using c(2) sse_step_inv [OF sse_step.Finish] by blast
  from assms(1) show ?thesis
  proof cases
    case (Success rest)
    show ?thesis
      by (rule read_keeps [OF inv Success(2,3), where c = "finish_close c"])
        (use Success c fin in \<open>auto simp: close_client_def client_inv_def sr_client_def\<close>)
  next
    case (Failure x rest t out now msg)
    obtain c' where c': "t = (sr_turn r)\<lparr>st_done := rest, st_client := Some c'\<rparr>"
      "(c', out) \<in> set (push_results (format_event now ''error'' msg) c)"
      using stream_send_cases [OF Failure(4)] c(1) by auto
    have "sse_inv (finish_close c')" using push_inv [OF c'(2) c(2)] sse_step_inv [OF sse_step.Finish] by blast
    with c' Failure c show ?thesis
      by (intro read_keeps [OF inv Failure(2,3), where c = "finish_close c'"])
        (auto simp: close_client_def client_inv_def)
  next
    case (GiveUp x)
    have "only_client r r' \<and> client_inv r'"
      using GiveUp c fin by (auto simp: only_client_def client_inv_def close_client_def sr_client_def)
    then show ?thesis by (intro only_client_keeps [OF _ _ inv]) auto
  next
    case (Return c')
    have "only_client r r' \<and> client_inv r'"
      using Return c cl by (auto simp: only_client_def client_inv_def sr_client_def intro: exI [of _ c])
    then show ?thesis by (intro only_client_keeps [OF _ _ inv]) auto
  next
    case (End x)
    have "only_client r r' \<and> client_inv r'"
      using End c cl by (auto simp: only_client_def client_inv_def sr_client_def intro: exI [of _ c])
    then show ?thesis by (intro only_client_keeps [OF _ _ inv]) auto
  next
    case (Write c1 c')
    have "only_client r r' \<and> client_inv r'"
      using Write c writer_results_cases [of c' c] writer_inv [of c' c]
      by (auto simp: only_client_def client_inv_def sr_client_def)
    then show ?thesis by (intro only_client_keeps [OF _ _ inv]) auto
  next
    case (Disconnect c1)
    have "sse_inv (c\<lparr>sc_cancelled := True\<rparr>)" using c(2) sse_step_inv [OF sse_step.Disconnect] by blast
    then have "only_client r r' \<and> client_inv r'"
      using Disconnect c by (auto simp: only_client_def client_inv_def sr_client_def)
    then show ?thesis by (intro only_client_keeps [OF _ _ inv]) auto
  qed
qed

lemma stream_reachable:
  assumes "sse_create given n d = Inr client"
    and "(stream_step app idem k ik q)\<^sup>*\<^sup>*
      (stream_start s limiter client c (map message_event msgs @ [done_event e])) r"
  shows "stream_inv app idem k ik q s limiter msgs e r"
  using assms(2)
proof (induction rule: rtranclp_induct)
  case base
  show ?case by (rule stream_inv_start [OF assms(1)])
next
  case (step r r')
  from step.hyps(2) show ?case
    unfolding stream_step_def using emit_keeps_stream_inv [OF _ step.IH] handler_keeps_stream_inv [OF _ step.IH] by blast
qed

section \<open>A schedule that can be evaluated\<close>

definition stream_drive_step where
  "stream_drive_step app idem k ik q now r =
     (if sr_panicked r then r
      else if sr_final r then after_emit [] (hd (stream_finish now (sr_turn r))) r
      else case sr_todo r of
             ev # rest \<Rightarrow> after_emit rest (hd (stream_emit app idem k ik q (sr_ctx r) now ev (sr_turn r))) r
           | [] \<Rightarrow>
               (case st_done (sr_turn r) of
                  None # rest \<Rightarrow>
                    if sr_result r = None
                    then r\<lparr>sr_turn := close_client ((sr_turn r)\<lparr>st_done := rest\<rparr>), sr_result := Some (Inr ())\<rparr>
                    else r
                | _ \<Rightarrow> r))"

fun stream_drive where
  "stream_drive app idem k ik q now 0 r = r"
| "stream_drive app idem k ik q now (Suc n) r =
     stream_drive app idem k ik q now n (stream_drive_step app idem k ik q now r)"

lemma stream_send_nonempty: "stream_send now ty data t \<noteq> []"
  by (auto simp: stream_send_def send_to_client_def push_results_def Let_def split: option.splits)

lemma stream_emit_hd: "hd (stream_emit app idem k ik q c now ev t) \<in> set (stream_emit app idem k ik q c now ev t)"
  by (rule hd_in_set) (simp add: stream_emit_def stream_send_nonempty split: option.split)

lemma stream_finish_hd: "hd (stream_finish now t) \<in> set (stream_finish now t)"
  by (rule hd_in_set) (simp add: stream_finish_def stream_send_nonempty)

lemma stream_drive_step_reachable: "(stream_step app idem k ik q)\<^sup>*\<^sup>* r (stream_drive_step app idem k ik q now r)"
proof (cases "stream_drive_step app idem k ik q now r = r")
  case False
  consider "\<not> sr_panicked r" "sr_final r"
    | ev rest where "\<not> sr_panicked r" "\<not> sr_final r" "sr_todo r = ev # rest"
    | rest where "\<not> sr_panicked r" "\<not> sr_final r" "sr_todo r = []" "st_done (sr_turn r) = None # rest" "sr_result r = None"
    using False by (auto simp: stream_drive_step_def split: if_splits list.splits option.splits)
  then have "stream_step app idem k ik q r (stream_drive_step app idem k ik q now r)"
  proof cases
    case 1
    from Final [OF this stream_finish_hd [of now]] 1 show ?thesis
      by (simp add: stream_step_def stream_drive_step_def)
  next
    case 2
    from Event [OF this stream_emit_hd] 2 show ?thesis by (simp add: stream_step_def stream_drive_step_def)
  next
    case 3
    from Success [OF 3(5,4)] 3 show ?thesis by (simp add: stream_step_def stream_drive_step_def)
  qed
  then show ?thesis ..
qed simp

lemma stream_drive_reachable: "(stream_step app idem k ik q)\<^sup>*\<^sup>* r (stream_drive app idem k ik q now n r)"
proof (induction n arbitrary: r)
  case (Suc n)
  show ?case unfolding stream_drive.simps using stream_drive_step_reachable Suc.IH by (rule rtranclp_trans)
qed simp

section \<open>Properties\<close>

context idempotent_store
begin

lemma append_gives_effect:
  assumes "inv s" and "ok_key k" and "append_gives append (Some append_idem) k ik q a s s' r"
  shows "inv s' \<and> (view s' = view s \<or> turn_done s k q a s') \<and>
    (r = Inr () \<longrightarrow> turn_done s k q a s' \<or>
       (ik \<noteq> [] \<and> (\<exists>h. turn_hash (user_message q) (assistant_message a) = Inr h \<and> used s k ik = Some h)))"
  using assms(3) append_turn_effect [OF assms(1,2)]
  unfolding append_gives_def turn_done_def by blast

lemma stream_store_effect:
  assumes "inv s" and "ok_key k" and "stream_inv append (Some append_idem) k ik q s limiter msgs e r"
  shows "inv (st_store (sr_turn r)) \<and>
    (view (st_store (sr_turn r)) = view s \<or> turn_done s k q (contents msgs) (st_store (sr_turn r)))"
proof -
  have "st_store (sr_turn r) = s \<or>
      (\<exists>x. append_gives append (Some append_idem) k ik q (contents msgs) s (st_store (sr_turn r)) x)"
    using assms(3) by (auto simp: stream_inv_def phase_defs)
  then show ?thesis
  proof
    assume "\<exists>x. append_gives append (Some append_idem) k ik q (contents msgs) s (st_store (sr_turn r)) x"
    with append_gives_effect [OF assms(1,2)] show ?thesis by blast
  qed (use assms(1) in simp)
qed

end

text \<open>(C24) Success of a streaming request over PostgreSQL, under every schedule of database faults and
  every interleaving of the goroutines: the turn with the concatenated answer is stored (or had been
  under the same idempotency key), the client was sent exactly the messages in order and the final event,
  and when its writer has ended without a cancellation all of it was written. Without success the store
  is unchanged or holds the whole turn.\<close>

theorem stream_success_stored_and_sent:
  assumes "sql_inv cod s" and "sse_create given n d = Inr client"
    and "(stream_step (sql_append cod) (Some (sql_append_idempotent cod)) k ik q)\<^sup>*\<^sup>*
      (stream_start s limiter client c (map message_event msgs @ [done_event e])) r"
  shows "let s' = st_store (sr_turn r); a = contents msgs;
             stored = (sql_view cod s' = (sql_view cod s)(k :=
               spec_turn (ss_max s) (sql_canon cod (user_message q)) (sql_canon cod (assistant_message a)) (sql_view cod s k)))
         in (stored \<or> sql_view cod s' = sql_view cod s) \<and>
            (sr_result r = Some (Inr ()) \<longrightarrow> e = None \<and> a \<noteq> [] \<and>
               (stored \<or> ik \<noteq> [] \<and>
                 (\<exists>h. cod_hash cod (user_message q) (assistant_message a) = Inr h \<and> sql_used s k ik = Some h)) \<and>
               list_all2 event_text (payloads msgs @ [(''done'', ''Stream completed'')]) (sc_sent (sr_client r)) \<and>
               (finish_returns (sr_client r) \<and> \<not> sc_cancelled (sr_client r) \<longrightarrow>
                 sc_written (sr_client r) = sc_sent (sr_client r)))"
proof -
  note reached = stream_reachable [OF assms(2,3)]
  note effect = sql.stream_store_effect [OF assms(1) TrueI reached]
  have sse: "sse_inv (sr_client r)"
    using reached by (auto simp: stream_inv_def client_inv_def sr_client_def)
  have success: "append_gives (sql_append cod) (Some (sql_append_idempotent cod)) k ik q (contents msgs) s
      (st_store (sr_turn r)) (Inr ()) \<and> e = None \<and> contents msgs \<noteq> [] \<and>
      was_sent (payloads msgs @ [(''done'', ''Stream completed'')]) (sr_client r)"
    if "sr_result r = Some (Inr ())"
    using reached that by (auto simp: stream_inv_def phase_defs)
  show ?thesis
    using effect success sql.append_gives_effect [OF assms(1) TrueI] sse
    unfolding sql.turn_done_def was_sent_def sse_inv_def finish_returns_def Let_def by fastforce
qed

definition streamed_chunks :: "msgptr list" where
  "streamed_chunks = [Some (assistant_message ''He''), Some (assistant_message ''llo'')]"

definition sample_client :: sse_client where
  "sample_client = \<lparr>sc_cap = 100, sc_queue = [], sc_closed = False, sc_cancelled = False, sc_finished = False,
     sc_written = [], sc_sent = []\<rparr>"

lemma sample_client_new: "sse_create True 0 False = Inr sample_client"
  by (simp add: sse_create_def sse_buffer_size_def sample_client_def)

definition streamed_run where
  "streamed_run = stream_drive (sql_append sample_codec) (Some (sql_append_idempotent sample_codec)) key_a [] ''q'' 7 5
     (stream_start (open_sql no_faults) None sample_client background
        (map message_event streamed_chunks @ [done_event None]))"

theorem stream_success_stored_and_sent_witness:
  "sr_result streamed_run = Some (Inr ()) \<and>
   sql_view sample_codec (st_store (sr_turn streamed_run)) key_a =
     spec_turn 4 (sql_canon sample_codec (user_message ''q'')) (sql_canon sample_codec (assistant_message ''Hello'')) ([], 0) \<and>
   list_all2 event_text [(''message'', ''He''), (''message'', ''llo''), (''done'', ''Stream completed'')]
     (sc_sent (sr_client streamed_run))"
proof -
  have reach: "(stream_step (sql_append sample_codec) (Some (sql_append_idempotent sample_codec)) key_a [] ''q'')\<^sup>*\<^sup>*
      (stream_start (open_sql no_faults) None sample_client background
        (map message_event streamed_chunks @ [done_event None])) streamed_run"
    unfolding streamed_run_def by (rule stream_drive_reachable)
  have r: "sr_result streamed_run = Some (Inr ())" by code_simp
  have max: "ss_max (open_sql no_faults) = 4" by (simp add: open_sql_def)
  have "contents streamed_chunks = ''Hello''" "payloads streamed_chunks = [(''message'', ''He''), (''message'', ''llo'')]"
    by (simp_all add: streamed_chunks_def)
  with stream_success_stored_and_sent [OF open_sql_inv sample_client_new reach] r max show ?thesis
    by (simp add: Let_def)
qed

text \<open>The report channel and the limiter's token: the receiver never blocks on its report, which is sent
  at most once, and unless it panicked the token has been returned exactly when the session has nothing
  more to emit.\<close>

theorem stream_reports_once:
  assumes "sse_create given n d = Inr client"
    and "(stream_step app idem k ik q)\<^sup>*\<^sup>*
      (stream_start s limiter client c (map message_event msgs @ [done_event e])) r"
  shows "length (st_done (sr_turn r)) \<le> 1 \<and> (sr_todo r \<noteq> [] \<or> sr_final r \<longrightarrow> st_done (sr_turn r) = []) \<and>
    st_limiter (sr_turn r) = (if st_released (sr_turn r) then map_option limiter_release limiter else limiter) \<and>
    (\<not> sr_panicked r \<longrightarrow> (st_released (sr_turn r) \<longleftrightarrow> sr_todo r = [] \<and> \<not> sr_final r))"
  using stream_reachable [OF assms] by (auto simp: stream_inv_def phase_defs)

definition two_of_three where
  "two_of_three = stream_drive mem_append None key_a [] ''q'' 7 2
     (stream_start (new_memory_store 6) None sample_client background
        (map message_event streamed_chunks @ [done_event None]))"

theorem stream_reports_once_witness:
  "sr_todo two_of_three = [done_event None] \<and> st_done (sr_turn two_of_three) = [] \<and> \<not> st_released (sr_turn two_of_three)"
proof -
  have reach: "(stream_step mem_append None key_a [] ''q'')\<^sup>*\<^sup>*
      (stream_start (new_memory_store 6) None sample_client background
        (map message_event streamed_chunks @ [done_event None])) two_of_three"
    unfolding two_of_three_def by (rule stream_drive_reachable)
  have "sr_todo two_of_three = [done_event None]" "\<not> sr_panicked two_of_three" by code_simp+
  with stream_reports_once [OF sample_client_new reach] show ?thesis by simp
qed

lemma stream_send_keeps:
  "(t', out) \<in> set (stream_send now ty data t) \<Longrightarrow>
    st_released t' = st_released t \<and> st_done t' = st_done t \<and> st_store t' = st_store t"
  by (auto simp: stream_send_def)


definition departed :: "memory_store stream_run" where
  "departed = (let r = stream_start (new_memory_store 6) None sample_client (background\<lparr>ctx_err := Some Canceled\<rparr>)
        (map message_event streamed_chunks @ [done_event None])
     in r\<lparr>sr_turn := close_client (sr_turn r), sr_result := Some (Inl Canceled)\<rparr>)"


text \<open>Every step of the two handlers that fails before the turn gives back what the earlier steps took:
  the lock and the token exactly when they were taken; the event client is told and finished, except that
  a failing session lookup leaves it open.\<close>

theorem setup_failures_undo:
  assumes "stream_setup key client lock session lim acquire push = (acts, Some e)"
    and "chat_setup key lock session lim acquire push = (acts', Some e')"
  shows "let locked = (\<not> isl key \<and> \<not> isl lock);
             token = (locked \<and> \<not> isl session \<and> \<not> isl (acquire_outcome lim acquire));
             opened = (\<not> isl key \<and> \<not> isl client)
         in (UnlockTurn \<in> set acts' \<longleftrightarrow> locked) \<and> (ReleaseToken \<in> set acts' \<longleftrightarrow> token) \<and>
            (UnlockTurn \<in> set acts \<longleftrightarrow> locked \<and> opened) \<and> (ReleaseToken \<in> set acts \<longleftrightarrow> token \<and> opened) \<and>
            (SendErrorEvent \<in> set acts \<longleftrightarrow> opened) \<and>
            (FinishClient \<in> set acts \<longleftrightarrow> opened \<and> (isl lock \<or> \<not> isl session)) \<and>
            distinct acts \<and> distinct acts'"
  using assms by (auto simp: stream_setup_def chat_setup_def Let_def split: sum.splits)

theorem setup_failures_undo_witness:
  "stream_setup (Inr key_a) (Inr ()) (Inr ()) (Inl ErrTurnLoopRegistryFull :: unit result) True (Inr ()) (Inr ()) =
     ([SendErrorEvent, UnlockTurn], Some ErrTurnLoopRegistryFull) \<and>
   FinishClient \<notin> set (fst (stream_setup (Inr key_a) (Inr ()) (Inr ()) (Inl ErrTurnLoopRegistryFull :: unit result) True
     (Inr ()) (Inr ())))"
proof -
  have s: "stream_setup (Inr key_a) (Inr ()) (Inr ()) (Inl ErrTurnLoopRegistryFull :: unit result) True (Inr ()) (Inr ()) =
      ([SendErrorEvent, UnlockTurn], Some ErrTurnLoopRegistryFull)" by (simp add: stream_setup_def)
  have c: "chat_setup (Inr key_a) (Inr ()) (Inl ErrTurnLoopRegistryFull :: unit result) True (Inr ()) (Inr ()) =
      ([UnlockTurn], Some ErrTurnLoopRegistryFull)" by (simp add: chat_setup_def)
  from setup_failures_undo [OF s c] s show ?thesis by (simp add: Let_def)
qed

end
