(* ===== verification/Replicas.thy ===== *)
theory Replicas
  imports Chat_Controller
begin

text \<open>
  Several server processes over one database and one Redis: the composition of the distributed lock,
  the input of a turn, the receiver of the agent's events and the store. Every request runs the steps
  of the chat handler and of its session's goroutine (chat_v1_chat.go, chat_new.go), and the steps of
  all requests interleave: the polls for the lock, the ticks of the renewal, the end of a request's
  context, the release of the lock when the handler returns (also while the goroutine still runs),
  the load of the history when the turn starts, and the end of the agent's run with the append.

  Time passes only as far as the renewals are timely: not past the deadline of a lease whose turn still
  counts on it. The agent is an arbitrary function of the request and its input.

  The specification is \<open>serial_turn\<close>: one turn after the other, each of which hands the agent the
  stored transcript of that moment and stores the answer, once. \<open>cluster_refines_serial\<close> shows by
  simulation that the replicas implement it over every store that respects its context.
\<close>

section \<open>The requests and their steps\<close>

record chat_request =
  rq_key :: session_key
  rq_question :: string
  rq_idem :: string
  rq_token :: string
  rq_ctx :: ctx

datatype turn_stage = Queued | Asked agent_input | Ended "string result"

record replica_turn =
  rt_lock :: "turn_lock option"
  rt_stage :: turn_stage

record 's cluster =
  cl_store :: 's
  cl_redis :: lock_world
  cl_turns :: "nat \<Rightarrow> replica_turn"

type_synonym agent_run = "nat \<Rightarrow> agent_input \<Rightarrow> msgptr list \<times> go_error option"

definition set_turn :: "nat \<Rightarrow> replica_turn \<Rightarrow> 's cluster \<Rightarrow> 's cluster" where
  "set_turn i t cs = cs\<lparr>cl_turns := (cl_turns cs)(i := t)\<rparr>"

text \<open>The context of a turn: derived from the request's, cancelled with the lock.\<close>

definition turn_ctx :: "chat_request \<Rightarrow> turn_lock \<Rightarrow> ctx" where
  "turn_ctx rq tk = (if tk_cancelled tk then (rq_ctx rq)\<lparr>ctx_err := Some Canceled\<rparr> else rq_ctx rq)"

text \<open>One poll of \<open>Lock\<close>.\<close>

definition poll_turn :: "locker \<Rightarrow> chat_request \<Rightarrow> reply \<Rightarrow> replica_turn \<Rightarrow> lock_world \<Rightarrow> replica_turn \<times> lock_world" where
  "poll_turn l rq r t w =
     (case lock_turn (Some l) (rq_key rq) (Inr (rq_token rq)) [\<lparr>at_reply = r, at_wait = id, at_done = None\<rparr>] w of
        (w', None) \<Rightarrow> (t, w')
      | (w', Some (Inl e)) \<Rightarrow> (t\<lparr>rt_stage := Ended (Inl e)\<rparr>, w')
      | (w', Some (Inr tk)) \<Rightarrow> (t\<lparr>rt_lock := Some tk\<rparr>, w'))"

text \<open>One tick of the renewal goroutine.\<close>

definition renew_turn :: "reply \<Rightarrow> turn_lock \<Rightarrow> lock_world \<Rightarrow> turn_lock \<times> lock_world" where
  "renew_turn r tk w =
     (case tk_lease tk of
        None \<Rightarrow> (tk, w)
      | Some le \<Rightarrow>
          if tk_cancelled tk then (tk, w)
          else case redis_renew r le w of
                 (w', Inl e) \<Rightarrow> (renewal_ended (Some e) tk, w')
               | (w', Inr _) \<Rightarrow> (tk, w'))"

text \<open>The turn starts: its input is built.\<close>

definition start_turn :: "'s loader \<Rightarrow> chat_request \<Rightarrow> turn_lock \<Rightarrow> 's \<Rightarrow> turn_stage \<times> 's" where
  "start_turn load rq tk s =
     (case build_turn_input load (rq_key rq) (rq_question rq) (Some (turn_ctx rq tk)) s of
        (s', Inl e) \<Rightarrow> (Ended (Inl e), s')
      | (s', Inr None) \<Rightarrow> (Ended (Inl ErrTurnInput), s')
      | (s', Inr (Some inp)) \<Rightarrow> (Asked inp, s'))"

text \<open>The agent's run ends: the receiver stores the turn and emits the final event.\<close>

definition finish_turn ::
  "'s appender \<Rightarrow> 's idempotent option \<Rightarrow> chat_request \<Rightarrow> turn_lock \<Rightarrow> msgptr list \<times> go_error option \<Rightarrow> 's \<Rightarrow> turn_stage \<times> 's" where
  "finish_turn app idem rq tk run s =
     (case chat_emit app idem (rq_key rq) (rq_idem rq) (rq_question rq) (turn_ctx rq tk) (done_event (snd run))
             (turn_before s None (fst run)) of
        (t, ev) \<Rightarrow> (Ended (case te_err ev of Some e \<Rightarrow> Inl e | None \<Rightarrow> Inr (ct_answer t)), ct_store t))"

datatype cluster_action =
    Poll nat reply | Renew nat reply | Depart nat | Release nat reply | Start nat | Finish nat | Pass int

text \<open>Whether the time may advance to \<open>now\<close>.\<close>

definition renewals_timely :: "chat_request list \<Rightarrow> (nat \<Rightarrow> replica_turn) \<Rightarrow> lock_world \<Rightarrow> int \<Rightarrow> bool" where
  "renewals_timely rqs turns w now \<longleftrightarrow>
     list_all (\<lambda>i. case rt_lock (turns i) of
         None \<Rightarrow> True
       | Some tk \<Rightarrow> tk_cancelled tk \<or> (case tk_lease tk of None \<Rightarrow> True | Some le \<Rightarrow> now < deadline_of w le))
       [0..<length rqs]"

fun cluster_act ::
  "locker \<Rightarrow> agent_run \<Rightarrow> 's loader \<Rightarrow> 's appender \<Rightarrow> 's idempotent option \<Rightarrow> chat_request list \<Rightarrow> cluster_action \<Rightarrow> 's cluster \<Rightarrow> 's cluster option" where
  "cluster_act l agent load app idem rqs (Poll i r) cs =
     (if i < length rqs \<and> rt_lock (cl_turns cs i) = None \<and> rt_stage (cl_turns cs i) = Queued
      then case poll_turn l (rqs ! i) r (cl_turns cs i) (cl_redis cs) of
             (t, w) \<Rightarrow> Some (set_turn i t cs\<lparr>cl_redis := w\<rparr>)
      else None)"
| "cluster_act l agent load app idem rqs (Renew i r) cs =
     (case rt_lock (cl_turns cs i) of
        None \<Rightarrow> None
      | Some tk \<Rightarrow>
          (case renew_turn r tk (cl_redis cs) of
             (tk', w) \<Rightarrow> Some (set_turn i ((cl_turns cs i)\<lparr>rt_lock := Some tk'\<rparr>) cs\<lparr>cl_redis := w\<rparr>)))"
| "cluster_act l agent load app idem rqs (Depart i) cs =
     (case rt_lock (cl_turns cs i) of
        None \<Rightarrow> None
      | Some tk \<Rightarrow> Some (set_turn i ((cl_turns cs i)\<lparr>rt_lock := Some (tk\<lparr>tk_cancelled := True\<rparr>)\<rparr>) cs))"
| "cluster_act l agent load app idem rqs (Release i r) cs =
     (case rt_lock (cl_turns cs i) of
        None \<Rightarrow> None
      | Some tk \<Rightarrow>
          (case release_turn r tk (cl_redis cs) of
             (tk', w) \<Rightarrow> Some (set_turn i ((cl_turns cs i)\<lparr>rt_lock := Some tk'\<rparr>) cs\<lparr>cl_redis := w\<rparr>)))"
| "cluster_act l agent load app idem rqs (Start i) cs =
     (case (rt_lock (cl_turns cs i), rt_stage (cl_turns cs i)) of
        (Some tk, Queued) \<Rightarrow>
          (case start_turn load (rqs ! i) tk (cl_store cs) of
             (st, s) \<Rightarrow> Some (set_turn i ((cl_turns cs i)\<lparr>rt_stage := st\<rparr>) cs\<lparr>cl_store := s\<rparr>))
      | _ \<Rightarrow> None)"
| "cluster_act l agent load app idem rqs (Finish i) cs =
     (case (rt_lock (cl_turns cs i), rt_stage (cl_turns cs i)) of
        (Some tk, Asked inp) \<Rightarrow>
          (case finish_turn app idem (rqs ! i) tk (agent i inp) (cl_store cs) of
             (st, s) \<Rightarrow> Some (set_turn i ((cl_turns cs i)\<lparr>rt_stage := st\<rparr>) cs\<lparr>cl_store := s\<rparr>))
      | _ \<Rightarrow> None)"
| "cluster_act l agent load app idem rqs (Pass now) cs =
     (if lw_time (cl_redis cs) \<le> now \<and> renewals_timely rqs (cl_turns cs) (cl_redis cs) now
      then Some (cs\<lparr>cl_redis := (cl_redis cs)\<lparr>lw_time := now\<rparr>\<rparr>)
      else None)"

fun cluster_run where
  "cluster_run l agent load app idem rqs [] cs = Some cs"
| "cluster_run l agent load app idem rqs (a # as) cs =
     (case cluster_act l agent load app idem rqs a cs of
        None \<Rightarrow> None
      | Some cs' \<Rightarrow> cluster_run l agent load app idem rqs as cs')"

definition cluster_start :: "'s \<Rightarrow> lock_world \<Rightarrow> 's cluster" where
  "cluster_start s w = \<lparr>cl_store = s, cl_redis = w, cl_turns = (\<lambda>_. \<lparr>rt_lock = None, rt_stage = Queued\<rparr>)\<rparr>"

section \<open>The serial specification\<close>

type_synonym serial_state = "(session_key \<Rightarrow> transcript) \<times> (nat \<Rightarrow> string result option)"

definition turn_input :: "transcript \<Rightarrow> string \<Rightarrow> agent_input" where
  "turn_input t q = \<lparr>ai_messages = fst t @ [Some (user_message q)], ai_streaming = False\<rparr>"

text \<open>
  A request that has no outcome yet takes its whole turn at once. \<open>Stored\<close>: the agent answers the stored
  transcript, the turn is stored and the request gets the answer, or an error when the acknowledgement
  was lost. \<open>Repeated\<close>: the turn was stored before under the request's idempotency key. \<open>Failed\<close>: an
  error, and nothing is stored.
\<close>

inductive serial_turn ::
  "int \<Rightarrow> (message \<Rightarrow> message) \<Rightarrow> agent_run \<Rightarrow> chat_request list \<Rightarrow> serial_state \<Rightarrow> serial_state \<Rightarrow> bool"
  for lim canon agent rqs where
  Stored: "i < length rqs \<Longrightarrow> out i = None \<Longrightarrow> k = rq_key (rqs ! i) \<Longrightarrow> q = rq_question (rqs ! i) \<Longrightarrow>
    agent i (turn_input (v k) q) = (msgs, None) \<Longrightarrow> a = answer_after [] msgs \<Longrightarrow> a \<noteq> [] \<Longrightarrow>
    r = Inr a \<or> (\<exists>e. r = Inl e) \<Longrightarrow>
    serial_turn lim canon agent rqs (v, out)
      (v(k := spec_turn lim (canon (user_message q)) (canon (assistant_message a)) (v k)), out(i \<mapsto> r))"
| Repeated: "i < length rqs \<Longrightarrow> out i = None \<Longrightarrow> rq_idem (rqs ! i) \<noteq> [] \<Longrightarrow>
    agent i (turn_input (v (rq_key (rqs ! i))) (rq_question (rqs ! i))) = (msgs, None) \<Longrightarrow>
    serial_turn lim canon agent rqs (v, out) (v, out(i \<mapsto> Inr (answer_after [] msgs)))"
| Failed: "i < length rqs \<Longrightarrow> out i = None \<Longrightarrow> serial_turn lim canon agent rqs (v, out) (v, out(i \<mapsto> Inl e))"

text \<open>The refinement map.\<close>

definition outcome :: "replica_turn \<Rightarrow> string result option" where
  "outcome t = (case rt_stage t of Ended r \<Rightarrow> Some r | _ \<Rightarrow> None)"

definition outcomes :: "'s cluster \<Rightarrow> nat \<Rightarrow> string result option" where
  "outcomes cs i = outcome (cl_turns cs i)"

section \<open>The locks\<close>

definition rq_lease :: "locker \<Rightarrow> chat_request \<Rightarrow> lease" where
  "rq_lease l rq = lease_of l (redis_lock_key (rq_key rq)) (rq_token rq)"

definition lease_ok :: "locker \<Rightarrow> chat_request \<Rightarrow> turn_lock \<Rightarrow> lock_world \<Rightarrow> bool" where
  "lease_ok l rq tk w \<longleftrightarrow> tk_lease tk = Some (rq_lease l rq) \<and> (tk_cancelled tk \<or> holds w (rq_lease l rq))"

text \<open>Every turn's lease is its own, and is held as long as the turn has not been cancelled.\<close>

definition locks_ok :: "locker \<Rightarrow> chat_request list \<Rightarrow> (nat \<Rightarrow> replica_turn) \<Rightarrow> lock_world \<Rightarrow> bool" where
  "locks_ok l rqs turns w \<longleftrightarrow>
     (\<forall>i tk. rt_lock (turns i) = Some tk \<longrightarrow> i < length rqs \<and> lease_ok l (rqs ! i) tk w)"

lemma rq_lease_simps [simp]:
  "le_key (rq_lease l rq) = redis_lock_key (rq_key rq)" "le_token (rq_lease l rq) = rq_token rq"
  "le_ttl (rq_lease l rq) = lk_ttl l"
  by (simp_all add: rq_lease_def lease_of_def)

lemma tokens_differ:
  "distinct (map rq_token rqs) \<Longrightarrow> i < length rqs \<Longrightarrow> j < length rqs \<Longrightarrow> i \<noteq> j \<Longrightarrow> rq_token (rqs ! i) \<noteq> rq_token (rqs ! j)"
  by (metis distinct_conv_nth length_map nth_map)

lemma lease_ok_foreign:
  "lease_ok l rq tk w \<Longrightarrow> other_call (rq_lease l rq) w w' \<Longrightarrow> lease_ok l rq tk w'"
  using lk.foreign_keeps by (auto simp: lease_ok_def)

lemma foreign_calls:
  assumes "rq_token rq \<noteq> rq_token rq'"
  shows "redis_renew r (rq_lease l rq) w = (w', y) \<Longrightarrow> other_call (rq_lease l rq') w w'"
    and "redis_unlock r (rq_lease l rq) w = (w', y) \<Longrightarrow> other_call (rq_lease l rq') w w'"
  using assms other_call.OtherRenew [of "rq_lease l rq" "rq_lease l rq'"]
    other_call.OtherUnlock [of "rq_lease l rq" "rq_lease l rq'"] by auto

text \<open>A call of turn \<open>i\<close> leaves the other turns' leases alone, so only its own has to be looked at.\<close>

lemma locks_ok_call:
  assumes "locks_ok l rqs turns w" and "i < length rqs"
    and "\<And>j. j < length rqs \<Longrightarrow> j \<noteq> i \<Longrightarrow> other_call (rq_lease l (rqs ! j)) w w' \<or> w' = w"
    and "\<And>tk. rt_lock t = Some tk \<Longrightarrow> lease_ok l (rqs ! i) tk w'"
  shows "locks_ok l rqs (turns(i := t)) w'"
  unfolding locks_ok_def
proof (intro allI impI)
  fix j tk assume j: "rt_lock ((turns(i := t)) j) = Some tk"
  show "j < length rqs \<and> lease_ok l (rqs ! j) tk w'"
  proof (cases "j = i")
    case True
    with j assms(2,4) show ?thesis by simp
  next
    case False
    with j assms(1) have "j < length rqs" "lease_ok l (rqs ! j) tk w" by (auto simp: locks_ok_def)
    with assms(3) [OF this(1) False] lease_ok_foreign show ?thesis by blast
  qed
qed

lemma poll_turn_cases:
  assumes "poll_turn l rq r t w = (t', w')" and "rt_lock t = None"
  shows "((\<exists>x. with_reply r (set_nx (redis_lock_key (rq_key rq)) (rq_token rq) (lk_ttl l)) w = (w', x)) \<or> w' = w) \<and>
    (rt_lock t' = None \<and> (rt_stage t' = rt_stage t \<or> (\<exists>e. rt_stage t' = Ended (Inl e))) \<or>
     rt_stage t' = rt_stage t \<and> (\<exists>tk. rt_lock t' = Some tk \<and> (0 < lk_ttl l \<longrightarrow> lease_ok l rq tk w')))"
proof (cases "validate_key (rq_key rq)")
  case (Some e)
  with assms show ?thesis by (auto simp: poll_turn_def lock_turn_def redis_lock_def)
next
  case None
  obtain w1 x where s: "with_reply r (set_nx (redis_lock_key (rq_key rq)) (rq_token rq) (lk_ttl l)) w = (w1, x)"
    by fastforce
  consider e where "x = Inl e" | "x = Inr False" | "x = Inr True" by (cases x) auto
  then show ?thesis
  proof cases
    case 3
    with None s assms set_nx_holds [of r "redis_lock_key (rq_key rq)" "rq_token rq" "lk_ttl l" w w1]
    show ?thesis
      by (auto simp: poll_turn_def lock_turn_def redis_lock_def lease_ok_def rq_lease_def lease_of_def holds_def)
  qed (use None s assms in \<open>auto simp: poll_turn_def lock_turn_def redis_lock_def\<close>)
qed

lemma renew_turn_cases:
  assumes "renew_turn r tk w = (tk', w')" and "lease_ok l rq tk w" and "1000000 \<le> lk_ttl l"
  shows "lease_ok l rq tk' w' \<and> (tk_cancelled tk \<longrightarrow> tk_cancelled tk') \<and>
    ((\<exists>y. redis_renew r (rq_lease l rq) w = (w', y)) \<or> w' = w)"
proof (cases "tk_cancelled tk")
  case True
  with assms show ?thesis by (auto simp: renew_turn_def lease_ok_def)
next
  case False
  then have h: "tk_lease tk = Some (rq_lease l rq)" "holds w (rq_lease l rq)" using assms(2) by (auto simp: lease_ok_def)
  obtain w1 y where rn: "redis_renew r (rq_lease l rq) w = (w1, y)" by fastforce
  show ?thesis
  proof (cases y)
    case (Inl e)
    with rn h False assms(1) show ?thesis by (auto simp: renew_turn_def renewal_ended_def lease_ok_def)
  next
    case (Inr x)
    then have "r = Delivered" using rn by (auto simp: redis_renew_def with_reply_def split: reply.splits)
    with renew_holds [OF h(2)] rn Inr assms(3) have "holds w1 (rq_lease l rq)" by auto
    with rn h False Inr assms(1) show ?thesis by (auto simp: renew_turn_def lease_ok_def)
  qed
qed

lemma release_turn_cases:
  assumes "release_turn r tk w = (tk', w')" and "lease_ok l rq tk w"
  shows "lease_ok l rq tk' w' \<and> (tk_cancelled tk \<longrightarrow> tk_cancelled tk') \<and>
    ((\<exists>y. redis_unlock r (rq_lease l rq) w = (w', y)) \<or> w' = w)"
  using assms
  by (cases "redis_unlock r (rq_lease l rq) w")
    (auto simp: release_turn_def lease_ok_def split: if_splits)

lemma pass_locks_ok:
  assumes "locks_ok l rqs turns w" and "renewals_timely rqs turns w now"
  shows "locks_ok l rqs turns (w\<lparr>lw_time := now\<rparr>)"
  unfolding locks_ok_def
proof (intro allI impI)
  fix i tk assume i: "rt_lock (turns i) = Some tk"
  with assms(1) have n: "i < length rqs" "lease_ok l (rqs ! i) tk w" by (auto simp: locks_ok_def)
  have "lease_ok l (rqs ! i) tk (w\<lparr>lw_time := now\<rparr>)"
  proof (cases "tk_cancelled tk")
    case False
    with n assms(2) i have "now < deadline_of w (rq_lease l (rqs ! i))"
      by (auto simp: renewals_timely_def list_all_iff lease_ok_def dest!: bspec [of _ _ i])
    with n False show ?thesis
      by (auto simp: lease_ok_def holds_def live_value_def deadline_of_def split: option.splits if_splits)
  qed (use n in \<open>simp add: lease_ok_def\<close>)
  with n show "i < length rqs \<and> lease_ok l (rqs ! i) tk (w\<lparr>lw_time := now\<rparr>)" by simp
qed

text \<open>Two turns of one session never both count on their leases.\<close>

lemma locks_exclusive:
  assumes "locks_ok l rqs turns w" and "distinct (map rq_token rqs)" and "i \<noteq> j"
    and "rt_lock (turns i) = Some tk" "\<not> tk_cancelled tk" and "rt_lock (turns j) = Some tk'" "\<not> tk_cancelled tk'"
  shows "rq_key (rqs ! i) \<noteq> rq_key (rqs ! j)"
proof
  assume same: "rq_key (rqs ! i) = rq_key (rqs ! j)"
  have h: "i < length rqs" "j < length rqs" "holds w (rq_lease l (rqs ! i))" "holds w (rq_lease l (rqs ! j))"
    using assms by (auto simp: locks_ok_def lease_ok_def)
  then have "contends (rq_lease l (rqs ! i)) (rq_lease l (rqs ! j))"
    using tokens_differ [OF assms(2) h(1,2) assms(3)] same by (simp add: contends_def)
  with lk.exclusive h(3,4) show False by blast
qed

section \<open>The simulation\<close>

definition inputs_ok :: "chat_request list \<Rightarrow> (nat \<Rightarrow> replica_turn) \<Rightarrow> (session_key \<Rightarrow> transcript) \<Rightarrow> bool" where
  "inputs_ok rqs turns v \<longleftrightarrow>
     (\<forall>i tk inp. rt_lock (turns i) = Some tk \<longrightarrow> \<not> tk_cancelled tk \<longrightarrow> rt_stage (turns i) = Asked inp \<longrightarrow>
        inp = turn_input (v (rq_key (rqs ! i))) (rq_question (rqs ! i)))"

lemma inputs_ok_upd:
  assumes "inputs_ok rqs turns v"
    and "\<And>tk inp. rt_lock t = Some tk \<Longrightarrow> \<not> tk_cancelled tk \<Longrightarrow> rt_stage t = Asked inp \<Longrightarrow>
      inp = turn_input (v (rq_key (rqs ! i))) (rq_question (rqs ! i))"
  shows "inputs_ok rqs (turns(i := t)) v"
  using assms by (auto simp: inputs_ok_def)

lemma inputs_ok_lock:
  assumes "inputs_ok rqs turns v" and "rt_lock (turns i) = Some tk" and "tk_cancelled tk \<longrightarrow> tk_cancelled tk'"
  shows "inputs_ok rqs (turns(i := (turns i)\<lparr>rt_lock := Some tk'\<rparr>)) v"
  using assms(2,3) by (intro inputs_ok_upd [OF assms(1)]) (use assms(1) in \<open>auto simp: inputs_ok_def\<close>)

definition abs_cluster :: "('s \<Rightarrow> session_key \<Rightarrow> transcript) \<Rightarrow> 's cluster \<Rightarrow> serial_state" where
  "abs_cluster view cs = (view (cl_store cs), outcomes cs)"

lemma abs_same_stage:
  assumes "rt_stage t = rt_stage (cl_turns cs i)"
  shows "outcomes (set_turn i t cs) = outcomes cs"
  using assms by (auto simp: outcomes_def set_turn_def outcome_def fun_eq_iff)

lemma abs_ended:
  "rt_stage t = Ended r \<Longrightarrow> outcomes (set_turn i t cs) = (outcomes cs)(i \<mapsto> r)"
  by (auto simp: outcomes_def set_turn_def outcome_def fun_eq_iff)

lemma cluster_upd_simps [simp]:
  "cl_store (set_turn i t cs) = cl_store cs" "cl_redis (set_turn i t cs) = cl_redis cs"
  "cl_turns (set_turn i t cs) = (cl_turns cs)(i := t)"
  "outcomes (set_turn i t (cs\<lparr>cl_redis := w\<rparr>)) = outcomes (set_turn i t cs)"
  "outcomes (set_turn i t (cs\<lparr>cl_store := s\<rparr>)) = outcomes (set_turn i t cs)"
  "outcomes (cs\<lparr>cl_redis := w\<rparr>) = outcomes cs" "outcomes (cs\<lparr>cl_store := s\<rparr>) = outcomes cs"
  by (auto simp: set_turn_def outcomes_def fun_eq_iff)

context cancellable_store
begin

definition cluster_inv :: "int \<Rightarrow> locker \<Rightarrow> chat_request list \<Rightarrow> 'a cluster \<Rightarrow> bool" where
  "cluster_inv lim l rqs cs \<longleftrightarrow> inv (cl_store cs) \<and> limit (cl_store cs) = lim \<and>
     locks_ok l rqs (cl_turns cs) (cl_redis cs) \<and> inputs_ok rqs (cl_turns cs) (view (cl_store cs))"

abbreviation simulated where
  "simulated lim agent l rqs cs cs' \<equiv> cluster_inv lim l rqs cs' \<and>
     (serial_turn lim canon agent rqs)\<^sup>=\<^sup>= (abs_cluster view cs) (abs_cluster view cs')"

lemma sim_poll:
  assumes i: "cluster_inv lim l rqs cs" and d: "distinct (map rq_token rqs)" and l: "0 < lk_ttl l"
    and a: "cluster_act l agent load append idem rqs (Poll i r) cs = Some cs'"
  shows "simulated lim agent l rqs cs cs'"
proof -
  obtain t w where g: "i < length rqs" "rt_lock (cl_turns cs i) = None" "rt_stage (cl_turns cs i) = Queued"
    and p: "poll_turn l (rqs ! i) r (cl_turns cs i) (cl_redis cs) = (t, w)"
    and cs': "cs' = set_turn i t cs\<lparr>cl_redis := w\<rparr>"
    using a by (auto split: if_splits prod.splits)
  note c = poll_turn_cases [OF p g(2)]
  have "locks_ok l rqs ((cl_turns cs)(i := t)) w"
  proof (rule locks_ok_call)
    show "locks_ok l rqs (cl_turns cs) (cl_redis cs)" using i by (simp add: cluster_inv_def)
    show "other_call (rq_lease l (rqs ! j)) (cl_redis cs) w \<or> w = cl_redis cs" if "j < length rqs" "j \<noteq> i" for j
      using c tokens_differ [OF d g(1) that(1)] that(2) by (auto intro: other_call.OtherSetNX)
  qed (use g c l in auto)
  moreover have "inputs_ok rqs ((cl_turns cs)(i := t)) (view (cl_store cs))"
    by (rule inputs_ok_upd) (use i c g in \<open>auto simp: cluster_inv_def\<close>)
  moreover have "(serial_turn lim canon agent rqs)\<^sup>=\<^sup>= (abs_cluster view cs) (abs_cluster view cs')"
  proof (cases "rt_stage t = Queued")
    case True
    with abs_same_stage [of t cs i] cs' g show ?thesis by (simp add: abs_cluster_def)
  next
    case False
    with c g obtain e where "rt_stage t = Ended (Inl e)" by auto
    with abs_ended [of t "Inl e" i cs] cs' g serial_turn.Failed [OF g(1), of "outcomes cs"] show ?thesis
      by (simp add: abs_cluster_def outcomes_def outcome_def)
  qed
  ultimately show ?thesis using i cs' by (simp add: cluster_inv_def)
qed

text \<open>Renewals, departures and releases are invisible.\<close>

lemma sim_lock:
  assumes i: "cluster_inv lim l rqs cs" and d: "distinct (map rq_token rqs)"
    and t: "rt_lock (cl_turns cs i) = Some tk"
    and ok: "lease_ok l (rqs ! i) tk' w" and mono: "tk_cancelled tk \<longrightarrow> tk_cancelled tk'"
    and frame: "\<And>j. j < length rqs \<Longrightarrow> rq_token (rqs ! i) \<noteq> rq_token (rqs ! j) \<Longrightarrow>
      other_call (rq_lease l (rqs ! j)) (cl_redis cs) w \<or> w = cl_redis cs"
  shows "simulated lim agent l rqs cs (set_turn i ((cl_turns cs i)\<lparr>rt_lock := Some tk'\<rparr>) cs\<lparr>cl_redis := w\<rparr>)"
proof -
  have n: "i < length rqs" using i t by (auto simp: cluster_inv_def locks_ok_def)
  have "locks_ok l rqs ((cl_turns cs)(i := (cl_turns cs i)\<lparr>rt_lock := Some tk'\<rparr>)) w"
  proof (rule locks_ok_call [OF _ n])
    show "locks_ok l rqs (cl_turns cs) (cl_redis cs)" using i by (simp add: cluster_inv_def)
    show "other_call (rq_lease l (rqs ! j)) (cl_redis cs) w \<or> w = cl_redis cs" if "j < length rqs" "j \<noteq> i" for j
      using frame [OF that(1)] tokens_differ [OF d n that(1)] that(2) by auto
  qed (use ok in simp)
  moreover have "inputs_ok rqs ((cl_turns cs)(i := (cl_turns cs i)\<lparr>rt_lock := Some tk'\<rparr>)) (view (cl_store cs))"
    using i by (intro inputs_ok_lock [where turns = "cl_turns cs" and tk = tk] t mono) (simp add: cluster_inv_def)
  ultimately show ?thesis
    using i abs_same_stage [of "(cl_turns cs i)\<lparr>rt_lock := Some tk'\<rparr>" cs i] by (simp add: cluster_inv_def abs_cluster_def)
qed

lemma lock_of_turn:
  "cluster_inv lim l rqs cs \<Longrightarrow> rt_lock (cl_turns cs i) = Some tk \<Longrightarrow>
     i < length rqs \<and> lease_ok l (rqs ! i) tk (cl_redis cs)"
  by (auto simp: cluster_inv_def locks_ok_def)

lemma sim_renew:
  assumes i: "cluster_inv lim l rqs cs" and d: "distinct (map rq_token rqs)" and l: "1000000 \<le> lk_ttl l"
    and a: "cluster_act l agent load append idem rqs (Renew i r) cs = Some cs'"
  shows "simulated lim agent l rqs cs cs'"
proof -
  obtain tk tk' w where t: "rt_lock (cl_turns cs i) = Some tk"
    and rn: "renew_turn r tk (cl_redis cs) = (tk', w)"
    and cs': "cs' = set_turn i ((cl_turns cs i)\<lparr>rt_lock := Some tk'\<rparr>) cs\<lparr>cl_redis := w\<rparr>"
    using a by (auto split: option.splits prod.splits)
  note c = renew_turn_cases [OF rn conjunct2 [OF lock_of_turn [OF i t]] l]
  show ?thesis unfolding cs'
    by (rule sim_lock [OF i d t]) (use c in \<open>auto dest: foreign_calls(1)\<close>)
qed

lemma sim_release:
  assumes i: "cluster_inv lim l rqs cs" and d: "distinct (map rq_token rqs)"
    and a: "cluster_act l agent load append idem rqs (Release i r) cs = Some cs'"
  shows "simulated lim agent l rqs cs cs'"
proof -
  obtain tk tk' w where t: "rt_lock (cl_turns cs i) = Some tk"
    and rl: "release_turn r tk (cl_redis cs) = (tk', w)"
    and cs': "cs' = set_turn i ((cl_turns cs i)\<lparr>rt_lock := Some tk'\<rparr>) cs\<lparr>cl_redis := w\<rparr>"
    using a by (auto split: option.splits prod.splits)
  note c = release_turn_cases [OF rl conjunct2 [OF lock_of_turn [OF i t]]]
  show ?thesis unfolding cs'
    by (rule sim_lock [OF i d t]) (use c in \<open>auto dest: foreign_calls(2)\<close>)
qed

lemma sim_depart:
  assumes i: "cluster_inv lim l rqs cs" and d: "distinct (map rq_token rqs)"
    and a: "cluster_act l agent load append idem rqs (Depart i) cs = Some cs'"
  shows "simulated lim agent l rqs cs cs'"
proof -
  obtain tk where t: "rt_lock (cl_turns cs i) = Some tk"
    and cs': "cs' = set_turn i ((cl_turns cs i)\<lparr>rt_lock := Some (tk\<lparr>tk_cancelled := True\<rparr>)\<rparr>) cs\<lparr>cl_redis := cl_redis cs\<rparr>"
    using a by (auto split: option.splits)
  show ?thesis unfolding cs'
    by (rule sim_lock [OF i d t]) (use lock_of_turn [OF i t] in \<open>auto simp: lease_ok_def\<close>)
qed

lemma sim_pass:
  assumes i: "cluster_inv lim l rqs cs"
    and a: "cluster_act l agent load append idem rqs (Pass now) cs = Some cs'"
  shows "simulated lim agent l rqs cs cs'"
  using assms pass_locks_ok [of l rqs "cl_turns cs" "cl_redis cs" now]
  by (auto simp: cluster_inv_def abs_cluster_def split: if_splits)

end

text \<open>The start of a turn reads the store, its end writes it.\<close>

context cancellable_store
begin

lemma start_turn_cases:
  assumes "inv s" and "ok_key (rq_key rq)" and "start_turn load rq tk s = (st, s')"
  shows "inv s' \<and> limit s' = limit s \<and> view s' = view s \<and>
    ((\<exists>e. st = Ended (Inl e)) \<or> st = Asked (turn_input (view s (rq_key rq)) (rq_question rq)))"
proof -
  obtain r where ld: "load (Some (turn_ctx rq tk)) (rq_key rq) s = (s', r)"
    using assms(3) by (auto simp: start_turn_def build_turn_input_def split: prod.splits sum.splits)
  note k = load_keeps [OF assms(1,2) ld]
  show ?thesis
  proof (cases r)
    case (Inl e)
    with ld assms(3) k show ?thesis by (auto simp: start_turn_def build_turn_input_def)
  next
    case (Inr t)
    with load_ok [OF assms(1,2)] ld assms(3) k show ?thesis
      by (auto simp: start_turn_def build_turn_input_def turn_input_def split: prod.splits)
  qed
qed

lemma sim_start:
  assumes i: "cluster_inv lim l rqs cs" and ok: "\<forall>rq \<in> set rqs. ok_key (rq_key rq)"
    and a: "cluster_act l agent load append idem rqs (Start i) cs = Some cs'"
  shows "simulated lim agent l rqs cs cs'"
proof -
  obtain tk st s where t: "rt_lock (cl_turns cs i) = Some tk" "rt_stage (cl_turns cs i) = Queued"
    and st: "start_turn load (rqs ! i) tk (cl_store cs) = (st, s)"
    and cs': "cs' = set_turn i ((cl_turns cs i)\<lparr>rt_stage := st\<rparr>) cs\<lparr>cl_store := s\<rparr>"
    using a by (auto split: option.splits prod.splits turn_stage.splits)
  have n: "i < length rqs" using lock_of_turn [OF i t(1)] by simp
  have "inv (cl_store cs)" using i by (simp add: cluster_inv_def)
  note c = start_turn_cases [OF this _ st]
  have okk: "ok_key (rq_key (rqs ! i))" using ok n by simp
  have "locks_ok l rqs (cl_turns cs') (cl_redis cs')"
    using i cs' n t by (auto simp: cluster_inv_def locks_ok_def)
  moreover have "inputs_ok rqs (cl_turns cs') (view (cl_store cs'))"
    using i cs' c [OF okk] by (auto simp: cluster_inv_def intro!: inputs_ok_upd)
  moreover have "(serial_turn lim canon agent rqs)\<^sup>=\<^sup>= (abs_cluster view cs) (abs_cluster view cs')"
    using c [OF okk]
  proof (elim conjE disjE exE)
    fix e assume e: "view s = view (cl_store cs)" "st = Ended (Inl e)"
    then have "outcomes cs' = (outcomes cs)(i \<mapsto> Inl e)" using cs' by (simp add: abs_ended)
    with serial_turn.Failed [OF n, of "outcomes cs"] t e cs' show ?thesis
      by (simp add: abs_cluster_def outcomes_def outcome_def)
  next
    assume e: "view s = view (cl_store cs)" "st = Asked (turn_input (view (cl_store cs) (rq_key (rqs ! i))) (rq_question (rqs ! i)))"
    then have "outcomes cs' = outcomes cs" using cs' t by (auto simp: outcomes_def outcome_def fun_eq_iff set_turn_def)
    with e cs' show ?thesis by (simp add: abs_cluster_def)
  qed
  ultimately show ?thesis using i cs' c [OF okk] by (simp add: cluster_inv_def)
qed

text \<open>Under a finished context the receiver stores nothing and reports an error.\<close>

lemma chat_emit_finished:
  assumes "ctx_err c \<noteq> None"
    and "chat_emit append (Some append_idem) k ik q c (done_event e) (turn_before s limiter msgs) = (t, ev)"
  shows "view (ct_store t) = view s \<and> te_err ev \<noteq> None"
proof (cases "e = None \<and> answer_after [] msgs \<noteq> []")
  case True
  obtain s' r where app: "append_turn append (Some append_idem) (Some c) k ik (Some (user_message q))
      (Some (assistant_message (answer_after [] msgs))) s = (s', r)" by fastforce
  have fin: "context_err (Some c) \<noteq> None" using assms(1) by simp
  have "view s' = view s \<and> (\<exists>e. r = Inl e)"
  proof (cases "ik = []")
    case True
    with append_finished [OF _ fin] app show ?thesis by (auto simp: append_turn_def)
  next
    case False
    obtain rb where "append_idem (Some c) k ik (Some (user_message q))
        (Some (assistant_message (answer_after [] msgs))) s = (s', rb)" "r = (case rb of Inl e \<Rightarrow> Inl e | Inr _ \<Rightarrow> Inr ())"
      using app False by (auto simp: append_turn_def split: prod.splits sum.splits)
    with idem_finished [OF _ fin] show ?thesis by fastforce
  qed
  with True app assms(2) show ?thesis
    by (auto simp: chat_emit_def done_event_def turn_before_def Let_def release_once_def)
next
  case False
  with assms(2) show ?thesis
    by (auto simp: chat_emit_def done_event_def turn_before_def Let_def release_once_def split: if_splits)
qed

lemma finish_turn_cases:
  assumes "inv s" and "ok_key (rq_key rq)"
    and "finish_turn append (Some append_idem) rq tk (msgs, e) s = (st, s')"
  shows "inv s' \<and> limit s' = limit s \<and>
    (\<exists>r. st = Ended r \<and>
      ((\<exists>x. r = Inl x) \<and> view s' = view s \<or>
       \<not> tk_cancelled tk \<and> e = None \<and> answer_after [] msgs \<noteq> [] \<and> (r = Inr (answer_after [] msgs) \<or> (\<exists>x. r = Inl x)) \<and>
         turn_done s (rq_key rq) (rq_question rq) (answer_after [] msgs) s' \<or>
       \<not> tk_cancelled tk \<and> e = None \<and> rq_idem rq \<noteq> [] \<and> r = Inr (answer_after [] msgs) \<and> view s' = view s))"
proof -
  obtain t ev where emit: "chat_emit append (Some append_idem) (rq_key rq) (rq_idem rq) (rq_question rq) (turn_ctx rq tk)
      (done_event e) (turn_before s None msgs) = (t, ev)" by fastforce
  have st: "st = Ended (case te_err ev of Some e \<Rightarrow> Inl e | None \<Rightarrow> Inr (answer_after [] msgs))" "s' = ct_store t"
    using assms(3) emit done_event_fields [OF emit]
    by (auto simp: finish_turn_def turn_before_def split: option.splits)
  note eff = chat_emit_end [OF assms(1,2) emit]
  show ?thesis
  proof (cases "tk_cancelled tk")
    case True
    then have "ctx_err (turn_ctx rq tk) \<noteq> None" by (simp add: turn_ctx_def)
    from chat_emit_finished [OF this emit] eff st show ?thesis by auto
  next
    case False
    have same: "ct_store t = s" if "\<not> (e = None \<and> answer_after [] msgs \<noteq> [])"
      using that emit
      by (auto simp: chat_emit_def done_event_def turn_before_def Let_def release_once_def split: if_splits)
    show ?thesis
    proof (cases "te_err ev")
      case (Some x)
      with eff st same False show ?thesis by auto
    next
      case None
      with eff st False show ?thesis by auto
    qed
  qed
qed

end

context cancellable_store
begin

lemma sim_finish:
  assumes i: "cluster_inv lim l rqs cs" and d: "distinct (map rq_token rqs)"
    and ok: "\<forall>rq \<in> set rqs. ok_key (rq_key rq)"
    and a: "cluster_act l agent load append (Some append_idem) rqs (Finish i) cs = Some cs'"
  shows "simulated lim agent l rqs cs cs'"
proof -
  let ?rq = "rqs ! i" and ?v = "view (cl_store cs)"
  obtain tk inp st s where t: "rt_lock (cl_turns cs i) = Some tk" "rt_stage (cl_turns cs i) = Asked inp"
    and fin: "finish_turn append (Some append_idem) ?rq tk (agent i inp) (cl_store cs) = (st, s)"
    and cs': "cs' = set_turn i ((cl_turns cs i)\<lparr>rt_stage := st\<rparr>) cs\<lparr>cl_store := s\<rparr>"
    using a by (auto split: option.splits prod.splits turn_stage.splits)
  obtain msgs e where run: "agent i inp = (msgs, e)" by fastforce
  have n: "i < length rqs" using lock_of_turn [OF i t(1)] by simp
  have ci: "inv (cl_store cs)" "limit (cl_store cs) = lim" "locks_ok l rqs (cl_turns cs) (cl_redis cs)"
    "inputs_ok rqs (cl_turns cs) ?v" using i by (auto simp: cluster_inv_def)
  have okk: "ok_key (rq_key ?rq)" using ok n by simp
  note c = finish_turn_cases [OF ci(1) okk fin [unfolded run]]
  from c obtain r where st: "st = Ended r"
    and eff: "(\<exists>x. r = Inl x) \<and> view s = ?v \<or>
       \<not> tk_cancelled tk \<and> e = None \<and> answer_after [] msgs \<noteq> [] \<and> (r = Inr (answer_after [] msgs) \<or> (\<exists>x. r = Inl x)) \<and>
         turn_done (cl_store cs) (rq_key ?rq) (rq_question ?rq) (answer_after [] msgs) s \<or>
       \<not> tk_cancelled tk \<and> e = None \<and> rq_idem ?rq \<noteq> [] \<and> r = Inr (answer_after [] msgs) \<and> view s = ?v" by auto
  have out: "outcomes cs i = None" "outcomes cs' = (outcomes cs)(i \<mapsto> r)"
    using t st cs' by (auto simp: outcomes_def outcome_def abs_ended)
  have inp: "\<not> tk_cancelled tk \<Longrightarrow> inp = turn_input (?v (rq_key ?rq)) (rq_question ?rq)"
    using ci(4) t by (auto simp: inputs_ok_def)
  have others: "inputs_ok rqs ((cl_turns cs)(i := (cl_turns cs i)\<lparr>rt_stage := st\<rparr>)) (view s)"
    unfolding inputs_ok_def
  proof (intro allI impI)
    fix j tk' inp'
    let ?ts = "(cl_turns cs)(i := (cl_turns cs i)\<lparr>rt_stage := st\<rparr>)"
    assume j: "rt_lock (?ts j) = Some tk'" "\<not> tk_cancelled tk'" "rt_stage (?ts j) = Asked inp'"
    then have ne: "j \<noteq> i" using st by auto
    have "view s (rq_key (rqs ! j)) = ?v (rq_key (rqs ! j))"
    proof (cases "view s = ?v")
      case False
      with eff have "\<not> tk_cancelled tk" and
        td: "turn_done (cl_store cs) (rq_key ?rq) (rq_question ?rq) (answer_after [] msgs) s" by auto
      then have "rq_key ?rq \<noteq> rq_key (rqs ! j)"
        using locks_exclusive [OF ci(3) d ne [symmetric] t(1)] j ne by auto
      with td show ?thesis by (simp add: turn_done_def)
    qed simp
    moreover have "inp' = turn_input (?v (rq_key (rqs ! j))) (rq_question (rqs ! j))"
      using ci(4) j ne by (auto simp: inputs_ok_def)
    ultimately show "inp' = turn_input (view s (rq_key (rqs ! j))) (rq_question (rqs ! j))" by simp
  qed
  have "locks_ok l rqs (cl_turns cs') (cl_redis cs')"
    using ci(3) cs' n t by (auto simp: locks_ok_def)
  then have "cluster_inv lim l rqs cs'" using others c ci cs' by (simp add: cluster_inv_def)
  moreover have "serial_turn lim canon agent rqs (?v, outcomes cs) (view s, (outcomes cs)(i \<mapsto> r))"
  proof -
    let ?a = "answer_after [] msgs"
    consider (failed) x where "r = Inl x" "view s = ?v"
      | (stored) "\<not> tk_cancelled tk" "e = None" "?a \<noteq> []" "r = Inr ?a \<or> (\<exists>x. r = Inl x)"
          "turn_done (cl_store cs) (rq_key ?rq) (rq_question ?rq) ?a s"
      | (repeated) "\<not> tk_cancelled tk" "e = None" "rq_idem ?rq \<noteq> []" "r = Inr ?a" "view s = ?v"
      using eff by blast
    then show ?thesis
    proof cases
      case failed
      with serial_turn.Failed [where out = "outcomes cs" and i = i and rqs = rqs, OF n out(1)] show ?thesis by simp
    next
      case stored
      with run inp have ag: "agent i (turn_input (?v (rq_key ?rq)) (rq_question ?rq)) = (msgs, None)" by simp
      from serial_turn.Stored [where out = "outcomes cs" and i = i and v = ?v and canon = canon and rqs = rqs and agent = agent,
          OF n out(1) refl refl ag refl stored(3,4)] stored(5) ci(2)
      show ?thesis by (simp add: turn_done_def)
    next
      case repeated
      with run inp have ag: "agent i (turn_input (?v (rq_key ?rq)) (rq_question ?rq)) = (msgs, None)" by simp
      from serial_turn.Repeated [where out = "outcomes cs" and i = i and v = ?v and rqs = rqs and agent = agent, OF n out(1) repeated(3) ag] repeated
      show ?thesis by simp
    qed
  qed
  ultimately show ?thesis using out cs' by (simp add: abs_cluster_def)
qed

lemma cluster_step_simulated:
  assumes "cluster_inv lim l rqs cs" and "distinct (map rq_token rqs)" and "1000000 \<le> lk_ttl l"
    and "\<forall>rq \<in> set rqs. ok_key (rq_key rq)"
    and "cluster_act l agent load append (Some append_idem) rqs a cs = Some cs'"
  shows "simulated lim agent l rqs cs cs'"
proof (cases a)
  case (Poll i r) with assms sim_poll show ?thesis by auto
next
  case (Renew i r) with assms sim_renew show ?thesis by blast
next
  case (Depart i) with assms sim_depart show ?thesis by blast
next
  case (Release i r) with assms sim_release show ?thesis by blast
next
  case (Start i) with assms sim_start show ?thesis by blast
next
  case (Finish i) with assms sim_finish show ?thesis by blast
next
  case (Pass now) with assms sim_pass show ?thesis by blast
qed

lemma cluster_refines_serial:
  assumes "cluster_inv lim l rqs cs" and "distinct (map rq_token rqs)" and "1000000 \<le> lk_ttl l"
    and "\<forall>rq \<in> set rqs. ok_key (rq_key rq)"
    and "cluster_run l agent load append (Some append_idem) rqs acts cs = Some cs'"
  shows "cluster_inv lim l rqs cs' \<and>
    (serial_turn lim canon agent rqs)\<^sup>*\<^sup>* (abs_cluster view cs) (abs_cluster view cs')"
  using assms(1,5)
proof (induction acts arbitrary: cs)
  case (Cons a acts)
  then obtain cs1 where a: "cluster_act l agent load append (Some append_idem) rqs a cs = Some cs1"
    and r: "cluster_run l agent load append (Some append_idem) rqs acts cs1 = Some cs'"
    by (auto split: option.splits)
  note s = cluster_step_simulated [OF Cons.prems(1) assms(2-4) a]
  then have "(serial_turn lim canon agent rqs)\<^sup>*\<^sup>* (abs_cluster view cs) (abs_cluster view cs1)" by auto
  with Cons.IH [OF conjunct1 [OF s] r] show ?case by (meson rtranclp_trans)
qed simp

lemma cluster_inv_start: "inv s \<Longrightarrow> cluster_inv (limit s) l rqs (cluster_start s w)"
  by (simp add: cluster_inv_def cluster_start_def locks_ok_def inputs_ok_def)

end

section \<open>Replicas over PostgreSQL\<close>


definition two_requests :: "chat_request list" where
  "two_requests =
     [\<lparr>rq_key = key_a, rq_question = ''q1'', rq_idem = [], rq_token = ''t1'', rq_ctx = background\<rparr>,
      \<lparr>rq_key = key_a, rq_question = ''q2'', rq_idem = ''k2'', rq_token = ''t2'', rq_ctx = background\<rparr>]"

text \<open>An agent that answers with as many letters as its input has messages.\<close>

definition counting_agent :: agent_run where
  "counting_agent i inp = ([Some (assistant_message (map (\<lambda>_. CHR ''x'') (ai_messages inp)))], None)"

definition contended_run :: "cluster_action list \<Rightarrow> sql_store cluster option" where
  "contended_run acts =
     cluster_run locker_3s counting_agent (sql_load sample_codec) (sql_append sample_codec)
       (Some (sql_append_idempotent sample_codec)) two_requests acts (cluster_start (open_sql no_faults) empty_world)"

definition contended_acts :: "cluster_action list" where
  "contended_acts =
     [Poll 0 Delivered, Poll 1 Delivered, Start 0, Pass second, Renew 0 Delivered, Poll 1 Delivered, Finish 0,
      Release 0 Delivered, Poll 1 Delivered, Start 1, Finish 1, Release 1 Delivered]"


text \<open>The hypothesis that the renewals are timely is needed: when the first replica stalls past its
  lease, the second takes the lock and answers without the first turn, and both turns are stored. The
  lock carries no fencing token that the append could check.\<close>

definition stalled_world :: "sql_store cluster \<Rightarrow> sql_store cluster" where
  "stalled_world cs = cs\<lparr>cl_redis := (cl_redis cs)\<lparr>lw_time := 4 * second\<rparr>\<rparr>"

lemma stalled_lease_loses_order:
  "(case contended_run [Poll 0 Delivered, Start 0] of
      None \<Rightarrow> None
    | Some cs \<Rightarrow>
        map_option (\<lambda>cs. (outcomes cs 0, outcomes cs 1))
          (cluster_run locker_3s counting_agent (sql_load sample_codec) (sql_append sample_codec)
             (Some (sql_append_idempotent sample_codec)) two_requests
             [Poll 1 Delivered, Start 1, Finish 1, Finish 0] (stalled_world cs))) =
   Some (Some (Inr ''x''), Some (Inr ''x''))"
  by code_simp

end
