(* ===== verification/Go_Utf8.thy ===== *)
theory Go_Utf8
  imports Prelude
begin

text \<open>
  UTF-8 as Go reads it: the rune at the head of a byte string with its width, the runes of a string,
  the encoding of a code point, and the string with every byte that begins no valid sequence replaced
  by U+FFFD, which is what encoders make of it.
\<close>

section \<open>The code points of a string\<close>

text \<open>\<open>for _, r := range s\<close>: UTF-8, with U+FFFD for a byte that begins no valid sequence.\<close>

definition byte_at :: "string \<Rightarrow> nat \<Rightarrow> nat" where
  "byte_at s i = (if i < length s then of_char (s ! i) else 0)"

definition in_range :: "nat \<Rightarrow> nat \<Rightarrow> nat \<Rightarrow> bool" where
  "in_range lo hi b \<longleftrightarrow> lo \<le> b \<and> b \<le> hi"

definition decode_rune :: "string \<Rightarrow> nat \<times> nat" where
  "decode_rune s =
     (let a = byte_at s 0; b = byte_at s 1; c = byte_at s 2; d = byte_at s 3
      in if a < 128 then (a, 1)
         else if in_range 194 223 a \<and> in_range 128 191 b then ((a - 192) * 64 + (b - 128), 2)
         else if in_range 224 239 a \<and> in_range (if a = 224 then 160 else 128) (if a = 237 then 159 else 191) b \<and> in_range 128 191 c
              then ((a - 224) * 4096 + (b - 128) * 64 + (c - 128), 3)
         else if in_range 240 244 a \<and> in_range (if a = 240 then 144 else 128) (if a = 244 then 143 else 191) b \<and>
                 in_range 128 191 c \<and> in_range 128 191 d
              then ((a - 240) * 262144 + (b - 128) * 4096 + (c - 128) * 64 + (d - 128), 4)
         else (65533, 1))"

lemma decode_rune_width: "0 < snd (decode_rune s)"
  by (simp add: decode_rune_def Let_def)

function runes :: "string \<Rightarrow> nat list" where
  "runes s = (if s = [] then [] else fst (decode_rune s) # runes (drop (snd (decode_rune s)) s))"
  by pat_completeness auto
termination
  by (relation "measure length") (auto simp: decode_rune_width)

declare runes.simps [simp del]

text \<open>The encoding of a code point below U+10000, and strings with their invalid bytes replaced.\<close>

definition utf8_encode :: "nat \<Rightarrow> string" where
  "utf8_encode n =
     (if n < 128 then [char_of n]
      else if n < 2048 then [char_of (192 + n div 64), char_of (128 + n mod 64)]
      else [char_of (224 + n div 4096), char_of (128 + n div 64 mod 64), char_of (128 + n mod 64)])"

definition invalid_head :: "string \<Rightarrow> bool" where
  "invalid_head s \<longleftrightarrow> 128 \<le> byte_at s 0 \<and> snd (decode_rune s) = 1"

function to_valid :: "string \<Rightarrow> string" where
  "to_valid s =
     (if s = [] then []
      else if invalid_head s then utf8_encode 65533 @ to_valid (tl s)
      else take (snd (decode_rune s)) s @ to_valid (drop (snd (decode_rune s)) s))"
  by pat_completeness auto
termination
  by (relation "measure length") (auto simp: decode_rune_width)

declare to_valid.simps [simp del]

lemma to_valid_Nil [simp]: "to_valid [] = []"
  by (simp add: to_valid.simps)

lemma to_valid_ascii: "of_char c < (128 :: nat) \<Longrightarrow> to_valid (c # s) = c # to_valid s"
  by (simp add: to_valid.simps [of "c # s"] invalid_head_def decode_rune_def byte_at_def Let_def)

lemma to_valid_ascii_all: "list_all (\<lambda>c. of_char c < (128 :: nat)) s \<Longrightarrow> to_valid s = s"
  by (induction s) (simp_all add: to_valid_ascii)

lemma decode_rune_cases:
  obtains "snd (decode_rune s) = 1"
    | "snd (decode_rune s) = 2" "128 \<le> byte_at s 0" "128 \<le> byte_at s 1"
    | "snd (decode_rune s) = 3" "128 \<le> byte_at s 0" "128 \<le> byte_at s 1" "128 \<le> byte_at s 2"
    | "snd (decode_rune s) = 4" "128 \<le> byte_at s 0" "128 \<le> byte_at s 1" "128 \<le> byte_at s 2" "128 \<le> byte_at s 3"
proof -
  let ?a = "byte_at s 0" and ?b = "byte_at s 1" and ?c = "byte_at s 2" and ?d = "byte_at s 3"
  define p2 p3 p4 where "p2 \<longleftrightarrow> in_range 194 223 ?a \<and> in_range 128 191 ?b"
    and "p3 \<longleftrightarrow> in_range 224 239 ?a \<and> in_range (if ?a = 224 then 160 else 128) (if ?a = 237 then 159 else 191) ?b \<and> in_range 128 191 ?c"
    and "p4 \<longleftrightarrow> in_range 240 244 ?a \<and> in_range (if ?a = 240 then 144 else 128) (if ?a = 244 then 143 else 191) ?b \<and>
      in_range 128 191 ?c \<and> in_range 128 191 ?d"
  have w: "snd (decode_rune s) = (if ?a < 128 then 1 else if p2 then 2 else if p3 then 3 else if p4 then 4 else 1)"
    unfolding decode_rune_def Let_def p2_def p3_def p4_def if_distrib [of snd] snd_conv by (rule refl)
  have 2: "p2 \<Longrightarrow> 128 \<le> ?a \<and> 128 \<le> ?b" by (simp add: p2_def in_range_def)
  have 3: "p3 \<Longrightarrow> 128 \<le> ?a \<and> 128 \<le> ?b \<and> 128 \<le> ?c" by (simp add: p3_def in_range_def split: if_splits)
  have 4: "p4 \<Longrightarrow> 128 \<le> ?a \<and> 128 \<le> ?b \<and> 128 \<le> ?c \<and> 128 \<le> ?d" by (simp add: p4_def in_range_def split: if_splits)
  consider "snd (decode_rune s) = 1" | "p2" "snd (decode_rune s) = 2" | "p3" "snd (decode_rune s) = 3" | "p4" "snd (decode_rune s) = 4"
    using w by (metis (full_types))
  then show thesis using that 2 3 4 by cases blast+
qed

text \<open>The width of a rune stays within the string, and all of its bytes are at least 128 unless it is ASCII.\<close>

lemma decode_rune_bytes:
  assumes "s \<noteq> []"
  shows "snd (decode_rune s) \<le> length s"
    and "128 \<le> byte_at s 0 \<Longrightarrow> \<not> invalid_head s \<Longrightarrow> \<forall>c \<in> set (take (snd (decode_rune s)) s). (128 :: nat) \<le> of_char c"
proof -
  have byte: "i < length s" if "128 \<le> byte_at s i" for i using that by (auto simp: byte_at_def split: if_splits)
  have all: "(128 :: nat) \<le> of_char c" if a: "\<forall>i < w. 128 \<le> byte_at s i" and c: "c \<in> set (take w s)" for c w
  proof -
    obtain i where "i < w" "i < length s" "c = s ! i" using c by (auto simp: in_set_conv_nth)
    with a show ?thesis by (auto simp: byte_at_def)
  qed
  have w: "snd (decode_rune s) = 1 \<or> (\<forall>i < snd (decode_rune s). 128 \<le> byte_at s i)"
    by (rule decode_rune_cases [of s]) (auto simp: less_Suc_eq eval_nat_numeral)
  show "snd (decode_rune s) \<le> length s"
    using w
  proof
    assume a: "\<forall>i < snd (decode_rune s). 128 \<le> byte_at s i"
    have "snd (decode_rune s) - 1 < snd (decode_rune s)" using decode_rune_width [of s] by simp
    with a byte have "snd (decode_rune s) - 1 < length s" by blast
    then show ?thesis by simp
  qed (use assms in \<open>cases s; simp\<close>)
  show "\<forall>c \<in> set (take (snd (decode_rune s)) s). (128 :: nat) \<le> of_char c"
    if "128 \<le> byte_at s 0" and "\<not> invalid_head s"
    using w that all by (auto simp: invalid_head_def)
qed

end
