(* ===== verification/Eval_Metrics.thy ===== *)
theory Eval_Metrics
  imports Go_Utf8 Complex_Main "HOL-Library.Multiset"
begin

text \<open>
  The scores of internal/evaluation/metrics.go: recall, reciprocal rank and discounted gain of a ranked
  list of IDs, exact match and token F1 of two texts, and the equality of tool sets. A float is a real
  number, so rounding is not modelled. A text is its list of code points; the Unicode classes and the
  lower-case mapping are a parameter. The lemmas give each score its mathematical meaning and its bounds.
\<close>

section \<open>Ranked lists\<close>

fun unique_from :: "'a list \<Rightarrow> 'a list \<Rightarrow> 'a list" where
  "unique_from seen [] = []"
| "unique_from seen (x # xs) = (if x \<in> set seen then unique_from seen xs else x # unique_from (x # seen) xs)"

definition unique_strings :: "'a list \<Rightarrow> 'a list" where
  "unique_strings xs = unique_from [] xs"

definition string_set :: "'a list \<Rightarrow> 'a set" where
  "string_set xs = set xs"

definition cut :: "int \<Rightarrow> 'a list \<Rightarrow> 'a list" where
  "cut k xs = (if int (length xs) > k then take (nat k) xs else xs)"

definition recall_at_k :: "'a list \<Rightarrow> 'a list \<Rightarrow> int \<Rightarrow> real" where
  "recall_at_k retrieved relevant k =
     (let relevant_set = string_set relevant
      in if card relevant_set = 0 \<or> k \<le> 0 then 0
         else real (length (filter (\<lambda>i. i \<in> relevant_set) (cut k (unique_strings retrieved)))) / real (card relevant_set))"

fun first_hit :: "'a set \<Rightarrow> 'a list \<Rightarrow> nat \<Rightarrow> real" where
  "first_hit relevant [] index = 0"
| "first_hit relevant (i # rest) index =
     (if i \<in> relevant then 1 / real (index + 1) else first_hit relevant rest (index + 1))"

definition mrr :: "'a list \<Rightarrow> 'a list \<Rightarrow> real" where
  "mrr retrieved relevant =
     (if card (string_set relevant) = 0 then 0 else first_hit (string_set relevant) (unique_strings retrieved) 0)"

definition discount :: "nat \<Rightarrow> real" where
  "discount index = 1 / log 2 (real (index + 2))"

fun dcg_from :: "'a set \<Rightarrow> 'a list \<Rightarrow> nat \<Rightarrow> real" where
  "dcg_from relevant [] index = 0"
| "dcg_from relevant (i # rest) index =
     (if i \<in> relevant then discount index else 0) + dcg_from relevant rest (index + 1)"

definition ideal_dcg :: "nat \<Rightarrow> real" where
  "ideal_dcg n = sum_list (map discount [0..<n])"

definition ndcg_at_k :: "'a list \<Rightarrow> 'a list \<Rightarrow> int \<Rightarrow> real" where
  "ndcg_at_k retrieved relevant k =
     (let relevant_set = string_set relevant
      in if card relevant_set = 0 \<or> k \<le> 0 then 0
         else (let dcg = dcg_from relevant_set (cut k (unique_strings retrieved)) 0;
                   ideal_count = (if int (card relevant_set) > k then nat k else card relevant_set);
                   idcg = ideal_dcg ideal_count
               in if idcg = 0 then 0 else dcg / idcg))"

definition tool_set_accuracy :: "'a list \<Rightarrow> 'a list \<Rightarrow> real" where
  "tool_set_accuracy actual expected =
     (if card (string_set actual) \<noteq> card (string_set expected) then 0
      else if \<forall>v \<in> string_set actual. v \<in> string_set expected then 1 else 0)"

section \<open>Texts\<close>

record unicode =
  un_han :: "nat \<Rightarrow> bool"
  un_letter :: "nat \<Rightarrow> bool"
  un_digit :: "nat \<Rightarrow> bool"
  un_lower :: "nat \<Rightarrow> nat"

type_synonym rune_text = "nat list"

definition flush_word :: "unicode \<Rightarrow> rune_text \<Rightarrow> rune_text list" where
  "flush_word u word = (if word = [] then [] else [map (un_lower u) word])"

fun tokenize_from :: "unicode \<Rightarrow> rune_text \<Rightarrow> rune_text \<Rightarrow> rune_text list" where
  "tokenize_from u word [] = flush_word u word"
| "tokenize_from u word (r # rs) =
     (if un_han u r then flush_word u word @ [[r]] @ tokenize_from u [] rs
      else if un_letter u r \<or> un_digit u r then tokenize_from u (word @ [un_lower u r]) rs
      else flush_word u word @ tokenize_from u [] rs)"

definition tokenize :: "unicode \<Rightarrow> rune_text \<Rightarrow> rune_text list" where
  "tokenize u s = tokenize_from u [] s"

fun join_runes :: "rune_text list \<Rightarrow> rune_text" where
  "join_runes [] = []"
| "join_runes [w] = w"
| "join_runes (w # ws) = w @ [32] @ join_runes ws"

definition exact_match :: "unicode \<Rightarrow> rune_text \<Rightarrow> rune_text \<Rightarrow> real" where
  "exact_match u answer reference =
     (if join_runes (tokenize u answer) = join_runes (tokenize u reference) then 1 else 0)"

record score =
  sc_precision :: real
  sc_recall :: real
  sc_f1 :: real

definition token_counts :: "'a list \<Rightarrow> 'a \<Rightarrow> nat" where
  "token_counts xs t = count_list xs t"

definition token_overlap :: "'a list \<Rightarrow> 'a list \<Rightarrow> nat" where
  "token_overlap actual expected =
     (\<Sum>t \<in> set actual. if token_counts expected t < token_counts actual t then token_counts expected t
                       else token_counts actual t)"

definition token_f1 :: "unicode \<Rightarrow> rune_text \<Rightarrow> rune_text \<Rightarrow> score" where
  "token_f1 u answer reference =
     (let actual = tokenize u answer; expected = tokenize u reference
      in if actual = [] \<and> expected = [] then \<lparr>sc_precision = 1, sc_recall = 1, sc_f1 = 1\<rparr>
         else if actual = [] \<or> expected = [] then \<lparr>sc_precision = 0, sc_recall = 0, sc_f1 = 0\<rparr>
         else (let overlap = real (token_overlap actual expected);
                   precision = overlap / real (length actual);
                   recall = overlap / real (length expected)
               in \<lparr>sc_precision = precision, sc_recall = recall,
                   sc_f1 = (if precision + recall > 0 then 2 * precision * recall / (precision + recall) else 0)\<rparr>))"

section \<open>Unique lists\<close>

lemma set_unique_from: "set (unique_from seen xs) = set xs - set seen"
  by (induction seen xs rule: unique_from.induct) auto

lemma distinct_unique_from: "distinct (unique_from seen xs)"
  by (induction seen xs rule: unique_from.induct) (auto simp: set_unique_from)

lemma unique_strings_props [simp]: "set (unique_strings xs) = set xs" "distinct (unique_strings xs)"
  by (simp_all add: unique_strings_def set_unique_from distinct_unique_from)

lemma cut_take: "0 < k \<Longrightarrow> cut k xs = take (nat k) xs"
  by (auto simp: cut_def)

lemma length_filter_card:
  assumes "distinct xs"
  shows "length (filter (\<lambda>i. i \<in> A) xs) = card (set xs \<inter> A)"
proof -
  have "distinct (filter (\<lambda>i. i \<in> A) xs)" using assms by simp
  from distinct_card [OF this] show ?thesis by (simp add: Int_def)
qed

section \<open>Discounted gains\<close>

lemma discount_pos: "0 < discount i"
  by (simp add: discount_def)

lemma discount_antimono: "i \<le> j \<Longrightarrow> discount j \<le> discount i"
  unfolding discount_def by (rule divide_left_mono) (auto intro!: mult_pos_pos)

lemma ideal_dcg_Suc [simp]: "ideal_dcg 0 = 0" "ideal_dcg (Suc n) = ideal_dcg n + discount n"
  by (simp_all add: ideal_dcg_def)

lemma ideal_dcg_mono: "m \<le> n \<Longrightarrow> ideal_dcg m \<le> ideal_dcg n"
proof (induction n)
  case (Suc n)
  then show ?case using discount_pos [of n] by (cases "m = Suc n") (auto simp: less_imp_le add_increasing2)
qed simp

lemma ideal_dcg_pos: "0 < n \<Longrightarrow> 0 < ideal_dcg n"
  using ideal_dcg_mono [of 1 n] discount_pos [of 0] by simp

text \<open>Moving hits to the front never loses: the gain of a list with \<open>h\<close> hits after \<open>j\<close> positions of
  which \<open>m\<close> were hits.\<close>

lemma dcg_from_le:
  "m \<le> j \<Longrightarrow> ideal_dcg m + dcg_from R xs j \<le> ideal_dcg (m + length (filter (\<lambda>i. i \<in> R) xs))"
proof (induction xs arbitrary: m j)
  case (Cons x xs)
  show ?case
  proof (cases "x \<in> R")
    case True
    have "ideal_dcg m + discount j \<le> ideal_dcg (Suc m)" using discount_antimono [OF Cons.prems] by simp
    with Cons.IH [of "Suc m" "j + 1"] Cons.prems True show ?thesis by simp
  next
    case False
    with Cons.IH [of m "j + 1"] Cons.prems show ?thesis by simp
  qed
qed simp

lemma dcg_from_nonneg: "0 \<le> dcg_from R xs j"
  by (induction xs arbitrary: j) (auto simp: discount_pos less_imp_le add_nonneg_nonneg)

lemma dcg_from_all: "set xs \<subseteq> R \<Longrightarrow> ideal_dcg j + dcg_from R xs j = ideal_dcg (j + length xs)"
proof (induction xs arbitrary: j)
  case (Cons x xs)
  with Cons.IH [of "Suc j"] show ?case by simp
qed simp

lemma dcg_from_append: "dcg_from R (xs @ ys) j = dcg_from R xs j + dcg_from R ys (j + length xs)"
  by (induction xs arbitrary: j) auto

lemma first_hit_bounds: "0 \<le> first_hit R xs j \<and> first_hit R xs j \<le> 1"
  by (induction xs arbitrary: j) auto

text \<open>The two guarded scores outside and inside their guards.\<close>

lemma ndcg_cases:
  obtains "ndcg_at_k xs R k = 0" and "R = [] \<or> k \<le> 0"
  | "0 < k" and "R \<noteq> []" and "0 < ideal_dcg (min (nat k) (card (set R)))"
    and "ndcg_at_k xs R k =
      dcg_from (set R) (take (nat k) (unique_strings xs)) 0 / ideal_dcg (min (nat k) (card (set R)))"
proof (cases "R = [] \<or> k \<le> 0")
  case True
  then have "ndcg_at_k xs R k = 0" by (auto simp: ndcg_at_k_def string_set_def)
  with True show thesis using that(1) by blast
next
  case False
  have card: "0 < card (set R)" using False by (simp add: card_gt_0_iff)
  then have pos: "0 < ideal_dcg (min (nat k) (card (set R)))" using False by (simp add: ideal_dcg_pos)
  have "(if int (card (set R)) > k then nat k else card (set R)) = min (nat k) (card (set R))" by auto
  then have "ndcg_at_k xs R k =
      dcg_from (set R) (take (nat k) (unique_strings xs)) 0 / ideal_dcg (min (nat k) (card (set R)))"
    using False card pos by (simp add: ndcg_at_k_def string_set_def Let_def cut_take)
  with False pos show thesis using that(2) by force
qed

lemma dcg_top_le:
  assumes "0 < k"
  shows "dcg_from (set R) (take (nat k) (unique_strings xs)) 0 \<le> ideal_dcg (min (nat k) (card (set R)))"
proof -
  let ?top = "take (nat k) (unique_strings xs)"
  have "length (filter (\<lambda>i. i \<in> set R) ?top) \<le> card (set R)"
    by (subst length_filter_card) (auto intro: card_mono)
  moreover have "length (filter (\<lambda>i. i \<in> set R) ?top) \<le> nat k"
    by (rule order_trans [OF length_filter_le]) simp
  ultimately have "ideal_dcg (length (filter (\<lambda>i. i \<in> set R) ?top)) \<le> ideal_dcg (min (nat k) (card (set R)))"
    by (intro ideal_dcg_mono) simp
  with dcg_from_le [of 0 0 "set R" ?top] show ?thesis by simp
qed

lemma recall_eq:
  "0 < k \<Longrightarrow> R \<noteq> [] \<Longrightarrow>
    recall_at_k xs R k = real (card (set (take (nat k) (unique_strings xs)) \<inter> set R)) / real (card (set R))"
  by (simp add: recall_at_k_def string_set_def Let_def cut_take length_filter_card card_gt_0_iff)

lemma recall_guard: "R = [] \<or> k \<le> 0 \<Longrightarrow> recall_at_k xs R k = 0"
  by (auto simp: recall_at_k_def string_set_def)

lemma unique_strings_idem [simp]: "unique_strings (unique_strings xs) = unique_strings xs"
proof -
  have "set seen \<inter> set ys = {} \<Longrightarrow> distinct ys \<Longrightarrow> unique_from seen ys = ys" for seen ys :: "'a list"
    by (induction seen ys rule: unique_from.induct) auto
  from this [of "[]" "unique_strings xs"] show ?thesis by (simp add: unique_strings_def [of "unique_strings xs"])
qed

section \<open>Properties\<close>

text \<open>(C33) The three ranking scores lie between 0 and 1, and repeating an ID never changes them. Recall is the
  share of the relevant IDs among the first \<open>k\<close> distinct results, and the gain is 1 when the relevant IDs
  that fit come first.\<close>

theorem ranking_scores_bounded:
  "0 \<le> recall_at_k xs R k \<and> recall_at_k xs R k \<le> 1 \<and> 0 \<le> mrr xs R \<and> mrr xs R \<le> 1 \<and>
   0 \<le> ndcg_at_k xs R k \<and> ndcg_at_k xs R k \<le> 1 \<and>
   recall_at_k (unique_strings xs) R k = recall_at_k xs R k \<and> mrr (unique_strings xs) R = mrr xs R \<and>
   ndcg_at_k (unique_strings xs) R k = ndcg_at_k xs R k"
proof -
  have recall: "0 \<le> recall_at_k xs R k \<and> recall_at_k xs R k \<le> 1"
  proof (cases "R = [] \<or> k \<le> 0")
    case False
    have "card (set (take (nat k) (unique_strings xs)) \<inter> set R) \<le> card (set R)" by (rule card_mono) auto
    with False show ?thesis by (simp add: recall_eq divide_le_eq_1 card_gt_0_iff)
  qed (simp add: recall_guard)
  have ndcg: "0 \<le> ndcg_at_k xs R k \<and> ndcg_at_k xs R k \<le> 1"
    by (rule ndcg_cases [of xs R k]) (use dcg_top_le [of k R xs] in \<open>auto simp: divide_le_eq_1 intro!: divide_nonneg_nonneg dcg_from_nonneg\<close>)
  show ?thesis
    using recall ndcg first_hit_bounds [of "set R" "unique_strings xs" 0]
    by (simp add: recall_at_k_def ndcg_at_k_def mrr_def string_set_def Let_def)
qed

theorem ideal_ranking_scores_one:
  assumes "0 < k" and "R \<noteq> []" and "unique_strings xs = front @ rest" and "set front \<subseteq> set R"
    and "length front = min (nat k) (card (set R))"
  shows "ndcg_at_k xs R k = 1 \<and> mrr xs R = 1 \<and> (int (card (set R)) \<le> k \<longrightarrow> recall_at_k xs R k = 1)"
proof -
  have df: "distinct front" using unique_strings_props(2) [of xs] assms(3) by simp
  have sub: "nat k > card (set R) \<Longrightarrow> set front = set R"
    using assms(4,5) distinct_card [OF df] by (metis card_subset_eq List.finite_set min.strict_order_iff min.commute)
  have no_more: "dcg_from (set R) (take (nat k - length front) rest) (length front) = 0"
  proof (cases "nat k \<le> card (set R)")
    case False
    then have "set R \<inter> set rest = {}"
      using sub unique_strings_props(2) [of xs] assms(3) by auto
    then have "set R \<inter> set (take n rest) = {}" for n using set_take_subset by fastforce
    moreover have "set R \<inter> set ys = {} \<Longrightarrow> dcg_from (set R) ys j = 0" for ys j
      by (induction ys arbitrary: j) auto
    ultimately show ?thesis by blast
  qed (use assms(5) in simp)
  have "dcg_from (set R) (take (nat k) (unique_strings xs)) 0 = ideal_dcg (min (nat k) (card (set R)))"
    using assms(3,5) no_more dcg_from_all [OF assms(4), of 0] by (simp add: dcg_from_append)
  then have ndcg: "ndcg_at_k xs R k = 1"
    by (cases rule: ndcg_cases [of xs R k]) (use assms(1,2) in auto)
  obtain x front' where "front = x # front'" 
    using assms(1,2,5) card_gt_0_iff [of "set R"] by (cases front) (auto simp: min_def split: if_splits)
  then have "mrr xs R = 1" using assms(2,3,4) by (simp add: mrr_def string_set_def)
  moreover have "recall_at_k xs R k = 1" if "int (card (set R)) \<le> k"
  proof -
    have "set front = set R"
      using that assms(4,5) distinct_card [OF df] by (metis card_subset_eq List.finite_set min.absorb2 nat_int nat_mono)
    then have "set (take (nat k) (unique_strings xs)) \<inter> set R = set R"
      using assms(3,5) that by auto
    with assms(1,2) show ?thesis by (simp add: recall_eq card_gt_0_iff)
  qed
  ultimately show ?thesis using ndcg by simp
qed

theorem ideal_ranking_scores_one_witness:
  "ndcg_at_k [''a'', ''b'', ''a'', ''c''] [''b'', ''a''] 5 = 1 \<and> recall_at_k [''a'', ''b'', ''a'', ''c''] [''b'', ''a''] 5 = 1"
proof -
  have u: "unique_strings [''a'', ''b'', ''a'', ''c''] = [''a'', ''b''] @ [''c'']" by (simp add: unique_strings_def)
  from ideal_ranking_scores_one [OF _ _ u, of 5 "[''b'', ''a'']"] show ?thesis by simp
qed

lemma token_overlap_mset: "token_overlap xs ys = size (mset xs \<inter># mset ys)"
proof -
  have "size (mset xs \<inter># mset ys) = (\<Sum>t \<in> set_mset (mset xs \<inter># mset ys). count (mset xs \<inter># mset ys) t)"
    by (rule size_multiset_overloaded_eq)
  also have "\<dots> = (\<Sum>t \<in> set xs. count (mset xs \<inter># mset ys) t)"
    by (rule sum.mono_neutral_left) (auto simp: not_in_iff)
  also have "\<dots> = token_overlap xs ys"
    unfolding token_overlap_def token_counts_def
    by (rule sum.cong) (auto simp: count_mset count_list_eq_length_filter)
  finally show ?thesis ..
qed

lemma f1_of_shares:
  assumes "0 < (a::real)" and "0 < b" and "0 \<le> c"
  shows "(if c / a + c / b > 0 then 2 * (c / a) * (c / b) / (c / a + c / b) else 0) = 2 * c / (a + b)"
proof (cases "c = 0")
  case False
  then have "0 < c / a + c / b" using assms by (simp add: add_pos_pos)
  moreover have "c / a + c / b = c * (a + b) / (a * b)" using assms by (simp add: field_simps)
  then have "2 * (c / a) * (c / b) / (c / a + c / b) = 2 * c / (a + b)"
    using assms False by simp
  ultimately show ?thesis by simp
qed simp

lemma inter_full:
  assumes "size (A \<inter># B) = size A"
  shows "A \<subseteq># B"
proof -
  have "A \<inter># B \<subseteq># A" by simp
  with assms have "A \<inter># B = A" by (metis mset_subset_size order_less_irrefl subset_mset.le_imp_less_or_eq)
  then show ?thesis by (metis inter_subset_eq_union subset_mset.inf.cobounded2)
qed

text \<open>(C34) Token F1 is the harmonic mean over the multisets of tokens: precision and recall are the size of the
  intersection over the sizes of the two, F1 is twice the intersection over their sum; it is symmetric,
  between 0 and 1, and 1 exactly for texts with the same tokens in any order.\<close>

theorem token_f1_of_multisets:
  "let A = mset (tokenize u a); B = mset (tokenize u b)
   in sc_f1 (token_f1 u a b) = (if A = {#} \<and> B = {#} then 1 else 2 * real (size (A \<inter># B)) / real (size A + size B)) \<and>
      sc_f1 (token_f1 u a b) = sc_f1 (token_f1 u b a) \<and>
      sc_precision (token_f1 u a b) = sc_recall (token_f1 u b a) \<and>
      0 \<le> sc_f1 (token_f1 u a b) \<and> sc_f1 (token_f1 u a b) \<le> 1 \<and>
      (sc_f1 (token_f1 u a b) = 1 \<longleftrightarrow> A = B)"
proof -
  define A where "A = mset (tokenize u a)"
  define B where "B = mset (tokenize u b)"
  have sizes: "length (tokenize u a) = size A" "length (tokenize u b) = size B" by (simp_all add: A_def B_def)
  have empty: "tokenize u a = [] \<longleftrightarrow> A = {#}" "tokenize u b = [] \<longleftrightarrow> B = {#}" by (simp_all add: A_def B_def)
  have ov: "token_overlap (tokenize u a) (tokenize u b) = size (A \<inter># B)"
    "token_overlap (tokenize u b) (tokenize u a) = size (A \<inter># B)"
    by (simp_all add: token_overlap_mset A_def B_def subset_mset.inf.commute)
  have le: "size (A \<inter># B) \<le> size A" "size (A \<inter># B) \<le> size B" by (simp_all add: size_mset_mono)
  have f1: "sc_f1 (token_f1 u a b) = (if A = {#} \<and> B = {#} then 1 else 2 * real (size (A \<inter># B)) / real (size A + size B))"
    using f1_of_shares [of "real (size A)" "real (size B)" "real (size (A \<inter># B))"]
    by (auto simp: token_f1_def Let_def empty sizes ov nonempty_has_size)
  have f1': "sc_f1 (token_f1 u b a) = (if A = {#} \<and> B = {#} then 1 else 2 * real (size (A \<inter># B)) / real (size A + size B))"
    using f1_of_shares [of "real (size B)" "real (size A)" "real (size (A \<inter># B))"]
    by (auto simp: token_f1_def Let_def empty sizes ov nonempty_has_size add.commute)
  have pr: "sc_precision (token_f1 u a b) = sc_recall (token_f1 u b a)"
    by (auto simp: token_f1_def Let_def sizes ov)
  have le1: "sc_f1 (token_f1 u a b) \<le> 1" "0 \<le> sc_f1 (token_f1 u a b)"
    using le by (auto simp: f1 divide_le_eq_1 nonempty_has_size)
  have iff: "sc_f1 (token_f1 u a b) = 1 \<longleftrightarrow> A = B"
  proof (cases "A = {#} \<and> B = {#}")
    case False
    then have pos: "0 < size A + size B" by (auto simp: nonempty_has_size)
    have "sc_f1 (token_f1 u a b) = 1 \<longleftrightarrow> 2 * size (A \<inter># B) = size A + size B"
      using False pos by (auto simp: f1 divide_eq_1_iff)
    also have "\<dots> \<longleftrightarrow> size (A \<inter># B) = size A \<and> size (A \<inter># B) = size B" using le by linarith
    also have "\<dots> \<longleftrightarrow> A = B"
      using inter_full [of A B] inter_full [of B A] by (auto simp: subset_mset.inf.commute intro: subset_mset.antisym)
    finally show ?thesis .
  qed (simp add: f1)
  show ?thesis using f1 f1' pr le1 iff unfolding A_def [symmetric] B_def [symmetric] Let_def by simp
qed

text \<open>A witness alphabet: ASCII letters and digits, one Han character.\<close>

definition small_unicode :: unicode where
  "small_unicode =
     \<lparr>un_han = (\<lambda>r. r = 20320), un_letter = (\<lambda>r. 65 \<le> r \<and> r \<le> 90 \<or> 97 \<le> r \<and> r \<le> 122),
      un_digit = (\<lambda>r. 48 \<le> r \<and> r \<le> 57), un_lower = (\<lambda>r. if 65 \<le> r \<and> r \<le> 90 then r + 32 else r)\<rparr>"

text \<open>What \<open>unicode\<close> documents of its tables: a space is in none of the classes, and lower case is in the
  classes again.\<close>

definition unicode_ok :: "unicode \<Rightarrow> bool" where
  "unicode_ok u \<longleftrightarrow> \<not> un_han u 32 \<and> \<not> un_letter u 32 \<and> \<not> un_digit u 32 \<and>
     (\<forall>r. un_letter u r \<or> un_digit u r \<longrightarrow> un_letter u (un_lower u r) \<or> un_digit u (un_lower u r))"

lemma small_unicode_ok: "unicode_ok small_unicode"
  by (auto simp: unicode_ok_def small_unicode_def)

definition token_ok :: "rune_text \<Rightarrow> bool" where
  "token_ok t \<longleftrightarrow> t \<noteq> [] \<and> 32 \<notin> set t"

lemma tokenize_from_ok:
  assumes "unicode_ok u" and "\<forall>r \<in> set word. un_letter u r \<or> un_digit u r"
  shows "\<forall>t \<in> set (tokenize_from u word rs). token_ok t"
  using assms(2)
proof (induction rs arbitrary: word)
  case Nil
  then show ?case using assms(1) by (auto simp: flush_word_def token_ok_def unicode_ok_def)
next
  case (Cons r rs)
  have flush: "\<forall>t \<in> set (flush_word u word). token_ok t"
    using Cons.prems assms(1) by (auto simp: flush_word_def token_ok_def unicode_ok_def)
  have "token_ok [r]" if "un_han u r" using that assms(1) by (auto simp: token_ok_def unicode_ok_def)
  moreover have "\<forall>t \<in> set (tokenize_from u [] rs). token_ok t" by (rule Cons.IH) simp
  moreover have "\<forall>t \<in> set (tokenize_from u (word @ [un_lower u r]) rs). token_ok t" if "un_letter u r \<or> un_digit u r"
    by (rule Cons.IH) (use Cons.prems assms(1) that in \<open>auto simp: unicode_ok_def\<close>)
  ultimately show ?case using flush by auto
qed

lemma sep_inject:
  assumes "(32::nat) \<notin> set a" and "32 \<notin> set b" and "a @ 32 # x = b @ 32 # y"
  shows "a = b \<and> x = y"
  using assms
proof (induction a arbitrary: b)
  case Nil
  then show ?case by (cases b) auto
next
  case (Cons c a)
  then show ?case by (cases b) auto
qed

lemma join_runes_Cons: "join_runes (w # ws) = (if ws = [] then w else w @ 32 # join_runes ws)"
  by (cases ws) auto

lemma join_runes_inject:
  assumes "\<forall>t \<in> set xs. token_ok t" and "\<forall>t \<in> set ys. token_ok t" and "join_runes xs = join_runes ys"
  shows "xs = ys"
  using assms
proof (induction xs arbitrary: ys)
  case Nil
  then show ?case by (cases ys) (auto simp: join_runes_Cons token_ok_def split: if_splits)
next
  case (Cons w ws)
  obtain v vs where ys: "ys = v # vs"
    using Cons.prems by (cases ys) (auto simp: join_runes_Cons token_ok_def split: if_splits)
  have w: "32 \<notin> set w" "32 \<notin> set v" using Cons.prems ys by (auto simp: token_ok_def)
  show ?case
  proof (cases "ws = [] \<or> vs = []")
    case True
    have "32 \<in> set (join_runes (w # ws)) \<longleftrightarrow> ws \<noteq> []" "32 \<in> set (join_runes (v # vs)) \<longleftrightarrow> vs \<noteq> []"
      using w by (auto simp: join_runes_Cons)
    with True Cons.prems(3) ys show ?thesis by (auto simp: join_runes_Cons split: if_splits)
  next
    case False
    then have "w @ 32 # join_runes ws = v @ 32 # join_runes vs"
      using Cons.prems(3) ys by (simp add: join_runes_Cons)
    from sep_inject [OF w this] Cons.IH [of vs] Cons.prems(1,2) ys show ?thesis by simp
  qed
qed

theorem exact_match_compares_tokens:
  assumes "unicode_ok u"
  shows "exact_match u a b = (if tokenize u a = tokenize u b then 1 else 0) \<and>
    (exact_match u a b = 1 \<longrightarrow> sc_f1 (token_f1 u a b) = 1) \<and>
    (tool_set_accuracy xs ys = (if set xs = set ys then 1 else 0))"
proof -
  have ok: "\<forall>t \<in> set (tokenize u s). token_ok t" for s
    unfolding tokenize_def by (rule tokenize_from_ok [OF assms]) simp
  have em: "exact_match u a b = (if tokenize u a = tokenize u b then 1 else 0)"
    using join_runes_inject [OF ok ok] by (auto simp: exact_match_def)
  have "sc_f1 (token_f1 u a b) = 1" if "tokenize u a = tokenize u b"
    using that by (auto simp: token_f1_def Let_def token_overlap_mset nonempty_has_size)
  moreover have "tool_set_accuracy xs ys = (if set xs = set ys then 1 else 0)"
    by (auto simp: tool_set_accuracy_def string_set_def subset_iff [symmetric] dest: card_subset_eq [rotated 2])
  ultimately show ?thesis using em by auto
qed

theorem exact_match_compares_tokens_witness:
  "exact_match small_unicode [67, 80, 85, 32, 20320] [99, 112, 117, 44, 20320] = 1"
proof -
  have t: "tokenize small_unicode [67, 80, 85, 32, 20320] = tokenize small_unicode [99, 112, 117, 44, 20320]"
    by (simp add: tokenize_def flush_word_def small_unicode_def)
  from exact_match_compares_tokens [OF small_unicode_ok, of "[67, 80, 85, 32, 20320]" "[99, 112, 117, 44, 20320]"
      "[] :: nat list" "[]"] t show ?thesis by simp
qed

end
