(* ===== verification/Retriever.thy ===== *)
theory Retriever
  imports Session_Types Complex_Main
begin

text \<open>
  The knowledge retriever of internal/ai/retriever/retriever.go: its configuration, the tenant filter,
  the search of the vector store, the threshold and the documents in the order of the hits. The vector
  store, the embedder, \<open>strconv.ParseFloat\<close>, the JSON parser and the Unicode tables behind
  \<open>strconv.Quote\<close> are parameters. A float is its rational value; \<open>document\<close> pointers are kept as
  positions in the list of fetched documents, because a hit that occurs twice annotates one document twice.
\<close>

section \<open>Configuration\<close>

record retriever_config =
  rc_top_k :: int
  rc_threshold :: "rat option"

definition load_retriever_config ::
  "(string \<Rightarrow> int option) \<Rightarrow> (string \<Rightarrow> rat option) \<Rightarrow> string option \<Rightarrow> string option \<Rightarrow> retriever_config" where
  "load_retriever_config atoi parse_float top_k threshold =
     \<lparr>rc_top_k = (case top_k of None \<Rightarrow> 5 | Some v \<Rightarrow>
        (case atoi v of None \<Rightarrow> 5 | Some n \<Rightarrow> if 0 < n then n else 5)),
      rc_threshold = (case threshold of None \<Rightarrow> None | Some v \<Rightarrow>
        (case parse_float v of None \<Rightarrow> None | Some x \<Rightarrow> if 0 < x then Some x else None))\<rparr>"

section \<open>The tenant filter\<close>

text \<open>
  \<open>strconv.Quote\<close>: \<open>high\<close> says, for a string that begins with a byte of at least 128, what the rune at
  its head is written as and how many further bytes it covers.
\<close>

definition escape_ascii :: "char \<Rightarrow> string" where
  "escape_ascii c =
     (if c = CHR 0x22 \<or> c = CHR 0x5C then [CHR 0x5C, c]
      else if c = CHR 0x07 then [CHR 0x5C, CHR ''a'']
      else if c = CHR 0x08 then [CHR 0x5C, CHR ''b'']
      else if c = CHR 0x0C then [CHR 0x5C, CHR ''f'']
      else if c = CHR 0x0A then [CHR 0x5C, CHR ''n'']
      else if c = CHR 0x0D then [CHR 0x5C, CHR ''r'']
      else if c = CHR 0x09 then [CHR 0x5C, CHR ''t'']
      else if c = CHR 0x0B then [CHR 0x5C, CHR ''v'']
      else if of_char c < (32::nat) \<or> c = CHR 0x7F
           then [CHR 0x5C, CHR ''x'', hex_digit (of_char c div 16), hex_digit (of_char c mod 16)]
      else [c])"

function quote_body :: "(string \<Rightarrow> string \<times> nat) \<Rightarrow> string \<Rightarrow> string" where
  "quote_body high [] = []"
| "quote_body high (c # cs) =
     (if of_char c < (128::nat) then escape_ascii c @ quote_body high cs
      else fst (high (c # cs)) @ quote_body high (drop (snd (high (c # cs))) cs))"
  by pat_completeness auto
termination
  by (relation "measure (\<lambda>(_, s). length s)") auto

definition go_quote :: "(string \<Rightarrow> string \<times> nat) \<Rightarrow> string \<Rightarrow> string" where
  "go_quote high s = CHR 0x22 # quote_body high s @ [CHR 0x22]"

definition tenant_filter_expression :: "(string \<Rightarrow> string \<times> nat) \<Rightarrow> ctx \<Rightarrow> string result" where
  "tenant_filter_expression high c =
     (case principal_from_context c of
        None \<Rightarrow> Inl ErrTenantScopeRequired
      | Some p \<Rightarrow>
          if p_tenant_id p = [] then Inl ErrTenantScopeRequired
          else Inr (''metadata['' @ [CHR 0x22] @ ''tenant_id'' @ [CHR 0x22] @ ''] == '' @ go_quote high (p_tenant_id p)))"

section \<open>Hits\<close>

record search_hit =
  sh_id :: string
  sh_distance :: rat
  sh_rank :: nat

text \<open>One result of a search: an error, the IDs (nil or a column whose cells may fail) and the scores.\<close>

record search_result =
  rs_err :: "go_error option"
  rs_ids :: "string result list option"
  rs_scores :: "rat list"

fun result_hits :: "search_hit list \<Rightarrow> (string result \<times> rat) list \<Rightarrow> search_hit list result" where
  "result_hits hits [] = Inr hits"
| "result_hits hits ((Inl e, _) # cells) = Inl (ErrWrap ''read search id: '' e)"
| "result_hits hits ((Inr i, score) # cells) =
     result_hits (if i = [] then hits
       else hits @ [\<lparr>sh_id = i, sh_distance = score, sh_rank = length hits + 1\<rparr>]) cells"

fun search_hits_from :: "search_hit list \<Rightarrow> search_result list \<Rightarrow> search_hit list result" where
  "search_hits_from hits [] = Inr hits"
| "search_hits_from hits (r # rs) =
     (case rs_err r of
        Some e \<Rightarrow> Inl (ErrWrap ''search result: '' e)
      | None \<Rightarrow>
          (case rs_ids r of
             None \<Rightarrow> search_hits_from hits rs
           | Some ids \<Rightarrow>
               if length (rs_scores r) \<noteq> length ids then Inl (ErrText ''search result score count mismatch'')
               else case result_hits hits (zip ids (rs_scores r)) of
                      Inl e \<Rightarrow> Inl e
                    | Inr hits' \<Rightarrow> search_hits_from hits' rs))"

definition search_hits :: "search_result list \<Rightarrow> search_hit list result" where
  "search_hits rs = search_hits_from [] rs"

definition value_or_zero :: "rat option \<Rightarrow> rat" where
  "value_or_zero v = (case v of None \<Rightarrow> 0 | Some x \<Rightarrow> x)"

definition filter_hits :: "search_hit list \<Rightarrow> rat \<Rightarrow> search_hit list" where
  "filter_hits hits threshold =
     (if threshold \<le> 0 then hits else filter (\<lambda>h. sh_distance h \<le> threshold) hits)"

section \<open>Documents\<close>

text \<open>A metadata value: one of the stored JSON, or one of the three that the retriever writes.\<close>

datatype 'j meta_value = JsonValue 'j | MetaFloat rat | MetaInt int | MetaString string

type_synonym 'j metadata = "string \<rightharpoonup> 'j meta_value"

record 'j document =
  doc_id :: string
  doc_content :: string
  doc_meta :: "'j metadata option"

record column =
  col_name :: string
  col_cells :: "string result list"

text \<open>\<open>unmarshal\<close> decodes a JSON text into a metadata map that may be there already.\<close>

definition set_cell ::
  "(string \<Rightarrow> 'j metadata option \<Rightarrow> 'j metadata option result) \<Rightarrow> string \<Rightarrow> string \<Rightarrow> 'j document \<Rightarrow> 'j document result" where
  "set_cell unmarshal name v d =
     (if name = ''id'' then Inr (d\<lparr>doc_id := v\<rparr>)
      else if name = ''content'' then Inr (d\<lparr>doc_content := v\<rparr>)
      else if name = ''metadata'' then
        (if v = [] then Inr d
         else case unmarshal v (doc_meta d) of
                Inl e \<Rightarrow> Inl (ErrWrap ''parse metadata: '' e)
              | Inr m \<Rightarrow> Inr (d\<lparr>doc_meta := m\<rparr>))
      else Inr d)"

fun set_cells ::
  "(string \<Rightarrow> 'j metadata option \<Rightarrow> 'j metadata option result) \<Rightarrow> string \<Rightarrow> string result list \<Rightarrow> 'j document list \<Rightarrow> 'j document list result" where
  "set_cells unmarshal name (Inr v # cells) (d # ds) =
     (case set_cell unmarshal name v d of
        Inl e \<Rightarrow> Inl e
      | Inr d' \<Rightarrow> (case set_cells unmarshal name cells ds of Inl e \<Rightarrow> Inl e | Inr ds' \<Rightarrow> Inr (d' # ds')))"
| "set_cells unmarshal name (Inl e # cells) ds = Inl (ErrWrap (''read column '' @ name) e)"
| "set_cells unmarshal name [] ds = Inr ds"
| "set_cells unmarshal name cells [] = Inr []"

fun fill_columns ::
  "(string \<Rightarrow> 'j metadata option \<Rightarrow> 'j metadata option result) \<Rightarrow> column list \<Rightarrow> 'j document list \<Rightarrow> 'j document list result" where
  "fill_columns unmarshal [] ds = Inr ds"
| "fill_columns unmarshal (col # cols) ds =
     (if length (col_cells col) \<noteq> length ds
      then Inl (ErrText (''column '' @ col_name col @ '' length mismatch''))
      else case set_cells unmarshal (col_name col) (col_cells col) ds of
             Inl e \<Rightarrow> Inl e
           | Inr ds' \<Rightarrow> fill_columns unmarshal cols ds')"

definition columns_to_documents ::
  "(string \<Rightarrow> 'j metadata option \<Rightarrow> 'j metadata option result) \<Rightarrow> column list \<Rightarrow> 'j document list result" where
  "columns_to_documents unmarshal cols =
     (case cols of
        [] \<Rightarrow> Inr []
      | col # _ \<Rightarrow> fill_columns unmarshal cols
          (replicate (length (col_cells col)) \<lparr>doc_id = [], doc_content = [], doc_meta = Some Map.empty\<rparr>))"

text \<open>\<open>byID\<close>: the position of the last document with an ID.\<close>

fun position_of :: "string \<Rightarrow> 'j document list \<Rightarrow> nat option" where
  "position_of i [] = None"
| "position_of i (d # ds) =
     (case position_of i ds of Some n \<Rightarrow> Some (Suc n) | None \<Rightarrow> if doc_id d = i then Some 0 else None)"

definition annotate :: "string \<Rightarrow> search_hit \<Rightarrow> 'j document \<Rightarrow> 'j document" where
  "annotate collection h d =
     d\<lparr>doc_meta := Some ((case doc_meta d of None \<Rightarrow> Map.empty | Some m \<Rightarrow> m)
        (''_retrieval_distance'' \<mapsto> MetaFloat (sh_distance h), ''_retrieval_rank'' \<mapsto> MetaInt (int (sh_rank h)),
         ''_retrieval_collection'' \<mapsto> MetaString collection))\<rparr>"

text \<open>The loop: the documents on the heap and the pointers in the order of the hits.\<close>

fun order_hits :: "string \<Rightarrow> search_hit list \<Rightarrow> 'j document list \<Rightarrow> nat list \<Rightarrow> ('j document list \<times> nat list) result" where
  "order_hits collection [] heap ptrs = Inr (heap, ptrs)"
| "order_hits collection (h # hs) heap ptrs =
     (case position_of (sh_id h) heap of
        None \<Rightarrow> Inl (ErrText (''document '' @ sh_id h @ '' missing from Milvus get result''))
      | Some n \<Rightarrow> order_hits collection hs (heap[n := annotate collection h (heap ! n)]) (ptrs @ [n]))"

definition documents_for_hits ::
  "(string \<Rightarrow> 'j metadata option \<Rightarrow> 'j metadata option result) \<Rightarrow> column list \<Rightarrow> search_hit list \<Rightarrow> string \<Rightarrow> 'j document list result" where
  "documents_for_hits unmarshal cols hits collection =
     (case columns_to_documents unmarshal cols of
        Inl e \<Rightarrow> Inl e
      | Inr ds \<Rightarrow>
          (case order_hits collection hits ds [] of
             Inl e \<Rightarrow> Inl e
           | Inr (heap, ptrs) \<Rightarrow> Inr (map (\<lambda>n. heap ! n) ptrs)))"

section \<open>Vectors\<close>

text \<open>\<open>bits\<close> is \<open>math.Float32bits\<close> of the float rounded to 32 bits.\<close>

definition float_bytes :: "32 word \<Rightarrow> 8 word list" where
  "float_bytes b = [ucast b, ucast (drop_bit 8 b), ucast (drop_bit 16 b), ucast (drop_bit 24 b)]"

definition vector_to_bytes :: "('f \<Rightarrow> 32 word) \<Rightarrow> 'f list \<Rightarrow> 8 word list" where
  "vector_to_bytes bits vs = concat (map (\<lambda>v. float_bytes (bits v)) vs)"

section \<open>Retrieve\<close>

record search_request =
  sq_collection :: string
  sq_filter :: string
  sq_vector :: "8 word list"
  sq_top_k :: int

record 'w milvus =
  mv_search :: "search_request \<Rightarrow> ('w, search_result list) op"
  mv_get :: "string list \<Rightarrow> ('w, column list) op"

type_synonym ('w, 'f) embed = "string list \<Rightarrow> ('w, 'f list list) op"

record ('w, 'f) milvus_retriever =
  mr_client :: "'w milvus"
  mr_embedder :: "('w, 'f) embed option"
  mr_top_k :: int
  mr_threshold :: "rat option"

text \<open>\<open>NewMilvusRetriever\<close>: the retriever or the error, and whether an opened client was left open.\<close>

definition new_milvus_retriever ::
  "'w milvus result \<Rightarrow> ('w, 'f) embed result \<Rightarrow> retriever_config \<Rightarrow> bool \<times> ('w, 'f) milvus_retriever result" where
  "new_milvus_retriever client embedder cfg =
     (case client of
        Inl e \<Rightarrow> (False, Inl e)
      | Inr cli \<Rightarrow>
          (case embedder of
             Inl e \<Rightarrow> (False, Inl e)
           | Inr eb \<Rightarrow> (True, Inr \<lparr>mr_client = cli, mr_embedder = Some eb, mr_top_k = rc_top_k cfg,
                                  mr_threshold = rc_threshold cfg\<rparr>)))"

text \<open>
  What the retriever needs of the library and the standard library: the options of the call merged over
  its own, the constructor of the search parameters, the quoting, the float bits and the JSON parser.
\<close>

record ('w, 'f, 'j) retrieve_env =
  re_top_k :: "int option"
  re_embedder :: "('w, 'f) embed option"
  re_search_param :: "unit result"
  re_high :: "string \<Rightarrow> string \<times> nat"
  re_bits :: "'f \<Rightarrow> 32 word"
  re_unmarshal :: "string \<Rightarrow> 'j metadata option \<Rightarrow> 'j metadata option result"

definition collection_name :: string where
  "collection_name = ''biz''"

definition fetch_documents ::
  "('w, 'f, 'j) retrieve_env \<Rightarrow> ('w, 'f) milvus_retriever \<Rightarrow> search_hit list \<Rightarrow> ('w, 'j document list) op" where
  "fetch_documents env r hits w =
     (if hits = [] then (w, Inr [])
      else case mv_get (mr_client r) (map sh_id hits) w of
             (w', Inl e) \<Rightarrow> (w', Inl (ErrWrap ''query milvus documents: '' e))
           | (w', Inr cols) \<Rightarrow> (w', documents_for_hits (re_unmarshal env) cols hits collection_name))"

definition retrieve ::
  "('w, 'f, 'j) retrieve_env \<Rightarrow> ('w, 'f) milvus_retriever \<Rightarrow> ctx \<Rightarrow> string \<Rightarrow> ('w, 'j document list) op" where
  "retrieve env r c query w =
     (case tenant_filter_expression (re_high env) c of Inl e \<Rightarrow> (w, Inl e) | Inr filter_expr \<Rightarrow>
      (let top_k = (case re_top_k env of Some k \<Rightarrow> k | None \<Rightarrow> mr_top_k r);
           embedder = (case re_embedder env of Some given \<Rightarrow> Some given | None \<Rightarrow> mr_embedder r)
       in case embedder of None \<Rightarrow> (w, Inl (ErrText ''embedding not provided'')) | Some eb \<Rightarrow>
          (case eb [query] w of
             (w1, Inl e) \<Rightarrow> (w1, Inl (ErrWrap ''embed query: '' e))
           | (w1, Inr vectors) \<Rightarrow>
               if length vectors \<noteq> 1 then (w1, Inl (ErrText ''invalid embedding result length''))
               else case re_search_param env of Inl e \<Rightarrow> (w1, Inl e) | Inr _ \<Rightarrow>
                 (case mv_search (mr_client r)
                     \<lparr>sq_collection = collection_name, sq_filter = filter_expr,
                      sq_vector = vector_to_bytes (re_bits env) (hd vectors), sq_top_k = top_k\<rparr> w1 of
                    (w2, Inl e) \<Rightarrow> (w2, Inl (ErrWrap ''search milvus: '' e))
                  | (w2, Inr results) \<Rightarrow>
                      (case search_hits results of
                         Inl e \<Rightarrow> (w2, Inl e)
                       | Inr hits \<Rightarrow> fetch_documents env r (filter_hits hits (value_or_zero (mr_threshold r))) w2)))))"

section \<open>Quoting cannot be escaped\<close>

text \<open>A reader of quoted text: one character at a time, up to the closing quote.\<close>

definition plain_escape :: "char \<Rightarrow> char option" where
  "plain_escape c =
     (if c = CHR 0x22 \<or> c = CHR 0x5C then Some c
      else if c = CHR ''a'' then Some (CHR 0x07) else if c = CHR ''b'' then Some (CHR 0x08)
      else if c = CHR ''f'' then Some (CHR 0x0C) else if c = CHR ''n'' then Some (CHR 0x0A)
      else if c = CHR ''r'' then Some (CHR 0x0D) else if c = CHR ''t'' then Some (CHR 0x09)
      else if c = CHR ''v'' then Some (CHR 0x0B) else None)"

fun read_char :: "string \<Rightarrow> (char \<times> string) option" where
  "read_char [] = None"
| "read_char (c # s) =
     (if c \<noteq> CHR 0x5C then Some (c, s)
      else case s of
             [] \<Rightarrow> None
           | d # s' \<Rightarrow>
               if d = CHR ''x''
               then (case s' of h # l # s'' \<Rightarrow> Some (char_of (16 * hex_value h + hex_value l), s'') | _ \<Rightarrow> None)
               else map_option (\<lambda>v. (v, s')) (plain_escape d))"

lemma read_char_append: "read_char s = Some (c, r) \<Longrightarrow> read_char (s @ t) = Some (c, r @ t)"
  by (cases s) (auto split: if_splits list.splits)

lemma read_char_shorter: "read_char s = Some (c, r) \<Longrightarrow> length r < length s"
  by (cases s) (auto split: if_splits list.splits)

function read_quoted :: "string \<Rightarrow> (string \<times> string) option" where
  "read_quoted s =
     (case s of
        [] \<Rightarrow> None
      | c # cs \<Rightarrow>
          if c = CHR 0x22 then Some ([], cs)
          else case read_char s of
                 None \<Rightarrow> None
               | Some (v, rest) \<Rightarrow> map_option (\<lambda>(vs, tail). (v # vs, tail)) (read_quoted rest))"
  by pat_completeness auto
termination
  by (relation "measure length") (auto dest: read_char_shorter simp del: read_char.simps)

declare read_quoted.simps [simp del]

definition ascii :: "string \<Rightarrow> bool" where
  "ascii s \<longleftrightarrow> (\<forall>c \<in> set s. of_char c < (128::nat))"

lemma read_escape:
  assumes "of_char c < (128::nat)"
  shows "read_char (escape_ascii c) = Some (c, [])" "escape_ascii c \<noteq> []" "hd (escape_ascii c) \<noteq> CHR 0x22"
proof -
  have hex: "char_of (16 * hex_value (hex_digit (of_char c div 16)) + hex_value (hex_digit (of_char c mod 16))) = c"
    using assms by (simp add: hex_value_digit char_of_char)
  show "read_char (escape_ascii c) = Some (c, [])"
    unfolding escape_ascii_def by (simp add: plain_escape_def hex)
  show "escape_ascii c \<noteq> []" "hd (escape_ascii c) \<noteq> CHR 0x22"
    by (simp_all add: escape_ascii_def)
qed

lemma read_quote_body:
  "ascii s \<Longrightarrow> read_quoted (quote_body high s @ CHR 0x22 # rest) = Some (s, rest)"
proof (induction s)
  case Nil
  show ?case by (simp add: read_quoted.simps)
next
  case (Cons c s)
  then have c: "of_char c < (128::nat)" and s: "ascii s" by (auto simp: ascii_def)
  let ?t = "quote_body high s @ CHR 0x22 # rest"
  have rd: "read_char (escape_ascii c @ ?t) = Some (c, ?t)"
    using read_char_append [OF read_escape(1) [OF c]] by (simp only: append_Nil)
  obtain x xs where x: "escape_ascii c = x # xs" "x \<noteq> CHR 0x22"
    using read_escape(2,3) [OF c] by (cases "escape_ascii c") auto
  have "read_quoted (escape_ascii c @ ?t) = map_option (\<lambda>(vs, tail). (c # vs, tail)) (read_quoted ?t)"
    unfolding read_quoted.simps [of "escape_ascii c @ ?t"] using x rd by simp
  with Cons.IH [OF s] c show ?case by simp
qed

section \<open>Hits\<close>

definition ranked :: "search_hit list \<Rightarrow> bool" where
  "ranked hits \<longleftrightarrow> map sh_rank hits = [1..<Suc (length hits)] \<and> (\<forall>h \<in> set hits. sh_id h \<noteq> [])"

lemma ranked_Nil [simp]: "ranked []"
  by (simp add: ranked_def)

lemma ranked_snoc:
  "ranked hits \<Longrightarrow> i \<noteq> [] \<Longrightarrow> ranked (hits @ [\<lparr>sh_id = i, sh_distance = d, sh_rank = Suc (length hits)\<rparr>])"
  by (auto simp: ranked_def)

lemma result_hits_ranked: "result_hits hits cells = Inr hits' \<Longrightarrow> ranked hits \<Longrightarrow> ranked hits'"
  by (induction hits cells rule: result_hits.induct) (auto intro: ranked_snoc split: if_splits)

lemma search_hits_from_ranked: "search_hits_from hits rs = Inr hits' \<Longrightarrow> ranked hits \<Longrightarrow> ranked hits'"
  by (induction hits rs rule: search_hits_from.induct)
    (auto split: option.splits if_splits sum.splits dest: result_hits_ranked)

section \<open>Documents\<close>

lemma position_of_ids: "map doc_id ds = map doc_id ds' \<Longrightarrow> position_of i ds = position_of i ds'"
proof (induction ds arbitrary: ds')
  case (Cons d ds)
  then show ?case by (cases ds') auto
qed simp

lemma position_of_Some: "position_of i ds = Some n \<Longrightarrow> n < length ds \<and> doc_id (ds ! n) = i"
  by (induction ds arbitrary: n) (auto split: option.splits if_splits)

lemma annotate_id [simp]: "doc_id (annotate collection h d) = doc_id d"
  "doc_content (annotate collection h d) = doc_content d"
  by (simp_all add: annotate_def)

text \<open>The last hit with an ID leaves its mark.\<close>

definition last_hit :: "string \<Rightarrow> search_hit list \<Rightarrow> search_hit option" where
  "last_hit i hits = (case rev (filter (\<lambda>h. sh_id h = i) hits) of [] \<Rightarrow> None | h # _ \<Rightarrow> Some h)"

lemma last_hit_Cons:
  "last_hit i (h # hs) = (case last_hit i hs of Some h' \<Rightarrow> Some h' | None \<Rightarrow> if sh_id h = i then Some h else None)"
  by (auto simp: last_hit_def split: list.splits)

lemma last_hit_in:
  assumes "last_hit i hits = Some h"
  shows "h \<in> set hits \<and> sh_id h = i"
proof -
  obtain xs where "rev (filter (\<lambda>h. sh_id h = i) hits) = h # xs"
    using assms by (auto simp: last_hit_def split: list.splits)
  then have "h \<in> set (rev (filter (\<lambda>h. sh_id h = i) hits))" by (metis list.set_intros(1))
  then show ?thesis by simp
qed

definition marked :: "string \<Rightarrow> search_hit \<Rightarrow> 'j document \<Rightarrow> 'j document \<Rightarrow> bool" where
  "marked collection h d d' \<longleftrightarrow> doc_id d' = doc_id d \<and> doc_content d' = doc_content d \<and>
     (\<exists>m. doc_meta d' = Some m \<and> m ''_retrieval_distance'' = Some (MetaFloat (sh_distance h)) \<and>
        m ''_retrieval_rank'' = Some (MetaInt (int (sh_rank h))) \<and>
        m ''_retrieval_collection'' = Some (MetaString collection))"

lemma marked_annotate: "marked collection h d (annotate collection h d)"
  by (auto simp: marked_def annotate_def)

lemma order_hits_effect:
  assumes "order_hits collection hits heap ptrs = Inr (heap', ptrs')"
  shows "map doc_id heap' = map doc_id heap \<and>
    (\<exists>ns. ptrs' = ptrs @ ns \<and> map Some ns = map (\<lambda>h. position_of (sh_id h) heap) hits) \<and>
    (\<forall>i n. position_of i heap = Some n \<longrightarrow>
       (case last_hit i hits of None \<Rightarrow> heap' ! n = heap ! n | Some h \<Rightarrow> marked collection h (heap ! n) (heap' ! n)))"
  using assms
proof (induction collection hits heap ptrs rule: order_hits.induct)
  case (1 collection heap ptrs)
  then show ?case by (auto simp: last_hit_def)
next
  case (2 collection h hs heap ptrs)
  then obtain n where n: "position_of (sh_id h) heap = Some n" by (auto split: option.splits)
  let ?heap = "heap[n := annotate collection h (heap ! n)]"
  have ids: "map doc_id ?heap = map doc_id heap"
    using position_of_Some [OF n] by (metis annotate_id(1) list_update_id map_update nth_map)
  have run: "order_hits collection hs ?heap (ptrs @ [n]) = Inr (heap', ptrs')" using 2(2) n by simp
  note IH = "2.IH" [OF n run]
  note pos = position_of_ids [OF ids]
  have marks: "case last_hit i (h # hs) of None \<Rightarrow> heap' ! n' = heap ! n' | Some h' \<Rightarrow> marked collection h' (heap ! n') (heap' ! n')"
    if p: "position_of i heap = Some n'" for i n'
  proof -
    from IH p pos have step: "case last_hit i hs of None \<Rightarrow> heap' ! n' = ?heap ! n'
        | Some h' \<Rightarrow> marked collection h' (?heap ! n') (heap' ! n')" by (metis (no_types, lifting))
    have same: "doc_id (?heap ! n') = doc_id (heap ! n') \<and> doc_content (?heap ! n') = doc_content (heap ! n')"
      using position_of_Some [OF n] by (cases "n' = n") auto
    have "n' = n \<longleftrightarrow> i = sh_id h" using p n position_of_Some by (metis option.inject)
    with step same position_of_Some [OF n] show ?thesis
      by (auto simp: last_hit_Cons marked_def annotate_def split: option.splits)
  qed
  obtain ns where "ptrs' = (ptrs @ [n]) @ ns" "map Some ns = map (\<lambda>h. position_of (sh_id h) ?heap) hs"
    using IH by blast
  then have "ptrs' = ptrs @ (n # ns) \<and> map Some (n # ns) = map (\<lambda>h. position_of (sh_id h) heap) (h # hs)"
    using n pos by simp
  with IH ids marks show ?case by (metis (no_types, lifting))
qed

text \<open>\<open>vectorToBytes\<close> read back, four bytes at a time.\<close>

fun bytes_to_bits :: "8 word list \<Rightarrow> 32 word list" where
  "bytes_to_bits (a # b # c # d # bs) =
     (or (or (ucast a) (push_bit 8 (ucast b))) (or (push_bit 16 (ucast c)) (push_bit 24 (ucast d)))) # bytes_to_bits bs"
| "bytes_to_bits _ = []"

lemma float_bytes_read: "bytes_to_bits (float_bytes b @ bs) = b # bytes_to_bits bs"
proof -
  have "or (or (ucast (ucast b :: 8 word)) (push_bit 8 (ucast (ucast (drop_bit 8 b) :: 8 word))))
      (or (push_bit 16 (ucast (ucast (drop_bit 16 b) :: 8 word))) (push_bit 24 (ucast (ucast (drop_bit 24 b) :: 8 word)))) = b"
  proof (rule bit_word_eqI)
    fix n assume "n < LENGTH(32)"
    then show "bit (or (or (ucast (ucast b :: 8 word)) (push_bit 8 (ucast (ucast (drop_bit 8 b) :: 8 word))))
        (or (push_bit 16 (ucast (ucast (drop_bit 16 b) :: 8 word))) (push_bit 24 (ucast (ucast (drop_bit 24 b) :: 8 word)))) :: 32 word) n
      \<longleftrightarrow> bit b n"
      by (cases "n < 8"; cases "n < 16"; cases "n < 24")
        (auto simp: bit_or_iff bit_push_bit_iff bit_ucast_iff bit_drop_bit_eq)
  qed
  then show ?thesis by (simp add: float_bytes_def)
qed

section \<open>Properties\<close>




text \<open>The hits are ranked 1, 2, 3 and so on in the order of the search; what the threshold keeps is in that
  order, and none of it is farther than a positive threshold.\<close>

theorem hits_ranked_and_near:
  assumes "search_hits rs = Inr hits"
  shows "map sh_rank hits = [1..<Suc (length hits)] \<and> (\<forall>h \<in> set hits. sh_id h \<noteq> []) \<and>
    sorted (map sh_rank (filter_hits hits t)) \<and> set (filter_hits hits t) \<subseteq> set hits \<and>
    (0 < t \<longrightarrow> (\<forall>h \<in> set hits. h \<in> set (filter_hits hits t) \<longleftrightarrow> sh_distance h \<le> t))"
proof -
  have r: "ranked hits" using search_hits_from_ranked [of "[]" rs hits] assms by (simp add: search_hits_def)
  then have "sorted (map sh_rank hits)" unfolding ranked_def by (metis sorted_upt)
  then have "sorted (map sh_rank (filter_hits hits t))" by (simp add: filter_hits_def sorted_filter)
  with r show ?thesis by (auto simp: ranked_def filter_hits_def)
qed

definition two_results :: "search_result list" where
  "two_results =
     [\<lparr>rs_err = None, rs_ids = Some [Inr ''b'', Inr [], Inr ''a''], rs_scores = [3, 1, 2]\<rparr>,
      \<lparr>rs_err = None, rs_ids = None, rs_scores = []\<rparr>]"

definition two_hits :: "search_hit list" where
  "two_hits = [\<lparr>sh_id = ''b'', sh_distance = 3, sh_rank = 1\<rparr>, \<lparr>sh_id = ''a'', sh_distance = 2, sh_rank = 2\<rparr>]"

theorem hits_ranked_and_near_witness:
  "search_hits two_results = Inr two_hits \<and> filter_hits two_hits 2 = [two_hits ! 1]"
proof -
  have s: "search_hits two_results = Inr two_hits"
    by (simp add: search_hits_def two_results_def two_hits_def)
  from hits_ranked_and_near [OF s, of 2] s show ?thesis by (simp add: two_hits_def filter_hits_def)
qed

text \<open>The documents of a retrieval are those of its hits, in the order of the hits, with the fetched
  content; each carries distance, rank and collection of the last hit with its ID, which is its own hit
  when no ID occurs twice.\<close>

theorem documents_carry_last_hit:
  assumes "documents_for_hits unmarshal cols hits collection = Inr ds"
  shows "map doc_id ds = map sh_id hits \<and>
    (\<exists>fetched. columns_to_documents unmarshal cols = Inr fetched \<and>
       (\<forall>i < length hits. \<exists>d \<in> set fetched. \<exists>h. last_hit (sh_id (hits ! i)) hits = Some h \<and>
          marked collection h d (ds ! i))) \<and>
    (distinct (map sh_id hits) \<longrightarrow> (\<forall>i < length hits. last_hit (sh_id (hits ! i)) hits = Some (hits ! i)))"
proof -
  obtain fetched heap ptrs where f: "columns_to_documents unmarshal cols = Inr fetched"
    and o: "order_hits collection hits fetched [] = Inr (heap, ptrs)" and ds: "ds = map (\<lambda>n. heap ! n) ptrs"
    using assms by (auto simp: documents_for_hits_def split: sum.splits prod.splits)
  note eff = order_hits_effect [OF o]
  then have ids: "map doc_id heap = map doc_id fetched"
    and ptrs: "map Some ptrs = map (\<lambda>h. position_of (sh_id h) fetched) hits" by auto
  then have len: "length ptrs = length hits" by (metis length_map)
  have ptr: "position_of (sh_id (hits ! i)) fetched = Some (ptrs ! i)" if "i < length hits" for i
    using ptrs len that by (metis nth_map)
  have last_some: "\<exists>h'. last_hit (sh_id h) hits = Some h'" if "h \<in> set hits" for h
  proof -
    have "h \<in> set (rev (filter (\<lambda>x. sh_id x = sh_id h) hits))" using that by simp
    then show ?thesis unfolding last_hit_def by (cases "rev (filter (\<lambda>x. sh_id x = sh_id h) hits)") auto
  qed
  have mark: "\<exists>d \<in> set fetched. \<exists>h. last_hit (sh_id (hits ! i)) hits = Some h \<and> marked collection h d (ds ! i)"
    if i: "i < length hits" for i
  proof -
    obtain h where h: "last_hit (sh_id (hits ! i)) hits = Some h" using last_some i by (meson nth_mem)
    have "marked collection h (fetched ! (ptrs ! i)) (heap ! (ptrs ! i))"
      using eff ptr [OF i] h by (metis (no_types, lifting) option.simps(5))
    moreover have "fetched ! (ptrs ! i) \<in> set fetched" using position_of_Some [OF ptr [OF i]] by simp
    moreover have "ds ! i = heap ! (ptrs ! i)" using ds len i by simp
    ultimately show ?thesis using h by metis
  qed
  have "map doc_id ds = map sh_id hits"
  proof (rule nth_equalityI)
    fix i assume "i < length (map doc_id ds)"
    then have i: "i < length hits" using ds len by simp
    have "doc_id (heap ! (ptrs ! i)) = doc_id (fetched ! (ptrs ! i))"
      using ids position_of_Some [OF ptr [OF i]] by (metis length_map nth_map)
    then show "map doc_id ds ! i = map sh_id hits ! i"
      using position_of_Some [OF ptr [OF i]] ds len i by simp
  qed (simp add: ds len)
  moreover have "last_hit (sh_id (hits ! i)) hits = Some (hits ! i)"
    if d: "distinct (map sh_id hits)" and i: "i < length hits" for i
  proof -
    obtain h where h: "last_hit (sh_id (hits ! i)) hits = Some h" using last_some i by (meson nth_mem)
    then have "h \<in> set hits \<and> sh_id h = sh_id (hits ! i)" by (rule last_hit_in)
    with d i have "h = hits ! i" by (metis distinct_map inj_on_eq_iff nth_mem)
    with h show ?thesis by simp
  qed
  ultimately show ?thesis using f mark by blast
qed

text \<open>(C32) The bytes of a vector hold exactly the bits of its floats, four little-endian bytes for each.\<close>

theorem vector_bytes_roundtrip:
  "bytes_to_bits (vector_to_bytes bits vs) = map bits vs \<and> length (vector_to_bytes bits vs) = 4 * length vs"
proof (induction vs)
  case (Cons v vs)
  then show ?case using float_bytes_read [of "bits v" "vector_to_bytes bits vs"]
    by (simp add: vector_to_bytes_def) (simp add: float_bytes_def)
qed (simp add: vector_to_bytes_def)

text \<open>A concrete store: its world is the log of searches.\<close>

definition sample_milvus :: "search_request list milvus" where
  "sample_milvus =
     \<lparr>mv_search = (\<lambda>req w. (w @ [req], Inr two_results)),
      mv_get = (\<lambda>ids w. (w, Inr
        [\<lparr>col_name = ''id'', col_cells = [Inr ''a'', Inr ''b'']\<rparr>,
         \<lparr>col_name = ''content'', col_cells = [Inr ''doc a'', Inr ''doc b'']\<rparr>]))\<rparr>"

definition sample_retriever :: "(search_request list, nat) milvus_retriever" where
  "sample_retriever =
     \<lparr>mr_client = sample_milvus, mr_embedder = Some (\<lambda>qs w. (w, Inr (map (\<lambda>q. [length q]) qs))),
      mr_top_k = 5, mr_threshold = None\<rparr>"

definition sample_retrieve_env :: "(search_request list, nat, unit) retrieve_env" where
  "sample_retrieve_env =
     \<lparr>re_top_k = None, re_embedder = None, re_search_param = Inr (), re_high = (\<lambda>s. ([], 0)),
      re_bits = of_nat, re_unmarshal = (\<lambda>raw m. Inr m)\<rparr>"

definition tenant_ctx :: ctx where
  "tenant_ctx = with_principal background
     \<lparr>p_user_id = ''u1'', p_tenant_id = ''acme'', p_username = ''u'', p_roles = []\<rparr>"


theorem documents_carry_last_hit_witness:
  "\<exists>ds. documents_for_hits (\<lambda>raw m. Inr m) [\<lparr>col_name = ''id'', col_cells = [Inr ''a'', Inr ''b'']\<rparr>]
      (two_hits @ [(hd two_hits)\<lparr>sh_rank := 3\<rparr>]) ''biz'' = Inr ds \<and>
    map doc_id (ds :: unit document list) = [''b'', ''a'', ''b''] \<and>
    (\<exists>m. doc_meta (ds ! 0) = Some m \<and> m ''_retrieval_rank'' = Some (MetaInt 3))"
proof -
  let ?cols = "[\<lparr>col_name = ''id'', col_cells = [Inr ''a'', Inr ''b'']\<rparr>] :: column list"
  let ?hits = "two_hits @ [(hd two_hits)\<lparr>sh_rank := 3\<rparr>]"
  let ?run = "documents_for_hits (\<lambda>raw m. Inr m) ?cols ?hits ''biz'' :: unit document list result"
  have "\<not> isl ?run" by code_simp
  then obtain ds where run: "?run = Inr ds" by (metis sum.collapse(2))
  have l: "last_hit (sh_id (?hits ! 0)) ?hits = Some ((hd two_hits)\<lparr>sh_rank := 3\<rparr>)"
    by (simp add: last_hit_def two_hits_def)
  from documents_carry_last_hit [OF run] obtain d :: "unit document" where
    "marked ''biz'' ((hd two_hits)\<lparr>sh_rank := 3\<rparr>) d (ds ! 0)"
    using l by (fastforce simp: two_hits_def)
  with documents_carry_last_hit [OF run] run show ?thesis
    by (intro exI [of _ ds]) (auto simp: two_hits_def marked_def)
qed

end
