(* ===== verification/Eval_Runner.thy ===== *)
theory Eval_Runner
  imports Eval_Metrics Retriever
begin

text \<open>
  The evaluation of internal/evaluation (dataset.go, judge.go, runner.go) and its command (cmd/eval): the
  data set, the stages of a case with their errors, the running means of the report, the parsed verdict of
  the judge model, and the report file that is written beside its destination and renamed. The JSON codec,
  the retriever, the agent, the judge's model and the file system's failures are parameters.
\<close>

section \<open>The data set\<close>

record eval_case =
  ec_id :: string
  ec_question :: string
  ec_relevant :: "string list"
  ec_reference :: string
  ec_tools :: "string list option"
  ec_tags :: "string list"

text \<open>The loop over the lines; \<open>read_err\<close> is the scanner's error at the end.\<close>

fun load_lines :: "(string \<Rightarrow> eval_case result) \<Rightarrow> string list \<Rightarrow> eval_case list \<Rightarrow> string list \<Rightarrow> eval_case list result" where
  "load_lines unmarshal seen cases [] = Inr cases"
| "load_lines unmarshal seen cases (line # rest) =
     (let t = trim_space line
      in if t = [] then load_lines unmarshal seen cases rest
         else case unmarshal t of
                Inl e \<Rightarrow> Inl (ErrWrap ''dataset line: '' e)
              | Inr raw \<Rightarrow>
                  (let item = raw\<lparr>ec_id := trim_space (ec_id raw), ec_question := trim_space (ec_question raw)\<rparr>
                   in if ec_id item = [] then Inl (ErrText ''dataset line: id is required'')
                      else if ec_question item = [] then Inl (ErrText ''dataset line: question is required'')
                      else if ec_id item \<in> set seen then Inl (ErrText (''dataset line: duplicate id '' @ ec_id item))
                      else load_lines unmarshal (ec_id item # seen) (cases @ [item]) rest))"

definition load_jsonl :: "(string \<Rightarrow> eval_case result) \<Rightarrow> string list \<Rightarrow> go_error option \<Rightarrow> eval_case list result" where
  "load_jsonl unmarshal text_lines read_err =
     (case load_lines unmarshal [] [] text_lines of
        Inl e \<Rightarrow> Inl e
      | Inr cases \<Rightarrow> (case read_err of Some e \<Rightarrow> Inl (ErrWrap ''read dataset: '' e) | None \<Rightarrow> Inr cases))"

section \<open>The judge\<close>

record judge_input =
  ji_question :: string
  ji_answer :: string
  ji_reference :: string
  ji_contexts :: "string list"

record judge_score =
  js_relevance :: real
  js_faithfulness :: real
  js_completeness :: real
  js_reason :: string

text \<open>\<open>decode\<close> reads one object without unknown fields and says whether the input then ends.\<close>

definition parse_judge_score :: "(string \<Rightarrow> (judge_score \<times> bool) result) \<Rightarrow> string \<Rightarrow> judge_score result" where
  "parse_judge_score decode content =
     (case decode content of
        Inl e \<Rightarrow> Inl (ErrWrap ''decode judge JSON: '' e)
      | Inr (s, at_end) \<Rightarrow>
          if \<not> at_end then Inl (ErrText ''judge output must contain exactly one JSON object'')
          else if js_relevance s < 0 \<or> js_relevance s > 1 \<or> js_faithfulness s < 0 \<or> js_faithfulness s > 1 \<or>
                  js_completeness s < 0 \<or> js_completeness s > 1
               then Inl (ErrText ''judge scores must be between 0 and 1'')
          else if trim_space (js_reason s) = [] then Inl (ErrText ''judge reason is required'')
          else Inr s)"

definition judge_prompt :: string where
  "judge_prompt = ''Score relevance, faithfulness, and completeness from 0 to 1. Return exactly one JSON object with keys relevance, faithfulness, completeness, and reason. Return no markdown or prose.''"

definition judge_evaluate ::
  "(judge_input \<Rightarrow> string result) \<Rightarrow> (string \<Rightarrow> (judge_score \<times> bool) result) \<Rightarrow>
   (message list \<Rightarrow> ('w, msgptr) op) option \<Rightarrow> judge_input \<Rightarrow> ('w, judge_score) op" where
  "judge_evaluate marshal decode model input w =
     (case model of
        None \<Rightarrow> (w, Inl (ErrText ''judge model is not configured''))
      | Some generate \<Rightarrow>
          (case marshal input of
             Inl e \<Rightarrow> (w, Inl (ErrWrap ''marshal judge input: '' e))
           | Inr payload \<Rightarrow>
               (case generate [plain_message System judge_prompt, user_message payload] w of
                  (w', Inl e) \<Rightarrow> (w', Inl (ErrWrap ''judge model: '' e))
                | (w', Inr None) \<Rightarrow> (w', Inl (ErrText ''judge model returned no message''))
                | (w', Inr (Some m)) \<Rightarrow> (w', parse_judge_score decode (msg_content m)))))"

section \<open>Retrieved documents and recorded tools\<close>

record retrieved_document =
  rd_id :: string
  rd_rank :: int
  rd_distance :: "rat option"

text \<open>\<open>numericInt\<close> and \<open>numericFloat\<close>; \<open>json_number\<close> is the float of a decoded JSON number.\<close>

definition truncate_rat :: "rat \<Rightarrow> int" where
  "truncate_rat x = (if x < 0 then - \<lfloor>- x\<rfloor> else \<lfloor>x\<rfloor>)"

definition numeric_int :: "('j \<Rightarrow> rat option) \<Rightarrow> 'j meta_value option \<Rightarrow> int option" where
  "numeric_int json_number v =
     (case v of
        Some (MetaInt n) \<Rightarrow> Some n
      | Some (MetaFloat x) \<Rightarrow> Some (truncate_rat x)
      | Some (JsonValue j) \<Rightarrow> map_option truncate_rat (json_number j)
      | _ \<Rightarrow> None)"

definition numeric_float :: "('j \<Rightarrow> rat option) \<Rightarrow> 'j meta_value option \<Rightarrow> rat option" where
  "numeric_float json_number v =
     (case v of Some (MetaFloat x) \<Rightarrow> Some x | Some (JsonValue j) \<Rightarrow> json_number j | _ \<Rightarrow> None)"

definition meta_lookup :: "'j document \<Rightarrow> string \<Rightarrow> 'j meta_value option" where
  "meta_lookup d key = (case doc_meta d of None \<Rightarrow> None | Some m \<Rightarrow> m key)"

fun retrieved_from :: "('j \<Rightarrow> rat option) \<Rightarrow> nat \<Rightarrow> 'j document option list \<Rightarrow> retrieved_document list" where
  "retrieved_from json_number index [] = []"
| "retrieved_from json_number index (None # ds) = retrieved_from json_number (index + 1) ds"
| "retrieved_from json_number index (Some d # ds) =
     \<lparr>rd_id = doc_id d,
      rd_rank = (case numeric_int json_number (meta_lookup d ''_retrieval_rank'') of
          Some r \<Rightarrow> r | None \<Rightarrow> int index + 1),
      rd_distance = numeric_float json_number (meta_lookup d ''_retrieval_distance'')\<rparr>
     # retrieved_from json_number (index + 1) ds"

definition retrieved_documents :: "('j \<Rightarrow> rat option) \<Rightarrow> 'j document option list \<Rightarrow> retrieved_document list" where
  "retrieved_documents json_number ds = sort_key rd_rank (retrieved_from json_number 0 ds)"

definition document_ids :: "'j document option list \<Rightarrow> string list" where
  "document_ids ds = map doc_id (map the (filter (\<lambda>d. d \<noteq> None) ds))"

definition document_contents :: "'j document option list \<Rightarrow> string list" where
  "document_contents ds = map doc_content (map the (filter (\<lambda>d. d \<noteq> None) ds))"

text \<open>The callback of the recorder for one start event; its list is the recorder's state.\<close>

definition record_start :: "run_info option \<Rightarrow> string list \<Rightarrow> string list" where
  "record_start info tools =
     (case info of
        None \<Rightarrow> tools
      | Some i \<Rightarrow>
          if ri_component i = ''Tool'' then tools @ [if ri_name i = [] then ri_type i else ri_name i] else tools)"

definition recorder_names :: "run_info option list \<Rightarrow> string list" where
  "recorder_names infos = fold record_start infos []"

section \<open>A case\<close>

record eval_config =
  cf_top_k :: int
  cf_tags :: "string list"
  cf_retrieval :: bool
  cf_agent :: bool
  cf_judge :: bool

text \<open>The dependencies; an agent's run comes with the start events its callbacks saw.\<close>

record ('w, 'j) eval_deps =
  dp_retrieve :: "(string \<Rightarrow> int \<Rightarrow> ('w, 'j document option list) op) option"
  dp_agent :: "(string \<Rightarrow> 'w \<Rightarrow> 'w \<times> (run_info option list \<times> msgptr result)) option"
  dp_judge :: "(judge_input \<Rightarrow> ('w, judge_score) op) option"

record 'j eval_env =
  en_unicode :: unicode
  en_json_number :: "'j \<Rightarrow> rat option"
  en_error_text :: "go_error \<Rightarrow> string"

record case_metrics =
  cm_recall :: "real option"
  cm_mrr :: "real option"
  cm_ndcg :: "real option"
  cm_exact :: "real option"
  cm_f1 :: "real option"
  cm_tools :: "real option"

record case_result =
  cr_id :: string
  cr_question :: string
  cr_retrieved :: "retrieved_document list"
  cr_answer :: string
  cr_tools :: "string list"
  cr_metrics :: case_metrics
  cr_judge :: "judge_score option"
  cr_errors :: "string list"

definition no_metrics :: case_metrics where
  "no_metrics = \<lparr>cm_recall = None, cm_mrr = None, cm_ndcg = None, cm_exact = None, cm_f1 = None, cm_tools = None\<rparr>"

definition add_error :: "string \<Rightarrow> case_result \<Rightarrow> case_result" where
  "add_error e r = r\<lparr>cr_errors := cr_errors r @ [e]\<rparr>"

definition retrieval_stage ::
  "'j eval_env \<Rightarrow> eval_case \<Rightarrow> eval_config \<Rightarrow> ('w, 'j) eval_deps \<Rightarrow> case_result \<Rightarrow> 'w \<Rightarrow>
   'w \<times> case_result \<times> 'j document option list" where
  "retrieval_stage env item cfg deps r w =
     (if \<not> cf_retrieval cfg then (w, r, [])
      else case dp_retrieve deps of
             None \<Rightarrow> (w, add_error ''retrieval: dependency is not configured'' r, [])
           | Some ret \<Rightarrow>
               (case ret (ec_question item) (cf_top_k cfg) w of
                  (w', Inl e) \<Rightarrow> (w', add_error (''retrieval: '' @ en_error_text env e) r, [])
                | (w', Inr ds) \<Rightarrow>
                    (let r1 = r\<lparr>cr_retrieved := retrieved_documents (en_json_number env) ds\<rparr>;
                         ids = document_ids ds
                     in (w', if ec_relevant item = [] then r1
                             else r1\<lparr>cr_metrics := (cr_metrics r1)
                               \<lparr>cm_recall := Some (recall_at_k ids (ec_relevant item) (cf_top_k cfg)),
                                cm_mrr := Some (mrr ids (ec_relevant item)),
                                cm_ndcg := Some (ndcg_at_k ids (ec_relevant item) (cf_top_k cfg))\<rparr>\<rparr>,
                         ds))))"

definition judge_stage ::
  "'j eval_env \<Rightarrow> eval_case \<Rightarrow> eval_config \<Rightarrow> ('w, 'j) eval_deps \<Rightarrow> 'j document option list \<Rightarrow> case_result \<Rightarrow> 'w \<Rightarrow> 'w \<times> case_result" where
  "judge_stage env item cfg deps ds r w =
     (if \<not> cf_judge cfg then (w, r)
      else case dp_judge deps of
             None \<Rightarrow> (w, add_error ''judge: dependency is not configured'' r)
           | Some evaluate \<Rightarrow>
               (case evaluate \<lparr>ji_question = ec_question item, ji_answer = cr_answer r,
                               ji_reference = ec_reference item, ji_contexts = document_contents ds\<rparr> w of
                  (w', Inl e) \<Rightarrow> (w', add_error (''judge: '' @ en_error_text env e) r)
                | (w', Inr s) \<Rightarrow> (w', r\<lparr>cr_judge := Some s\<rparr>)))"

definition answer_metrics :: "'j eval_env \<Rightarrow> eval_case \<Rightarrow> case_result \<Rightarrow> case_result" where
  "answer_metrics env item r =
     (let u = en_unicode env;
          r1 = (if ec_reference item = [] then r
                else r\<lparr>cr_metrics := (cr_metrics r)
                  \<lparr>cm_exact := Some (exact_match u (runes (cr_answer r)) (runes (ec_reference item))),
                   cm_f1 := Some (sc_f1 (token_f1 u (runes (cr_answer r)) (runes (ec_reference item))))\<rparr>\<rparr>)
      in case ec_tools item of
           None \<Rightarrow> r1
         | Some expected \<Rightarrow>
             r1\<lparr>cr_metrics := (cr_metrics r1)\<lparr>cm_tools := Some (tool_set_accuracy (cr_tools r1) expected)\<rparr>\<rparr>)"

definition agent_stage ::
  "'j eval_env \<Rightarrow> eval_case \<Rightarrow> eval_config \<Rightarrow> ('w, 'j) eval_deps \<Rightarrow> 'j document option list \<Rightarrow> case_result \<Rightarrow> 'w \<Rightarrow> 'w \<times> case_result" where
  "agent_stage env item cfg deps ds r w =
     (if \<not> cf_agent cfg then (w, r)
      else case dp_agent deps of
             None \<Rightarrow> (w, add_error ''agent: dependency is not configured'' r)
           | Some agent \<Rightarrow>
               (case agent (ec_question item) w of
                  (w', infos, out) \<Rightarrow>
                    (let r1 = r\<lparr>cr_tools := recorder_names infos\<rparr>
                     in case out of
                          Inl e \<Rightarrow> (w', add_error (''agent: '' @ en_error_text env e) r1)
                        | Inr None \<Rightarrow> (w', add_error ''agent: empty response'' r1)
                        | Inr (Some m) \<Rightarrow>
                            judge_stage env item cfg deps ds
                              (answer_metrics env item (r1\<lparr>cr_answer := msg_content m\<rparr>)) w')))"

definition run_case ::
  "'j eval_env \<Rightarrow> eval_case \<Rightarrow> eval_config \<Rightarrow> ('w, 'j) eval_deps \<Rightarrow> 'w \<Rightarrow> 'w \<times> case_result" where
  "run_case env item cfg deps w =
     (let start = \<lparr>cr_id = ec_id item, cr_question = ec_question item, cr_retrieved = [], cr_answer = [],
                   cr_tools = [], cr_metrics = no_metrics, cr_judge = None, cr_errors = []\<rparr>
      in case retrieval_stage env item cfg deps start w of
           (w1, r, ds) \<Rightarrow> agent_stage env item cfg deps ds r w1)"

section \<open>The report\<close>

record aggregate =
  ag_mean :: real
  ag_count :: nat

definition add_aggregate :: "string \<Rightarrow> real option \<Rightarrow> (string \<rightharpoonup> aggregate) \<Rightarrow> (string \<rightharpoonup> aggregate)" where
  "add_aggregate name v aggs =
     (case v of
        None \<Rightarrow> aggs
      | Some x \<Rightarrow>
          (let current = (case aggs name of None \<Rightarrow> \<lparr>ag_mean = 0, ag_count = 0\<rparr> | Some a \<Rightarrow> a)
           in aggs(name \<mapsto>
                \<lparr>ag_mean = (ag_mean current * real (ag_count current) + x) / real (ag_count current + 1),
                 ag_count = ag_count current + 1\<rparr>)))"

definition case_values :: "case_result \<Rightarrow> (string \<times> real option) list" where
  "case_values r =
     [(''recall_at_k'', cm_recall (cr_metrics r)), (''mrr'', cm_mrr (cr_metrics r)),
      (''ndcg_at_k'', cm_ndcg (cr_metrics r)), (''exact_match'', cm_exact (cr_metrics r)),
      (''token_f1'', cm_f1 (cr_metrics r)), (''tool_set_accuracy'', cm_tools (cr_metrics r))] @
     (case cr_judge r of
        None \<Rightarrow> []
      | Some j \<Rightarrow> [(''judge_relevance'', Some (js_relevance j)), (''judge_faithfulness'', Some (js_faithfulness j)),
                   (''judge_completeness'', Some (js_completeness j))])"

definition add_case_aggregates :: "case_result \<Rightarrow> (string \<rightharpoonup> aggregate) \<Rightarrow> (string \<rightharpoonup> aggregate)" where
  "add_case_aggregates r aggs = fold (\<lambda>(name, v). add_aggregate name v) (case_values r) aggs"

definition metric_names :: "string list" where
  "metric_names = [''recall_at_k'', ''mrr'', ''ndcg_at_k'', ''exact_match'', ''token_f1'', ''tool_set_accuracy'',
     ''judge_relevance'', ''judge_faithfulness'', ''judge_completeness'']"

definition matches_tags :: "string list \<Rightarrow> string list \<Rightarrow> bool" where
  "matches_tags case_tags selected = (selected = [] \<or> list_ex (\<lambda>t. t \<in> set case_tags) selected)"

record eval_report =
  rp_cases :: "case_result list"
  rp_aggregates :: "string \<rightharpoonup> aggregate"
  rp_failed :: nat

definition empty_report :: eval_report where
  "empty_report = \<lparr>rp_cases = [], rp_aggregates = map_of (map (\<lambda>n. (n, \<lparr>ag_mean = 0, ag_count = 0\<rparr>)) metric_names),
     rp_failed = 0\<rparr>"

definition add_result :: "case_result \<Rightarrow> eval_report \<Rightarrow> eval_report" where
  "add_result r rep =
     rep\<lparr>rp_cases := rp_cases rep @ [r], rp_aggregates := add_case_aggregates r (rp_aggregates rep),
         rp_failed := (if cr_errors r = [] then rp_failed rep else rp_failed rep + 1)\<rparr>"

fun run_cases ::
  "'j eval_env \<Rightarrow> eval_config \<Rightarrow> ('w, 'j) eval_deps \<Rightarrow> eval_case list \<Rightarrow> eval_report \<Rightarrow> 'w \<Rightarrow> 'w \<times> eval_report" where
  "run_cases env cfg deps [] rep w = (w, rep)"
| "run_cases env cfg deps (item # items) rep w =
     (if \<not> matches_tags (ec_tags item) (cf_tags cfg) then run_cases env cfg deps items rep w
      else case run_case env item cfg deps w of
             (w', r) \<Rightarrow> run_cases env cfg deps items (add_result r rep) w')"

definition run_evaluation ::
  "'j eval_env \<Rightarrow> eval_case list \<Rightarrow> eval_config \<Rightarrow> ('w, 'j) eval_deps \<Rightarrow> 'w \<Rightarrow> 'w \<times> eval_report" where
  "run_evaluation env cases cfg deps w =
     run_cases env (if cf_top_k cfg \<le> 0 then cfg\<lparr>cf_top_k := 5\<rparr> else cfg) deps cases empty_report w"

definition validate_report :: "eval_report \<Rightarrow> go_error option" where
  "validate_report rep = (if rp_cases rep = [] then Some (ErrText ''evaluation selected no cases'') else None)"

section \<open>The command\<close>

text \<open>
  The report file: the directory, the temporary file, the encoder, the close and the rename, each with
  its possible error. The result lists the states of the file system after every step; an encoder that
  fails leaves a part of its text, and the cleanup's own error is ignored (\<open>removable\<close>).
\<close>

type_synonym file_system = "string \<rightharpoonup> string"

record write_faults =
  wf_mkdir :: "go_error option"
  wf_open :: "go_error option"
  wf_encode :: "(string \<times> go_error) option"
  wf_close :: "go_error option"
  wf_rename :: "go_error option"
  wf_removable :: bool

definition remove_temporary :: "write_faults \<Rightarrow> string \<Rightarrow> file_system \<Rightarrow> file_system" where
  "remove_temporary f tmp fs = (if wf_removable f then fs(tmp := None) else fs)"

definition write_report :: "write_faults \<Rightarrow> string \<Rightarrow> string \<Rightarrow> file_system \<Rightarrow> file_system list \<times> go_error option" where
  "write_report f path content fs =
     (case wf_mkdir f of Some e \<Rightarrow> ([fs], Some e) | None \<Rightarrow>
      (let tmp = path @ ''.tmp''
       in case wf_open f of Some e \<Rightarrow> ([fs], Some e) | None \<Rightarrow>
         (let opened = fs(tmp \<mapsto> [])
          in case wf_encode f of
               Some (partial, e) \<Rightarrow>
                 ([fs, opened, opened(tmp \<mapsto> partial), remove_temporary f tmp (opened(tmp \<mapsto> partial))], Some e)
             | None \<Rightarrow>
                 (let written = opened(tmp \<mapsto> content)
                  in case wf_close f of
                       Some e \<Rightarrow> ([fs, opened, written, remove_temporary f tmp written], Some e)
                     | None \<Rightarrow>
                         (case wf_rename f of
                            Some e \<Rightarrow> ([fs, opened, written, remove_temporary f tmp written], Some e)
                          | None \<Rightarrow> ([fs, opened, written, written(path \<mapsto> content, tmp := None)], None))))))"

definition split_csv :: "string \<Rightarrow> string list" where
  "split_csv v = filter (\<lambda>i. i \<noteq> []) (map trim_space (split_char CHR '','' v))"

record eval_flags =
  fl_output :: string
  fl_top_k :: int
  fl_tags :: string
  fl_retrieval :: bool
  fl_agent :: bool
  fl_judge :: bool

text \<open>The end of \<open>run\<close>, from the report on.\<close>

definition finish_run :: "(eval_report \<Rightarrow> string) \<Rightarrow> write_faults \<Rightarrow> string \<Rightarrow> file_system \<Rightarrow> eval_report \<Rightarrow> int \<times> file_system list" where
  "finish_run encode faults path fs rep =
     (case validate_report rep of Some e \<Rightarrow> (2, [fs]) | None \<Rightarrow>
        (case write_report faults path (encode rep) fs of
           (states, Some e) \<Rightarrow> (2, states)
         | (states, None) \<Rightarrow> (if rp_failed rep > 0 then 1 else 0, states)))"

text \<open>\<open>run\<close>: the parsed flags, the opened and parsed data set, the constructors of the dependencies
  (called only for the stages that run), the encoding of the report. The result is the exit status with the
  states of the file system.\<close>

definition chosen :: "bool \<Rightarrow> 'a result \<Rightarrow> 'a option result" where
  "chosen wanted r = (if \<not> wanted then Inr None else case r of Inl e \<Rightarrow> Inl e | Inr x \<Rightarrow> Inr (Some x))"

definition eval_dependencies ::
  "eval_flags \<Rightarrow> (string \<Rightarrow> int \<Rightarrow> ('w, 'j document option list) op) result \<Rightarrow>
   (string \<Rightarrow> 'w \<Rightarrow> 'w \<times> (run_info option list \<times> msgptr result)) result \<Rightarrow>
   (judge_input \<Rightarrow> ('w, judge_score) op) result \<Rightarrow> ('w, 'j) eval_deps result" where
  "eval_dependencies fl retriever agent judge =
     (case chosen (fl_retrieval fl) retriever of Inl e \<Rightarrow> Inl e | Inr ret \<Rightarrow>
      case chosen (fl_agent fl) agent of Inl e \<Rightarrow> Inl e | Inr ag \<Rightarrow>
      case chosen (fl_judge fl) judge of Inl e \<Rightarrow> Inl e | Inr ju \<Rightarrow>
      Inr \<lparr>dp_retrieve = ret, dp_agent = ag, dp_judge = ju\<rparr>)"

definition eval_config_of :: "eval_flags \<Rightarrow> eval_config" where
  "eval_config_of fl = \<lparr>cf_top_k = fl_top_k fl, cf_tags = split_csv (fl_tags fl), cf_retrieval = fl_retrieval fl,
     cf_agent = fl_agent fl, cf_judge = fl_judge fl\<rparr>"

definition eval_main ::
  "'j eval_env \<Rightarrow> eval_flags option \<Rightarrow> eval_case list result \<Rightarrow>
   (string \<Rightarrow> int \<Rightarrow> ('w, 'j document option list) op) result \<Rightarrow>
   (string \<Rightarrow> 'w \<Rightarrow> 'w \<times> (run_info option list \<times> msgptr result)) result \<Rightarrow>
   (judge_input \<Rightarrow> ('w, judge_score) op) result \<Rightarrow> (eval_report \<Rightarrow> string) \<Rightarrow> write_faults \<Rightarrow> file_system \<Rightarrow> 'w \<Rightarrow>
   int \<times> file_system list" where
  "eval_main env parsed dataset retriever agent judge encode faults fs w =
     (case parsed of None \<Rightarrow> (2, [fs]) | Some fl \<Rightarrow>
      if fl_top_k fl \<le> 0 \<or> (fl_judge fl \<and> \<not> fl_agent fl) then (2, [fs])
      else case dataset of Inl e \<Rightarrow> (2, [fs]) | Inr cases \<Rightarrow>
       (case eval_dependencies fl retriever agent judge of Inl e \<Rightarrow> (2, [fs]) | Inr deps \<Rightarrow>
        finish_run encode faults (fl_output fl) fs (snd (run_evaluation env cases (eval_config_of fl) deps w))))"

section \<open>Properties\<close>

text \<open>A loaded data set has distinct trimmed IDs, each with a question, and its cases are those of its
  non-blank lines, in their order.\<close>

lemma load_lines_props:
  assumes "load_lines unmarshal seen cases rest = Inr cases'" and "set seen = set (map ec_id cases)"
    and "distinct (map ec_id cases)" and "\<forall>c \<in> set cases. ec_id c \<noteq> [] \<and> ec_question c \<noteq> []"
  shows "distinct (map ec_id cases') \<and> (\<forall>c \<in> set cases'. ec_id c \<noteq> [] \<and> ec_question c \<noteq> []) \<and>
    length cases' = length cases + length (filter (\<lambda>l. trim_space l \<noteq> []) rest)"
  using assms
proof (induction unmarshal seen cases rest rule: load_lines.induct)
  case (2 unmarshal seen cases line rest)
  show ?case
  proof (cases "trim_space line = []")
    case True
    with 2 show ?thesis by (simp add: Let_def)
  next
    case False
    then obtain raw where raw: "unmarshal (trim_space line) = Inr raw"
      using 2(3) by (auto simp: Let_def split: sum.splits)
    define item where "item = raw\<lparr>ec_id := trim_space (ec_id raw), ec_question := trim_space (ec_question raw)\<rparr>"
    have ok: "ec_id item \<noteq> []" "ec_question item \<noteq> []" "ec_id item \<notin> set seen"
      and run: "load_lines unmarshal (ec_id item # seen) (cases @ [item]) rest = Inr cases'"
      using 2(3) False raw unfolding item_def by (auto simp: Let_def split: if_splits)
    have "distinct (map ec_id cases') \<and> (\<forall>c \<in> set cases'. ec_id c \<noteq> [] \<and> ec_question c \<noteq> []) \<and>
        length cases' = length (cases @ [item]) + length (filter (\<lambda>l. trim_space l \<noteq> []) rest)"
    proof (rule "2.IH"(2) [OF refl False raw item_def])
      show "\<not> ec_id item = []" "\<not> ec_question item = []" "\<not> ec_id item \<in> set seen" using ok by auto
    qed (use 2(4-6) ok run in auto)
    with False show ?thesis by simp
  qed
qed simp

theorem dataset_ids_distinct:
  assumes "load_jsonl unmarshal text_lines read_err = Inr cases"
  shows "distinct (map ec_id cases) \<and> (\<forall>c \<in> set cases. ec_id c \<noteq> [] \<and> ec_question c \<noteq> []) \<and>
    length cases = length (filter (\<lambda>l. trim_space l \<noteq> []) text_lines) \<and> read_err = None"
  using assms load_lines_props [of unmarshal "[]" "[]" text_lines]
  by (auto simp: load_jsonl_def split: sum.splits option.splits)

definition case_of_line :: "string \<Rightarrow> eval_case result" where
  "case_of_line l = Inr \<lparr>ec_id = l, ec_question = ''why?'', ec_relevant = [''a''], ec_reference = ''CPU'',
     ec_tools = None, ec_tags = []\<rparr>"

theorem dataset_ids_distinct_witness:
  "\<exists>cases. load_jsonl case_of_line ['' one '', '''', ''two''] None = Inr cases \<and> map ec_id cases = [''one'', ''two''] \<and>
     length cases = 2 \<and> load_jsonl case_of_line [''one'', ''one ''] None = Inl (ErrText ''dataset line: duplicate id one'')"
proof -
  let ?run = "load_jsonl case_of_line ['' one '', '''', ''two''] None"
  have r: "map_sum id (map ec_id) ?run = Inr [''one'', ''two'']" by code_simp
  then obtain cases where run: "?run = Inr cases" "map ec_id cases = [''one'', ''two'']" by (cases ?run) auto
  have "length (filter (\<lambda>l. trim_space l \<noteq> []) ['' one '', '''', ''two'']) = 2" by code_simp
  moreover have "load_jsonl case_of_line [''one'', ''one ''] None = Inl (ErrText ''dataset line: duplicate id one'')"
    by code_simp
  ultimately show ?thesis using dataset_ids_distinct [OF run(1)] run by auto
qed

text \<open>A verdict of the judge is accepted only with its three scores between 0 and 1 and a reason, from a
  text that ends after its one object.\<close>

theorem judge_verdicts_checked:
  assumes "judge_evaluate marshal decode model input w = (w', Inr s)"
  shows "0 \<le> js_relevance s \<and> js_relevance s \<le> 1 \<and> 0 \<le> js_faithfulness s \<and> js_faithfulness s \<le> 1 \<and>
    0 \<le> js_completeness s \<and> js_completeness s \<le> 1 \<and> trim_space (js_reason s) \<noteq> [] \<and>
    (\<exists>generate payload m. model = Some generate \<and> marshal input = Inr payload \<and>
       generate [plain_message System judge_prompt, user_message payload] w = (w', Inr (Some m)) \<and>
       decode (msg_content m) = Inr (s, True))"
  using assms
  by (auto simp: judge_evaluate_def parse_judge_score_def split: option.splits sum.splits prod.splits if_splits)

definition fair_verdict :: judge_score where
  "fair_verdict = \<lparr>js_relevance = 1, js_faithfulness = 1 / 2, js_completeness = 0, js_reason = ''ok''\<rparr>"

definition sample_input :: judge_input where
  "sample_input = \<lparr>ji_question = ''q'', ji_answer = ''a'', ji_reference = [], ji_contexts = []\<rparr>"

theorem judge_verdicts_checked_witness:
  "\<exists>w' s. judge_evaluate (\<lambda>i. Inr (ji_question i)) (\<lambda>c. Inr (fair_verdict, True))
      (Some (\<lambda>ms n. (n + 1, Inr (Some (assistant_message ''{}''))))) sample_input (0::nat) = (w', Inr s) \<and>
     js_relevance s \<le> 1"
proof -
  have "trim_space ''ok'' \<noteq> []" by code_simp
  then have "judge_evaluate (\<lambda>i. Inr (ji_question i)) (\<lambda>c. Inr (fair_verdict, True))
      (Some (\<lambda>ms n. (n + 1, Inr (Some (assistant_message ''{}''))))) sample_input (0::nat) = (1, Inr fair_verdict)"
    by (simp add: judge_evaluate_def parse_judge_score_def fair_verdict_def)
  from judge_verdicts_checked [OF this] this show ?thesis by blast
qed

definition values_of :: "string \<Rightarrow> case_result list \<Rightarrow> real list" where
  "values_of name rs = concat (map (\<lambda>r. case map_of (case_values r) name of Some (Some x) \<Rightarrow> [x] | _ \<Rightarrow> []) rs)"

definition mean_of :: "real list \<Rightarrow> aggregate" where
  "mean_of xs = \<lparr>ag_mean = (if xs = [] then 0 else sum_list xs / real (length xs)), ag_count = length xs\<rparr>"

lemma add_aggregate_mean:
  "aggs name = Some (mean_of xs) \<Longrightarrow> add_aggregate name (Some x) aggs name = Some (mean_of (xs @ [x]))"
  by (simp add: add_aggregate_def mean_of_def Let_def)

lemma add_aggregate_other: "n \<noteq> name \<Longrightarrow> add_aggregate n v aggs name = aggs name"
  by (simp add: add_aggregate_def Let_def split: option.split)

lemma fold_aggregates:
  assumes "distinct (map fst vs)" and "aggs name = Some (mean_of xs)"
  shows "fold (\<lambda>(n, v). add_aggregate n v) vs aggs name =
    Some (mean_of (xs @ (case map_of vs name of Some (Some x) \<Rightarrow> [x] | _ \<Rightarrow> [])))"
  using assms
proof (induction vs arbitrary: aggs xs)
  case (Cons p vs)
  obtain n v where p: "p = (n, v)" by (cases p)
  show ?case
  proof (cases "n = name")
    case True
    then have "map_of vs name = None" using Cons.prems(1) p by (auto simp: map_of_eq_None_iff)
    moreover have "add_aggregate n v aggs name = Some (mean_of (xs @ (case v of Some x \<Rightarrow> [x] | None \<Rightarrow> [])))"
      using Cons.prems(2) True add_aggregate_mean [of aggs name xs] by (cases v) (auto simp: add_aggregate_def)
    ultimately show ?thesis using Cons.IH Cons.prems(1) p True by (auto split: option.splits)
  next
    case False
    then show ?thesis using Cons.IH [of "add_aggregate n v aggs"] Cons.prems p by (simp add: add_aggregate_other)
  qed
qed simp

lemma case_values_distinct: "distinct (map fst (case_values r))"
  by (cases "cr_judge r") (simp_all add: case_values_def)

lemma run_cases_report:
  assumes "run_cases env cfg deps items rep w = (w', rep')"
    and "\<forall>name \<in> set metric_names. rp_aggregates rep name = Some (mean_of (values_of name (rp_cases rep)))"
    and "rp_failed rep = length (filter (\<lambda>r. cr_errors r \<noteq> []) (rp_cases rep))"
  shows "(\<forall>name \<in> set metric_names. rp_aggregates rep' name = Some (mean_of (values_of name (rp_cases rep')))) \<and>
    rp_failed rep' = length (filter (\<lambda>r. cr_errors r \<noteq> []) (rp_cases rep')) \<and>
    map cr_id (rp_cases rep') = map cr_id (rp_cases rep) @
      map ec_id (filter (\<lambda>i. matches_tags (ec_tags i) (cf_tags cfg)) items)"
  using assms
proof (induction env cfg deps items rep w rule: run_cases.induct)
  case (2 env cfg deps item items rep w)
  show ?case
  proof (cases "matches_tags (ec_tags item) (cf_tags cfg)")
    case False
    with 2 show ?thesis by simp
  next
    case True
    obtain w1 r where r: "run_case env item cfg deps w = (w1, r)" by fastforce
    have id: "cr_id r = ec_id item"
      using r by (auto simp: run_case_def retrieval_stage_def agent_stage_def judge_stage_def answer_metrics_def
          add_error_def Let_def split: prod.splits if_splits option.splits sum.splits)
    have "rp_aggregates (add_result r rep) name = Some (mean_of (values_of name (rp_cases (add_result r rep))))"
      if "name \<in> set metric_names" for name
      using fold_aggregates [OF case_values_distinct, of "rp_aggregates rep" name] 2(4) that
      by (simp add: add_result_def add_case_aggregates_def values_of_def)
    moreover have "rp_failed (add_result r rep) =
        length (filter (\<lambda>r. cr_errors r \<noteq> []) (rp_cases (add_result r rep)))"
      using 2(5) by (simp add: add_result_def)
    moreover have "run_cases env cfg deps items (add_result r rep) w1 = (w', rep')" using 2(3) True r by simp
    ultimately show ?thesis using "2.IH"(2) [of w1 r] True r id by (simp add: add_result_def)
  qed
qed simp


definition sample_eval_env :: "unit eval_env" where
  "sample_eval_env = \<lparr>en_unicode = small_unicode, en_json_number = (\<lambda>_. None), en_error_text = (\<lambda>_. ''error'')\<rparr>"

definition agent_only :: "(nat, unit) eval_deps" where
  "agent_only = \<lparr>dp_retrieve = None,
     dp_agent = Some (\<lambda>q n. (n + 1, ([Some \<lparr>ri_component = ''Tool'', ri_name = [], ri_type = ''clock''\<rparr>],
        if n = 0 then Inr (Some (assistant_message ''cpu'')) else Inr None))),
     dp_judge = None\<rparr>"


text \<open>A case without errors went through every stage that its configuration asks for: retrieval has scored
  the relevant documents, the agent has answered, the judge has given its verdict; and a failing retrieval
  never keeps the agent from running.\<close>

theorem clean_case_is_complete:
  assumes "run_case env item cfg deps w = (w', r)" and "cr_errors r = []"
  shows "(cf_retrieval cfg \<and> ec_relevant item \<noteq> [] \<longrightarrow>
      cm_recall (cr_metrics r) \<noteq> None \<and> cm_mrr (cr_metrics r) \<noteq> None \<and> cm_ndcg (cr_metrics r) \<noteq> None) \<and>
    (cf_agent cfg \<longrightarrow> (\<exists>agent w1 w2 infos m. dp_agent deps = Some agent \<and>
       agent (ec_question item) w1 = (w2, infos, Inr (Some m)) \<and> cr_answer r = msg_content m \<and>
       cr_tools r = recorder_names infos)) \<and>
    (cf_agent cfg \<and> ec_reference item \<noteq> [] \<longrightarrow> cm_f1 (cr_metrics r) \<noteq> None \<and> cm_exact (cr_metrics r) \<noteq> None) \<and>
    (cf_agent cfg \<and> cf_judge cfg \<longrightarrow> cr_judge r \<noteq> None)"
proof -
  define start where "start = \<lparr>cr_id = ec_id item, cr_question = ec_question item, cr_retrieved = [], cr_answer = [],
      cr_tools = [], cr_metrics = no_metrics, cr_judge = None, cr_errors = []\<rparr>"
  obtain w1 r1 ds where ret: "retrieval_stage env item cfg deps start w = (w1, r1, ds)" by (metis prod_cases3)
  have ag: "agent_stage env item cfg deps ds r1 w1 = (w', r)"
    using assms(1) ret by (simp add: run_case_def start_def [symmetric] Let_def)
  have keeps: "cr_errors r1 = [] \<and> cm_recall (cr_metrics r) = cm_recall (cr_metrics r1) \<and>
      cm_mrr (cr_metrics r) = cm_mrr (cr_metrics r1) \<and> cm_ndcg (cr_metrics r) = cm_ndcg (cr_metrics r1)"
    using ag assms(2)
    by (auto simp: agent_stage_def judge_stage_def answer_metrics_def add_error_def Let_def
        split: if_splits option.splits prod.splits sum.splits)
  have scored: "cm_recall (cr_metrics r1) \<noteq> None \<and> cm_mrr (cr_metrics r1) \<noteq> None \<and> cm_ndcg (cr_metrics r1) \<noteq> None"
    if "cf_retrieval cfg" "ec_relevant item \<noteq> []"
    using ret keeps that
    by (auto simp: retrieval_stage_def add_error_def Let_def split: option.splits prod.splits sum.splits)
  have answered: "\<exists>agent w1 w2 infos m. dp_agent deps = Some agent \<and>
       agent (ec_question item) w1 = (w2, infos, Inr (Some m)) \<and> cr_answer r = msg_content m \<and>
       cr_tools r = recorder_names infos" if "cf_agent cfg"
    using ag assms(2) that
    by (auto simp: agent_stage_def judge_stage_def answer_metrics_def add_error_def Let_def
        split: if_splits option.splits prod.splits sum.splits) blast+
  have texts: "cm_f1 (cr_metrics r) \<noteq> None \<and> cm_exact (cr_metrics r) \<noteq> None"
    if "cf_agent cfg" "ec_reference item \<noteq> []"
    using ag assms(2) that
    by (auto simp: agent_stage_def judge_stage_def answer_metrics_def add_error_def Let_def
        split: if_splits option.splits prod.splits sum.splits)
  have judged: "cr_judge r \<noteq> None" if "cf_agent cfg" "cf_judge cfg"
    using ag assms(2) that
    by (auto simp: agent_stage_def judge_stage_def answer_metrics_def add_error_def Let_def
        split: if_splits option.splits prod.splits sum.splits)
  show ?thesis using keeps scored answered texts judged by simp
qed

theorem clean_case_is_complete_witness:
  "\<exists>item w' r. run_case sample_eval_env item \<lparr>cf_top_k = 5, cf_tags = [], cf_retrieval = False, cf_agent = True, cf_judge = False\<rparr>
      agent_only 0 = (w', r) \<and> cr_errors r = [] \<and> cr_answer r = ''cpu'' \<and> cr_tools r = [''clock''] \<and>
    cm_f1 (cr_metrics r) \<noteq> None"
proof -
  define item where "item = \<lparr>ec_id = ''one'', ec_question = ''why?'', ec_relevant = [''a''], ec_reference = ''CPU'',
     ec_tools = None, ec_tags = []\<rparr>"
  define cfg where "cfg = \<lparr>cf_top_k = 5, cf_tags = [], cf_retrieval = False, cf_agent = True, cf_judge = False\<rparr>"
  obtain w' r where run: "run_case sample_eval_env item cfg agent_only 0 = (w', r)" by fastforce
  then have f: "cr_errors r = []" "cr_answer r = ''cpu''" "cr_tools r = [''clock'']"
    by (auto simp: run_case_def retrieval_stage_def agent_stage_def judge_stage_def answer_metrics_def cfg_def
        agent_only_def item_def Let_def recorder_names_def record_start_def)
  have "cf_agent cfg" "ec_reference item \<noteq> []" by (simp_all add: cfg_def item_def)
  with clean_case_is_complete [OF run f(1)] run f show ?thesis unfolding cfg_def by blast
qed

lemma write_report_atomic:
  assumes "write_report f path content fs = (states, err)"
  shows "states \<noteq> [] \<and>
    (\<forall>s \<in> set states. (s path = fs path \<or> s path = Some content) \<and>
       (\<forall>p. p \<noteq> path \<and> p \<noteq> path @ ''.tmp'' \<longrightarrow> s p = fs p)) \<and>
    (case err of
       None \<Rightarrow> last states path = Some content \<and> last states (path @ ''.tmp'') = None
     | Some e \<Rightarrow> last states path = fs path \<and>
         (wf_mkdir f = None \<and> wf_open f = None \<and> wf_removable f \<longrightarrow> last states (path @ ''.tmp'') = None))"
proof -
  have "path \<noteq> path @ ''.tmp''" "path @ ''.tmp'' \<noteq> path" by simp_all
  then show ?thesis
    using assms
    by (auto simp: write_report_def remove_temporary_def Let_def split: option.splits if_splits prod.splits)
qed

text \<open>(C36) The report file is never torn: at every step the destination holds its old content or the complete
  report, it is replaced exactly when no step fails, and no other file but the temporary one changes; when
  a later step fails the temporary file is removed.\<close>

theorem report_written_atomically:
  assumes "write_report f path content fs = (states, err)"
  shows "states \<noteq> [] \<and>
    (\<forall>s \<in> set states. (s path = fs path \<or> s path = Some content) \<and>
       (\<forall>p. p \<noteq> path \<and> p \<noteq> path @ ''.tmp'' \<longrightarrow> s p = fs p)) \<and>
    (case err of
       None \<Rightarrow> last states path = Some content \<and> last states (path @ ''.tmp'') = None
     | Some e \<Rightarrow> last states path = fs path \<and>
         (wf_mkdir f = None \<and> wf_open f = None \<and> wf_removable f \<longrightarrow> last states (path @ ''.tmp'') = None))"
  using write_report_atomic [OF assms] .

theorem report_written_atomically_witness:
  "\<exists>states. write_report \<lparr>wf_mkdir = None, wf_open = None, wf_encode = Some (''{'', ErrExternal ''disk full''),
      wf_close = None, wf_rename = None, wf_removable = True\<rparr> ''r'' ''{}'' [''r'' \<mapsto> ''old''] =
      (states, Some (ErrExternal ''disk full'')) \<and> length states = 4 \<and>
    last states ''r'' = Some ''old'' \<and> last states ''r.tmp'' = None"
proof -
  let ?f = "\<lparr>wf_mkdir = None, wf_open = None, wf_encode = Some (''{'', ErrExternal ''disk full''),
      wf_close = None, wf_rename = None, wf_removable = True\<rparr>"
  obtain states where run: "write_report ?f ''r'' ''{}'' [''r'' \<mapsto> ''old''] = (states, Some (ErrExternal ''disk full''))"
    and len: "length states = 4" by (simp add: write_report_def Let_def)
  from report_written_atomically [OF run] run len show ?thesis by auto
qed

lemma eval_main_cases:
  "eval_main env parsed dataset retriever agent judge encode faults fs w = (2, [fs]) \<or>
   (\<exists>fl rep. parsed = Some fl \<and> eval_main env parsed dataset retriever agent judge encode faults fs w =
      finish_run encode faults (fl_output fl) fs rep)"
  by (cases parsed; cases dataset; cases "eval_dependencies (the parsed) retriever agent judge")
    (auto simp: eval_main_def)

text \<open>The exit status tells what happened: 0 or 1 only with a report of at least one case, written whole,
  and 0 only when no case failed; in every other case the status is 2 and the destination is untouched.\<close>

theorem exit_status_tells:
  assumes "eval_main env parsed dataset retriever agent judge encode faults fs w = (code, states)"
  shows "code \<in> {0, 1, 2} \<and>
    (code \<noteq> 2 \<longrightarrow> (\<exists>fl rep. parsed = Some fl \<and> rp_cases rep \<noteq> [] \<and>
       last states (fl_output fl) = Some (encode rep) \<and> (code = 0 \<longleftrightarrow> rp_failed rep = 0))) \<and>
    (code = 2 \<longrightarrow> (\<forall>fl. parsed = Some fl \<longrightarrow> last states (fl_output fl) = fs (fl_output fl)))"
proof -
  consider "code = 2 \<and> states = [fs]"
    | fl rep where "parsed = Some fl" "finish_run encode faults (fl_output fl) fs rep = (code, states)"
    using eval_main_cases [of env parsed dataset retriever agent judge encode faults fs w] unfolding assms by auto
  then show ?thesis
  proof cases
    case 2
    obtain st err where wr: "write_report faults (fl_output fl) (encode rep) fs = (st, err)" by fastforce
    note atomic = write_report_atomic [OF wr]
    have run: "(code, states) = (if rp_cases rep = [] then (2, [fs])
        else case err of Some e \<Rightarrow> (2, st) | None \<Rightarrow> (if rp_failed rep > 0 then 1 else 0, st))"
      unfolding 2(2) [symmetric] by (cases err) (simp_all add: finish_run_def validate_report_def wr)
    show ?thesis
    proof (cases "rp_cases rep = []")
      case True
      with run show ?thesis by simp
    next
      case False
      show ?thesis
      proof (cases err)
        case None
        with run False have c: "code = (if rp_failed rep > 0 then 1 else 0)" "states = st" by simp_all
        have "last st (fl_output fl) = Some (encode rep)" using atomic None by simp
        with c False 2(1) show ?thesis by (auto split: if_splits)
      next
        case (Some e)
        with run False have c: "code = 2" "states = st" by simp_all
        have "last st (fl_output fl) = fs (fl_output fl)" using atomic Some by simp
        with c 2(1) show ?thesis by simp
      qed
    qed
  qed simp
qed

definition eval_flags_1 :: eval_flags where
  "eval_flags_1 = \<lparr>fl_output = ''r'', fl_top_k = 5, fl_tags = [], fl_retrieval = False, fl_agent = True, fl_judge = False\<rparr>"

definition no_write_faults :: write_faults where
  "no_write_faults = \<lparr>wf_mkdir = None, wf_open = None, wf_encode = None, wf_close = None, wf_rename = None, wf_removable = True\<rparr>"

theorem exit_status_tells_witness:
  "\<exists>states. eval_main sample_eval_env (Some eval_flags_1) (load_jsonl case_of_line [''one''] None)
      (Inl ErrUnavailable) (Inr (the (dp_agent agent_only))) (Inl ErrUnavailable) (\<lambda>rep. ''report'') no_write_faults
      Map.empty 0 = (0, states) \<and> last states ''r'' = Some ''report''"
proof -
  let ?run = "eval_main sample_eval_env (Some eval_flags_1) (load_jsonl case_of_line [''one''] None)
      (Inl ErrUnavailable) (Inr (the (dp_agent agent_only))) (Inl ErrUnavailable) (\<lambda>rep. ''report'') no_write_faults
      Map.empty 0"
  have "trim_space ''one'' = ''one''" "trim_space ''why?'' = ''why?''" by code_simp+
  then have load: "load_jsonl case_of_line [''one''] None = Inr [the (map_of [(True, projr (case_of_line ''one''))] True)]"
    by (simp add: load_jsonl_def case_of_line_def)
  have deps: "eval_dependencies eval_flags_1 (Inl ErrUnavailable) (Inr (the (dp_agent agent_only))) (Inl ErrUnavailable) =
      Inr agent_only"
    by (simp add: eval_dependencies_def chosen_def eval_flags_1_def agent_only_def)
  let ?rep = "snd (run_evaluation sample_eval_env [projr (case_of_line ''one'')] (eval_config_of eval_flags_1) agent_only 0)"
  have rep: "rp_cases ?rep \<noteq> [] \<and> rp_failed ?rep = 0"
    by (simp add: run_evaluation_def eval_config_of_def eval_flags_1_def split_csv_def matches_tags_def run_case_def
        retrieval_stage_def agent_stage_def judge_stage_def answer_metrics_def agent_only_def case_of_line_def
        add_result_def empty_report_def recorder_names_def record_start_def Let_def)
  have "?run = finish_run (\<lambda>rep. ''report'') no_write_faults ''r'' Map.empty ?rep"
    using load deps by (simp add: eval_main_def) (simp add: eval_flags_1_def)
  then have "fst ?run = 0"
    using rep by (simp add: finish_run_def validate_report_def write_report_def no_write_faults_def Let_def)
  then obtain states where run: "?run = (0, states)" by (metis prod.collapse)
  from exit_status_tells [OF run] run show ?thesis by (auto simp: eval_flags_1_def)
qed

end
