(* ===== verification/Resources.thy ===== *)
theory Resources
  imports Prelude
begin

text \<open>
  What the constructors of the program share: a constructor opens handles one after the other and must
  close them when a later step fails. A run of a constructor is its list of openings and closings;
  \<open>open_after\<close> are the handles it leaves open, the latest first.
\<close>

datatype 'h handle_event = Opened 'h | Closed 'h

fun open_from :: "'h list \<Rightarrow> 'h handle_event list \<Rightarrow> 'h list" where
  "open_from hs [] = hs"
| "open_from hs (Opened h # evs) = open_from (h # hs) evs"
| "open_from hs (Closed h # evs) = open_from (remove1 h hs) evs"

definition open_after :: "'h handle_event list \<Rightarrow> 'h list" where
  "open_after evs = open_from [] evs"

lemma open_from_append [simp]: "open_from hs (evs @ evs') = open_from (open_from hs evs) evs'"
  by (induction hs evs rule: open_from.induct) auto

lemma open_after_Nil [simp]: "open_after [] = []"
  by (simp add: open_after_def)

lemma open_after_append: "open_after (evs @ evs') = open_from (open_after evs) evs'"
  by (simp add: open_after_def)

text \<open>Closing the open handles in the order of a stack leaves nothing open.\<close>

lemma open_from_close_all: "open_from (hs @ rest) (map Closed hs) = rest"
  by (induction hs) auto

lemma close_all: "open_after (evs @ map Closed (open_after evs)) = []"
  using open_from_close_all [of "open_after evs" "[]"] by (simp add: open_after_append)

text \<open>A handle that no event mentions is never open.\<close>

fun handle_of :: "'h handle_event \<Rightarrow> 'h" where
  "handle_of (Opened h) = h"
| "handle_of (Closed h) = h"

lemma set_open_from: "set (open_from hs evs) \<subseteq> set hs \<union> handle_of ` set evs"
  by (induction hs evs rule: open_from.induct) (auto dest: notin_set_remove1)

section \<open>Calls of outside services\<close>

text \<open>
  A function that only calls services with known answers: the calls it makes, in their order, and how it
  ends. A panic is an end of its own.
\<close>

datatype 'a run = Value 'a | Failed go_error | Panicked

type_synonym ('c, 'a) traced = "'c list \<times> 'a run"

fun to_run :: "'a result \<Rightarrow> 'a run" where
  "to_run (Inl e) = Failed e"
| "to_run (Inr x) = Value x"

fun answer :: "go_error option \<Rightarrow> unit run" where
  "answer None = Value ()"
| "answer (Some e) = Failed e"

definition pure :: "'a \<Rightarrow> ('c, 'a) traced" where
  "pure x = ([], Value x)"

definition and_then :: "('c, 'a) traced \<Rightarrow> ('a \<Rightarrow> ('c, 'b) traced) \<Rightarrow> ('c, 'b) traced" where
  "and_then m f =
     (case m of
        (cs, Value x) \<Rightarrow> (case f x of (cs', r) \<Rightarrow> (cs @ cs', r))
      | (cs, Failed e) \<Rightarrow> (cs, Failed e)
      | (cs, Panicked) \<Rightarrow> (cs, Panicked))"

text \<open>A call whose error is wrapped with a text.\<close>

definition call_or :: "string \<Rightarrow> 'c \<Rightarrow> 'a run \<Rightarrow> ('c, 'a) traced" where
  "call_or msg c r = ([c], case r of Failed e \<Rightarrow> Failed (ErrWrap msg e) | _ \<Rightarrow> r)"

lemma and_then_simps [simp]:
  "and_then (cs, Value x) f = (cs @ fst (f x), snd (f x))"
  "and_then (cs, Failed e) f = (cs, Failed e)"
  "and_then (cs, Panicked) f = (cs, Panicked)"
  "and_then (pure x) f = f x"
  by (simp_all add: and_then_def pure_def split: prod.splits)

lemma call_or_simps [simp]:
  "call_or msg c (Value x) = ([c], Value x)"
  "call_or msg c (Failed e) = ([c], Failed (ErrWrap msg e))"
  by (simp_all add: call_or_def)

lemma and_then_Value:
  "and_then m f = (cs, Value y) \<longleftrightarrow>
     (\<exists>cs1 x cs2. m = (cs1, Value x) \<and> f x = (cs2, Value y) \<and> cs = cs1 @ cs2)"
  by (auto simp: and_then_def split: prod.splits run.splits)

lemma answer_simps [simp]: "answer e = Value u \<longleftrightarrow> e = None" "answer r = Failed e' \<longleftrightarrow> r = Some e'" "answer r \<noteq> Panicked"
  by (cases e; simp) (cases r; simp)+

lemma to_run_simps [simp]: "to_run r = Value x \<longleftrightarrow> r = Inr x" "to_run r = Failed e \<longleftrightarrow> r = Inl e" "to_run r \<noteq> Panicked"
  by (cases r; simp)+

end
