(* ===== verification/Observability.thy ===== *)
theory Observability
  imports Retriever Resources
begin

text \<open>
  The telemetry of internal/observability: its configuration, the providers and their shutdown, the span and
  the counters of a request, and the callback handler that reports every component of the agent. Spans and
  metrics are the list of events that the code sends to the telemetry library; floats are rational numbers,
  times are nanoseconds. The configuration service, the library's answers, SHA-256 and the names of error
  types are parameters.
\<close>

section \<open>Configuration\<close>

record telemetry_config =
  tc_enabled :: bool
  tc_service :: string
  tc_endpoint :: string
  tc_insecure :: bool
  tc_ratio :: rat
  tc_debug :: bool

text \<open>A value of the configuration service with the conversions that the code asks for.\<close>

record config_value =
  cv_nil :: bool
  cv_bool :: bool
  cv_string :: string
  cv_float :: rat

type_synonym config_get = "string \<Rightarrow> config_value result"

definition file_value :: "config_get \<Rightarrow> (config_value \<Rightarrow> 'a) \<Rightarrow> string \<Rightarrow> 'a \<Rightarrow> 'a" where
  "file_value get conv path current =
     (case get path of Inl _ \<Rightarrow> current | Inr v \<Rightarrow> if cv_nil v then current else conv v)"

definition file_text :: "config_get \<Rightarrow> string \<Rightarrow> string \<Rightarrow> string" where
  "file_text get path current =
     (case get path of Inl _ \<Rightarrow> current | Inr v \<Rightarrow> if cv_string v = [] then current else cv_string v)"

definition env_value :: "(string \<Rightarrow> string) \<Rightarrow> (string \<Rightarrow> 'a option) \<Rightarrow> string \<Rightarrow> 'a \<Rightarrow> 'a" where
  "env_value env parse name current =
     (if env name = [] then current else case parse (env name) of None \<Rightarrow> current | Some v \<Rightarrow> v)"

definition load_telemetry_config ::
  "config_get \<Rightarrow> (string \<Rightarrow> bool option) \<Rightarrow> (string \<Rightarrow> rat option) \<Rightarrow> (string \<Rightarrow> string) \<Rightarrow> telemetry_config" where
  "load_telemetry_config get parse_bool parse_float env =
     \<lparr>tc_enabled = env_value env parse_bool ''SUPERBIZAGENT_OTEL_ENABLED''
        (file_value get cv_bool ''observability.enabled'' True),
      tc_service = env_value env Some ''SUPERBIZAGENT_OTEL_SERVICE_NAME''
        (file_text get ''observability.service_name'' ''superbizagent''),
      tc_endpoint = env_value env Some ''SUPERBIZAGENT_OTEL_ENDPOINT''
        (file_text get ''observability.otlp_endpoint'' ''localhost:4317''),
      tc_insecure = env_value env parse_bool ''SUPERBIZAGENT_OTEL_INSECURE''
        (file_value get cv_bool ''observability.insecure'' True),
      tc_ratio = env_value env parse_float ''SUPERBIZAGENT_OTEL_SAMPLE_RATIO''
        (file_value get cv_float ''observability.sample_ratio'' 1),
      tc_debug = env_value env parse_bool ''SUPERBIZAGENT_OTEL_DEBUG_CONTENT''
        (file_value get cv_bool ''observability.debug_content'' False)\<rparr>"

section \<open>Providers\<close>

definition fill :: "string \<Rightarrow> string \<Rightarrow> string" where
  "fill current fallback = (if current = [] then fallback else current)"

text \<open>The instruments of \<open>newMetrics\<close> in their order; the first error ends it.\<close>

definition instrument_names :: "string list" where
  "instrument_names =
     [''superbizagent_requests_total'', ''superbizagent_request_duration_seconds'',
      ''superbizagent_component_duration_seconds'', ''superbizagent_component_errors_total'',
      ''superbizagent_tool_calls_total'', ''superbizagent_retrieval_documents'', ''superbizagent_retrieval_distance'',
      ''superbizagent_retrieval_empty_total'', ''superbizagent_llm_tokens_total'',
      ''superbizagent_llm_first_token_seconds'', ''superbizagent_llm_usage_missing_total'',
      ''superbizagent_sse_interrupts_total'']"

fun create_instruments :: "(string \<Rightarrow> go_error option) \<Rightarrow> string list \<Rightarrow> unit result" where
  "create_instruments create [] = Inr ()"
| "create_instruments create (n # ns) = (case create n of Some e \<Rightarrow> Inl e | None \<Rightarrow> create_instruments create ns)"

definition new_metrics :: "(string \<Rightarrow> go_error option) \<Rightarrow> unit result" where
  "new_metrics create = create_instruments create instrument_names"

text \<open>The exporters that \<open>Init\<close> opens; each provider shuts its own down.\<close>

datatype exporter = TraceExporter | MetricExporter

record telemetry_answers =
  ta_resource :: "string \<Rightarrow> go_error option"
  ta_exporter :: "exporter \<Rightarrow> string \<Rightarrow> bool \<Rightarrow> go_error option"
  ta_instrument :: "string \<Rightarrow> go_error option"

definition open_exporters ::
  "telemetry_answers \<Rightarrow> telemetry_config \<Rightarrow> exporter handle_event list \<times> exporter list result" where
  "open_exporters a cfg =
     (case ta_resource a (fill (tc_service cfg) ''superbizagent'') of
        Some e \<Rightarrow> ([], Inl (ErrWrap ''create telemetry resource: '' e)) | None \<Rightarrow>
     (case ta_exporter a TraceExporter (tc_endpoint cfg) (tc_insecure cfg) of
        Some e \<Rightarrow> ([], Inl (ErrWrap ''create OTLP trace exporter: '' e)) | None \<Rightarrow>
     (case ta_exporter a MetricExporter (tc_endpoint cfg) (tc_insecure cfg) of
        Some e \<Rightarrow> ([Opened TraceExporter], Inl (ErrWrap ''create OTLP metric exporter: '' e))
      | None \<Rightarrow> ([Opened TraceExporter, Opened MetricExporter], Inr [MetricExporter, TraceExporter]))))"

text \<open>\<open>Init\<close>: the result holds the exporters that the returned shutdown function will close, in order.\<close>

definition init_telemetry ::
  "telemetry_answers \<Rightarrow> telemetry_config \<Rightarrow> exporter handle_event list \<times> exporter list result" where
  "init_telemetry a cfg =
     (if tc_ratio cfg < 0 \<or> tc_ratio cfg > 1
      then ([], Inl (ErrText ''observability sample ratio must be between 0 and 1''))
      else case (if tc_enabled cfg then open_exporters a cfg else ([], Inr [])) of
             (evs, Inl e) \<Rightarrow> (evs, Inl e)
           | (evs, Inr exporters) \<Rightarrow>
               (evs, case new_metrics (ta_instrument a) of
                       Inl e \<Rightarrow> Inl (ErrWrap ''create telemetry metrics: '' e)
                     | Inr _ \<Rightarrow> Inr exporters))"

text \<open>The shutdown function: its exporters, and once it has run the errors it keeps returning.\<close>

record shutdown_state =
  sd_exporters :: "exporter list"
  sd_result :: "go_error list option"

definition shutdown_telemetry ::
  "(exporter \<Rightarrow> go_error option) \<Rightarrow> shutdown_state \<Rightarrow> shutdown_state \<times> exporter handle_event list \<times> go_error list" where
  "shutdown_telemetry shut s =
     (case sd_result s of
        Some errs \<Rightarrow> (s, [], errs)
      | None \<Rightarrow>
          (let errs = List.map_filter shut (sd_exporters s)
           in (s\<lparr>sd_result := Some errs\<rparr>, map Closed (sd_exporters s), errs)))"

section \<open>Requests\<close>

datatype attr_value = AttrText string | AttrInt int | AttrFloat rat | AttrBool bool

type_synonym attr = "string \<times> attr_value"

datatype tel_event =
    SpanStart string | SpanAttrs "attr list" | SpanError go_error | SpanStatus string | SpanEnd
  | Count string "attr list" int | Observe string "attr list" rat

definition request_info_for :: "string \<Rightarrow> string \<Rightarrow> ctx \<Rightarrow> request_info" where
  "request_info_for new_id conversation c =
     (let info = request_info_from_context c;
          known = (case principal_from_context c of
              None \<Rightarrow> info
            | Some p \<Rightarrow> info\<lparr>ri_tenant_id := fill (ri_tenant_id info) (p_tenant_id p),
                             ri_user_id := fill (ri_user_id info) (p_user_id p)\<rparr>)
      in known\<lparr>ri_request_id := fill (ri_request_id known) new_id,
               ri_conversation_id := fill (ri_conversation_id known) conversation\<rparr>)"

record request_span =
  rq_route :: string
  rq_mode :: string
  rq_started :: int
  rq_finished :: bool

text \<open>\<open>StartRequest\<close>: the new context, the span's first events and the finish function's state.\<close>

definition start_request :: "string \<Rightarrow> int \<Rightarrow> string \<Rightarrow> string \<Rightarrow> string \<Rightarrow> ctx \<Rightarrow> ctx \<times> tel_event list \<times> request_span" where
  "start_request new_id now route mode conversation c =
     (let info = request_info_for new_id conversation c
      in (with_request_info c info,
          [SpanStart (''HTTP '' @ route),
           SpanAttrs [(''http.route'', AttrText route), (''request.mode'', AttrText mode),
             (''request.id'', AttrText (ri_request_id info)), (''conversation.id'', AttrText (ri_conversation_id info))]],
          \<lparr>rq_route = route, rq_mode = mode, rq_started = now, rq_finished = False\<rparr>))"

definition seconds :: "int \<Rightarrow> rat" where
  "seconds d = of_int d / 1000000000"

definition finish_request ::
  "bool \<Rightarrow> (go_error \<Rightarrow> string) \<Rightarrow> int \<Rightarrow> go_error option \<Rightarrow> request_span \<Rightarrow> request_span \<times> tel_event list" where
  "finish_request metered type_name now run_err r =
     (if rq_finished r then (r, [])
      else
        let labels = [(''route'', AttrText (rq_route r)), (''mode'', AttrText (rq_mode r))]
        in (r\<lparr>rq_finished := True\<rparr>,
            (case run_err of None \<Rightarrow> [] | Some e \<Rightarrow> [SpanError e, SpanStatus (type_name e)]) @
            (if \<not> metered then []
             else [Count ''superbizagent_requests_total''
                     (labels @ [(''status'', AttrText (if run_err = None then ''ok'' else ''error''))]) 1,
                   Observe ''superbizagent_request_duration_seconds'' labels (seconds (now - rq_started r))]) @
            [SpanEnd]))"

section \<open>Properties\<close>

text \<open>A request's telemetry: the context that goes on names the caller and the conversation, keeping what it
  named before and filling only what was empty, with no part of the principal or the deadline changed.\<close>

theorem request_info_filled:
  "let (c', evs, r) = start_request new_id now route mode conversation c;
       info = request_info_from_context c'; old = request_info_from_context c
   in principal_from_context c' = principal_from_context c \<and> ctx_err c' = ctx_err c \<and> \<not> rq_finished r \<and>
     ri_request_id info = (if ri_request_id old = [] then new_id else ri_request_id old) \<and>
     ri_conversation_id info = (if ri_conversation_id old = [] then conversation else ri_conversation_id old) \<and>
     ri_tenant_id info = (if ri_tenant_id old \<noteq> [] then ri_tenant_id old
       else case principal_from_context c of None \<Rightarrow> [] | Some p \<Rightarrow> p_tenant_id p) \<and>
     ri_user_id info = (if ri_user_id old \<noteq> [] then ri_user_id old
       else case principal_from_context c of None \<Rightarrow> [] | Some p \<Rightarrow> p_user_id p)"
  by (auto simp: start_request_def request_info_for_def fill_def Let_def split: option.splits)

text \<open>The events of a sequence of calls of the finish function.\<close>

fun finish_calls :: "bool \<Rightarrow> (go_error \<Rightarrow> string) \<Rightarrow> (int \<times> go_error option) list \<Rightarrow> request_span \<Rightarrow> tel_event list" where
  "finish_calls metered name [] r = []"
| "finish_calls metered name ((now, err) # calls) r =
     (case finish_request metered name now err r of (r', evs) \<Rightarrow> evs @ finish_calls metered name calls r')"

fun request_counts :: "tel_event list \<Rightarrow> string list" where
  "request_counts [] = []"
| "request_counts (Count name labels n # evs) =
     (if name = ''superbizagent_requests_total'' \<and> n = 1
      then (case map_of labels ''status'' of Some (AttrText s) \<Rightarrow> [s] | _ \<Rightarrow> [''?'']) else []) @ request_counts evs"
| "request_counts (_ # evs) = request_counts evs"

lemma finish_calls_finished: "rq_finished r \<Longrightarrow> finish_calls metered name calls r = []"
  by (induction metered name calls r rule: finish_calls.induct) (auto simp: finish_request_def)

text \<open>However often the finish function of a request is called, the request is counted once, with the status of
  the first call, and its span ends once.\<close>

theorem request_counted_once:
  assumes "\<not> rq_finished r"
  shows "finish_calls metered name ((now, err) # calls) r = snd (finish_request metered name now err r) \<and>
    count_list (finish_calls metered name ((now, err) # calls) r) SpanEnd = 1 \<and>
    request_counts (finish_calls metered name ((now, err) # calls) r) =
      (if metered then [if err = None then ''ok'' else ''error''] else [])"
proof -
  obtain r' evs where fin: "finish_request metered name now err r = (r', evs)" by fastforce
  then have "rq_finished r'" using assms by (auto simp: finish_request_def Let_def)
  then have run: "finish_calls metered name ((now, err) # calls) r = evs" using fin by (simp add: finish_calls_finished)
  have "count_list evs SpanEnd = 1 \<and> request_counts evs = (if metered then [if err = None then ''ok'' else ''error''] else [])"
    using fin assms by (cases err) (auto simp: finish_request_def Let_def)
  with run fin show ?thesis by simp
qed

theorem request_counted_once_witness:
  "request_counts (finish_calls True (\<lambda>_. ''timeout'') [(5, Some DeadlineExceeded), (9, None)]
     (snd (snd (start_request ''r1'' 0 ''/api/chat'' ''invoke'' ''c1'' background)))) = [''error'']"
proof -
  have "\<not> rq_finished (snd (snd (start_request ''r1'' 0 ''/api/chat'' ''invoke'' ''c1'' background)))"
    by (simp add: start_request_def Let_def)
  from request_counted_once [OF this, of True "\<lambda>_. ''timeout''" 5 "Some DeadlineExceeded" "[(9, None)]", THEN conjunct2, THEN conjunct2]
  show ?thesis by (simp del: finish_calls.simps)
qed

lemma init_telemetry_open:
  "init_telemetry a cfg = (evs, r) \<Longrightarrow>
     (case r of Inr exporters \<Rightarrow> open_after evs = exporters | Inl e \<Rightarrow> \<not> tc_enabled cfg \<longrightarrow> evs = [])"
  by (auto simp: init_telemetry_def open_exporters_def open_after_def split: if_splits option.splits sum.splits)

text \<open>A start that fails leaves its exporters open, and only then: the shutdown function of a successful start
  closes exactly what the start has opened, once, and later calls repeat the errors of the first.\<close>

theorem telemetry_shutdown_complete:
  assumes "init_telemetry a cfg = (evs, Inr exporters)"
    and "shutdown_telemetry shut \<lparr>sd_exporters = exporters, sd_result = None\<rparr> = (s', shut_evs, errs)"
  shows "open_after evs = exporters \<and> open_after (evs @ shut_evs) = [] \<and>
    shutdown_telemetry shut s' = (s', [], errs) \<and> (errs = [] \<longleftrightarrow> (\<forall>x \<in> set exporters. shut x = None))"
proof -
  have "open_after evs = exporters"
    using init_telemetry_open [OF assms(1)] by simp
  moreover have "shut_evs = map Closed exporters" "errs = List.map_filter shut exporters" "sd_result s' = Some errs"
    using assms(2) by (auto simp: shutdown_telemetry_def Let_def)
  moreover from calculation have "open_after (evs @ shut_evs) = []" using close_all [of evs] by simp
  ultimately show ?thesis
    by (auto simp: shutdown_telemetry_def List.map_filter_def filter_empty_conv)
qed

theorem telemetry_shutdown_complete_witness:
  "\<exists>evs s'. init_telemetry \<lparr>ta_resource = (\<lambda>_. None), ta_exporter = (\<lambda>_ _ _. None), ta_instrument = (\<lambda>_. None)\<rparr>
      \<lparr>tc_enabled = True, tc_service = [], tc_endpoint = ''localhost:4317'', tc_insecure = True, tc_ratio = 1, tc_debug = False\<rparr> =
      (evs, Inr [MetricExporter, TraceExporter]) \<and>
    shutdown_telemetry (\<lambda>x. if x = TraceExporter then Some DeadlineExceeded else None)
      \<lparr>sd_exporters = [MetricExporter, TraceExporter], sd_result = None\<rparr> =
      (s', [Closed MetricExporter, Closed TraceExporter], [DeadlineExceeded]) \<and>
    open_after (evs @ [Closed MetricExporter, Closed TraceExporter]) = []"
proof -
  let ?a = "\<lparr>ta_resource = (\<lambda>_. None), ta_exporter = (\<lambda>_ _ _. None), ta_instrument = (\<lambda>_. None)\<rparr>"
  let ?cfg = "\<lparr>tc_enabled = True, tc_service = [], tc_endpoint = ''localhost:4317'', tc_insecure = True, tc_ratio = 1, tc_debug = False\<rparr>"
  let ?shut = "\<lambda>x. if x = TraceExporter then Some DeadlineExceeded else None"
  obtain evs where i: "init_telemetry ?a ?cfg = (evs, Inr [MetricExporter, TraceExporter])"
    by (simp add: init_telemetry_def open_exporters_def new_metrics_def instrument_names_def)
  obtain s' where sd: "shutdown_telemetry ?shut \<lparr>sd_exporters = [MetricExporter, TraceExporter], sd_result = None\<rparr> =
      (s', [Closed MetricExporter, Closed TraceExporter], [DeadlineExceeded])"
    by (simp add: shutdown_telemetry_def List.map_filter_def Let_def)
  from telemetry_shutdown_complete [OF i sd] i sd show ?thesis by blast
qed

lemma failed_start_leaks_exporter:
  assumes "\<And>name. ta_resource a name = None" "\<And>u i. ta_exporter a TraceExporter u i = None"
    and "\<And>u i. ta_exporter a MetricExporter u i = Some e"
    and "tc_enabled cfg" "0 \<le> tc_ratio cfg" "tc_ratio cfg \<le> 1"
  shows "open_after (fst (init_telemetry a cfg)) = [TraceExporter]"
  using assms by (simp add: init_telemetry_def open_exporters_def open_after_def)

text \<open>The environment overrides the file, the file overrides the built-in values, and text that does not parse
  overrides nothing.\<close>

lemma telemetry_config_precedence:
  "tc_ratio (load_telemetry_config get parse_bool parse_float env) =
     (case parse_float (env ''SUPERBIZAGENT_OTEL_SAMPLE_RATIO'') of
        Some v \<Rightarrow> if env ''SUPERBIZAGENT_OTEL_SAMPLE_RATIO'' = [] then file_value get cv_float ''observability.sample_ratio'' 1 else v
      | None \<Rightarrow> file_value get cv_float ''observability.sample_ratio'' 1)"
  by (simp add: load_telemetry_config_def env_value_def split: option.splits)

end
