(* ===== verification/Eino_Callback.thy ===== *)
theory Eino_Callback
  imports Observability
begin

text \<open>
  The callback handler of internal/observability/eino_callback.go: it opens a span when a component of the
  agent starts and closes it when the component ends, fails, or when its output stream is over. Of what a
  component reads and writes only lengths, a hash, token counts and retrieval statistics reach the
  telemetry. The library's conversions are parameters through the shape of the values: a value of another
  component converts to nil.
\<close>

section \<open>What a callback is given\<close>

datatype callback_input = ToolInput string | RetrieverInput string | OtherInput

text \<open>A model's output with the name of its configuration and its token usage (prompt, completion, total).\<close>

datatype 'j callback_output =
    ModelOutput "string option" "(int \<times> int \<times> int) option"
  | RetrieverOutput "'j document option list"
  | OtherOutput

definition run_info_values :: "run_info option \<Rightarrow> string \<times> string" where
  "run_info_values info =
     (case info of
        None \<Rightarrow> (''unknown'', ''unknown'')
      | Some i \<Rightarrow> (fill (ri_component i) ''unknown'', fill (fill (ri_name i) (ri_type i)) ''unknown''))"

definition run_info_type :: "run_info option \<Rightarrow> string" where
  "run_info_type info = (case info of None \<Rightarrow> ''unknown'' | Some i \<Rightarrow> fill (ri_type i) ''unknown'')"

definition is_component :: "string \<Rightarrow> run_info option \<Rightarrow> bool" where
  "is_component c info = (case info of None \<Rightarrow> False | Some i \<Rightarrow> ri_component i = c)"

text \<open>What the handler gets from outside: the hash, the names of error types, the conversions of a stored
  metadata value, and whether there is a set of instruments.\<close>

record 'j callback_env =
  ce_sha256 :: "string \<Rightarrow> 8 word list"
  ce_error_name :: "go_error \<Rightarrow> string"
  ce_float :: "'j \<Rightarrow> rat option"
  ce_string :: "'j \<Rightarrow> string option"
  ce_metered :: bool

definition hash_text :: "'j callback_env \<Rightarrow> string \<Rightarrow> string" where
  "hash_text env s = hex_encode (ce_sha256 env s)"

definition classify_error :: "'j callback_env \<Rightarrow> go_error option \<Rightarrow> string" where
  "classify_error env e = (case e of None \<Rightarrow> ''none'' | Some e' \<Rightarrow> ce_error_name env e')"

section \<open>Start\<close>

definition input_summary :: "'j callback_env \<Rightarrow> run_info option \<Rightarrow> callback_input \<Rightarrow> tel_event list" where
  "input_summary env info input =
     (if is_component ''Tool'' info then
        (case input of
           ToolInput args \<Rightarrow> [SpanAttrs [(''tool.arguments.length'', AttrInt (int (length args))),
                                        (''tool.arguments.sha256'', AttrText (hash_text env args))]]
         | _ \<Rightarrow> [])
      else if is_component ''Retriever'' info then
        (case input of RetrieverInput query \<Rightarrow> [SpanAttrs [(''retrieval.query.length'', AttrInt (int (length query)))]] | _ \<Rightarrow> [])
      else [])"

text \<open>\<open>OnStart\<close>; \<open>lower\<close> is \<open>strings.ToLower\<close>.\<close>

definition on_start :: "'j callback_env \<Rightarrow> (string \<Rightarrow> string) \<Rightarrow> run_info option \<Rightarrow> callback_input \<Rightarrow> tel_event list" where
  "on_start env lower info input =
     (case run_info_values info of (component, name) \<Rightarrow>
        [SpanStart (''eino.'' @ lower component @ ''.'' @ name),
         SpanAttrs [(''eino.component'', AttrText component), (''eino.type'', AttrText (run_info_type info)),
                    (''eino.name'', AttrText name)]] @ input_summary env info input)"

section \<open>Summaries of an output\<close>

text \<open>\<open>int(float64(n-1)*q + 0.5)\<close> of a sorted slice.\<close>

definition percentile :: "rat list \<Rightarrow> rat \<Rightarrow> rat" where
  "percentile sorted_values q = sorted_values ! nat \<lfloor>of_nat (length sorted_values - 1) * q + 1 / 2\<rfloor>"

definition doc_distance :: "'j callback_env \<Rightarrow> 'j document \<Rightarrow> rat option" where
  "doc_distance env d =
     (case doc_meta d of None \<Rightarrow> None | Some m \<Rightarrow>
        (case m ''_retrieval_distance'' of Some (MetaFloat x) \<Rightarrow> Some x | Some (JsonValue j) \<Rightarrow> ce_float env j | _ \<Rightarrow> None))"

definition doc_collection :: "'j callback_env \<Rightarrow> 'j document \<Rightarrow> string option" where
  "doc_collection env d =
     (case doc_meta d of None \<Rightarrow> None | Some m \<Rightarrow>
        (case m ''_retrieval_collection'' of Some (MetaString s) \<Rightarrow> Some s | Some (JsonValue j) \<Rightarrow> ce_string env j | _ \<Rightarrow> None))"

fun scan_docs :: "'j callback_env \<Rightarrow> 'j document option list \<Rightarrow> rat list \<Rightarrow> string \<Rightarrow> rat list \<times> string" where
  "scan_docs env [] distances collection = (distances, collection)"
| "scan_docs env (None # ds) distances collection = scan_docs env ds distances collection"
| "scan_docs env (Some d # ds) distances collection =
     scan_docs env ds
       (case doc_distance env d of None \<Rightarrow> distances | Some x \<Rightarrow> distances @ [x])
       (case doc_collection env d of None \<Rightarrow> collection | Some s \<Rightarrow> if s = [] then collection else s)"

definition distance_stats :: "rat list \<Rightarrow> attr list" where
  "distance_stats distances =
     (let s = sort distances
      in [(''retrieval.distance.min'', AttrFloat (s ! 0)), (''retrieval.distance.max'', AttrFloat (s ! (length s - 1))),
          (''retrieval.distance.avg'', AttrFloat (sum_list s / of_nat (length s))),
          (''retrieval.distance.p50'', AttrFloat (percentile s (50 / 100))),
          (''retrieval.distance.p95'', AttrFloat (percentile s (95 / 100)))])"

definition retrieval_summary :: "'j callback_env \<Rightarrow> 'j document option list \<Rightarrow> tel_event list" where
  "retrieval_summary env docs =
     (case scan_docs env docs [] ''unknown'' of (distances, collection) \<Rightarrow>
        [SpanAttrs [(''retrieval.document_count'', AttrInt (int (length docs)))]] @
        (if \<not> ce_metered env then []
         else [Observe ''superbizagent_retrieval_documents'' [(''collection'', AttrText collection)] (of_nat (length docs))] @
              (if docs = [] then [Count ''superbizagent_retrieval_empty_total'' [(''collection'', AttrText collection)] 1] else []) @
              map (Observe ''superbizagent_retrieval_distance'' [(''collection'', AttrText collection)]) distances) @
        [SpanAttrs (if distances = [] then [(''retrieval.distance_missing'', AttrBool (docs \<noteq> []))]
                    else distance_stats distances)])"

definition model_name :: "string option \<Rightarrow> string" where
  "model_name config = (case config of None \<Rightarrow> ''unknown'' | Some m \<Rightarrow> fill m ''unknown'')"

definition model_summary :: "'j callback_env \<Rightarrow> string option \<Rightarrow> (int \<times> int \<times> int) option \<Rightarrow> tel_event list" where
  "model_summary env config usage =
     [SpanAttrs [(''llm.model'', AttrText (model_name config))]] @
     (case usage of
        None \<Rightarrow>
          [SpanAttrs [(''llm.usage_missing'', AttrBool True)]] @
          (if ce_metered env then [Count ''superbizagent_llm_usage_missing_total'' [(''model'', AttrText (model_name config))] 1] else [])
      | Some (prompt, completion, in_all) \<Rightarrow>
          [SpanAttrs [(''llm.token.prompt'', AttrInt prompt), (''llm.token.completion'', AttrInt completion),
                      (''llm.token.total'', AttrInt in_all)]] @
          (if ce_metered env
           then map (\<lambda>(kind, n). Count ''superbizagent_llm_tokens_total''
                    [(''model'', AttrText (model_name config)), (''kind'', AttrText kind)] n)
                  [(''prompt'', prompt), (''completion'', completion), (''total'', in_all)]
           else []))"

definition output_summary :: "'j callback_env \<Rightarrow> run_info option \<Rightarrow> 'j callback_output \<Rightarrow> tel_event list" where
  "output_summary env info output =
     (if is_component ''ChatModel'' info then
        (case output of ModelOutput config usage \<Rightarrow> model_summary env config usage | _ \<Rightarrow> [])
      else if is_component ''Retriever'' info then
        (case output of RetrieverOutput docs \<Rightarrow> retrieval_summary env docs | _ \<Rightarrow> [])
      else [])"

section \<open>The end of a component\<close>

text \<open>The time since the start that the context carries; without one it is the present.\<close>

definition elapsed :: "int option \<Rightarrow> int \<Rightarrow> int" where
  "elapsed started now = (case started of None \<Rightarrow> 0 | Some t \<Rightarrow> now - t)"

definition error_report :: "'j callback_env \<Rightarrow> run_info option \<Rightarrow> go_error \<Rightarrow> tel_event list" where
  "error_report env info e =
     (let error_type = classify_error env (Some e); (component, name) = run_info_values info
      in [SpanError e, SpanStatus error_type, SpanAttrs [(''error.type'', AttrText error_type)]] @
         (if \<not> ce_metered env then []
          else [Count ''superbizagent_component_errors_total''
                  [(''component'', AttrText component), (''type'', AttrText (run_info_type info)),
                   (''error_type'', AttrText error_type)] 1] @
               (if is_component ''Tool'' info
                then [Count ''superbizagent_tool_calls_total'' [(''tool'', AttrText name), (''status'', AttrText ''error'')] 1]
                else [])))"

definition finish_eino_span ::
  "'j callback_env \<Rightarrow> int option \<Rightarrow> int \<Rightarrow> run_info option \<Rightarrow> 'j callback_output \<Rightarrow> go_error option \<Rightarrow> tel_event list" where
  "finish_eino_span env started now info output run_err =
     (let (component, name) = run_info_values info
      in (if ce_metered env
          then [Observe ''superbizagent_component_duration_seconds''
                  [(''component'', AttrText component), (''type'', AttrText (run_info_type info))] (seconds (elapsed started now))]
          else []) @
         (case run_err of
            Some e \<Rightarrow> error_report env info e
          | None \<Rightarrow>
              output_summary env info output @
              (if ce_metered env \<and> is_component ''Tool'' info
               then [Count ''superbizagent_tool_calls_total'' [(''tool'', AttrText name), (''status'', AttrText ''ok'')] 1]
               else [])) @
         [SpanEnd])"

definition record_first_token ::
  "'j callback_env \<Rightarrow> run_info option \<Rightarrow> 'j callback_output \<Rightarrow> int \<Rightarrow> tel_event list" where
  "record_first_token env info output duration =
     (if duration = 0 \<or> \<not> is_component ''ChatModel'' info then []
      else let name = (case output of ModelOutput config _ \<Rightarrow> model_name config | _ \<Rightarrow> ''unknown'')
           in [SpanAttrs [(''llm.first_token_seconds'', AttrFloat (seconds duration))]] @
              (if ce_metered env
               then [Observe ''superbizagent_llm_first_token_seconds'' [(''model'', AttrText name)] (seconds duration)] else []))"

text \<open>
  \<open>observeStream\<close> over the results of \<open>Recv\<close> with the times at which they come; a stream that has not
  ended yet has reported nothing.
\<close>

datatype 'j received = Chunk "'j callback_output" | EndOfStream | StreamError go_error

fun observe_stream ::
  "'j callback_env \<Rightarrow> int option \<Rightarrow> run_info option \<Rightarrow> 'j callback_output \<Rightarrow> int \<Rightarrow> ('j received \<times> int) list \<Rightarrow> tel_event list" where
  "observe_stream env started info lst first_token [] = []"
| "observe_stream env started info lst first_token ((Chunk c, now) # rest) =
     observe_stream env started info c (if first_token = 0 then elapsed started now else first_token) rest"
| "observe_stream env started info lst first_token ((EndOfStream, now) # rest) =
     record_first_token env info lst first_token @ finish_eino_span env started now info lst None"
| "observe_stream env started info lst first_token ((StreamError e, now) # rest) =
     finish_eino_span env started now info lst (Some e)"

text \<open>The handler over the life of one component: \<open>OnStart\<close>, which puts the time into the context, and then
  \<open>OnEnd\<close>, \<open>OnError\<close>, or \<open>OnEndWithStreamOutput\<close>, whose observer reads its own copy of the stream.\<close>

datatype 'j component_end = EndsWith "'j callback_output" | FailsWith go_error | StreamsOut "('j received \<times> int) list"

definition eino_handler ::
  "'j callback_env \<Rightarrow> (string \<Rightarrow> string) \<Rightarrow> run_info option \<Rightarrow> callback_input \<Rightarrow> int \<Rightarrow> 'j component_end \<Rightarrow> int \<Rightarrow> tel_event list" where
  "eino_handler env lower info input started ending now =
     on_start env lower info input @
     (case ending of
        EndsWith out \<Rightarrow> finish_eino_span env (Some started) now info out None
      | FailsWith e \<Rightarrow> finish_eino_span env (Some started) now info OtherOutput (Some e)
      | StreamsOut results \<Rightarrow> observe_stream env (Some started) info OtherOutput 0 results)"

section \<open>Counting events\<close>

fun starts :: "tel_event list \<Rightarrow> nat" where
  "starts [] = 0"
| "starts (SpanStart n # evs) = Suc (starts evs)"
| "starts (_ # evs) = starts evs"

lemma starts_append [simp]: "starts (evs @ evs') = starts evs + starts evs'"
  by (induction evs rule: starts.induct) auto

lemma starts_map_Observe [simp]: "starts (map (Observe n l) xs) = 0"
  by (induction xs) auto


definition ends :: "tel_event list \<Rightarrow> nat" where
  "ends evs = count_list evs SpanEnd"

fun counted :: "string \<Rightarrow> tel_event list \<Rightarrow> (attr list \<times> int) list" where
  "counted name [] = []"
| "counted name (Count n labels v # evs) = (if n = name then [(labels, v)] else []) @ counted name evs"
| "counted name (_ # evs) = counted name evs"

lemma counted_append [simp]: "counted name (evs @ evs') = counted name evs @ counted name evs'"
  by (induction evs rule: counted.induct) auto

lemma ends_append [simp]: "ends (evs @ evs') = ends evs + ends evs'" and ends_Nil [simp]: "ends [] = 0"
  by (simp_all add: ends_def)

lemma ends_SpanAttrs [simp]: "ends (SpanAttrs a # evs) = ends evs" "ends (Count n l v # evs) = ends evs"
  "ends (Observe n l x # evs) = ends evs" "ends (SpanError e # evs) = ends evs" "ends (SpanStatus s # evs) = ends evs"
  "ends (SpanEnd # evs) = Suc (ends evs)"
  by (simp_all add: ends_def)

lemma ends_map_Observe [simp]: "ends (map (Observe n l) xs) = 0" "counted c (map (Observe n l) xs) = []"
  by (induction xs) auto

text \<open>A summary ends no span and counts no call and no error.\<close>

definition reports_only :: "tel_event list \<Rightarrow> bool" where
  "reports_only evs \<longleftrightarrow> starts evs = 0 \<and> ends evs = 0 \<and> counted ''superbizagent_tool_calls_total'' evs = [] \<and>
     counted ''superbizagent_component_errors_total'' evs = []"

lemma reports_only_append [simp]: "reports_only (evs @ evs') \<longleftrightarrow> reports_only evs \<and> reports_only evs'"
  by (auto simp: reports_only_def)

lemma reports_only_simps [simp]:
  "reports_only []" "reports_only (SpanAttrs a # evs) = reports_only evs" "reports_only (Observe n l x # evs) = reports_only evs"
  "reports_only (map (Observe n l) xs)"
  "n \<noteq> ''superbizagent_tool_calls_total'' \<Longrightarrow> n \<noteq> ''superbizagent_component_errors_total'' \<Longrightarrow>
     reports_only (Count n l v # evs) = reports_only evs"
  by (simp_all add: reports_only_def)

lemma reports_only_model: "reports_only (model_summary env config usage)"
  by (cases usage) (auto simp: model_summary_def)

lemma reports_only_retrieval: "reports_only (retrieval_summary env docs)"
  by (auto simp: retrieval_summary_def split: prod.splits)

lemma reports_only_output: "reports_only (output_summary env info out)"
  by (cases out) (auto simp: output_summary_def reports_only_model reports_only_retrieval)

lemma reports_only_first_token: "reports_only (record_first_token env info out d)"
  by (cases out) (auto simp: record_first_token_def Let_def)

section \<open>Properties\<close>

text \<open>What one finished component reports: one end of its span, the last event; one error count exactly when
  it failed; for a tool exactly one call with its status, for any other component none.\<close>

definition reported :: "'j callback_env \<Rightarrow> run_info option \<Rightarrow> go_error option \<Rightarrow> tel_event list \<Rightarrow> bool" where
  "reported env info err evs \<longleftrightarrow>
     evs \<noteq> [] \<and> last evs = SpanEnd \<and> starts evs = 0 \<and> ends evs = 1 \<and>
     map snd (counted ''superbizagent_component_errors_total'' evs) = (if ce_metered env \<and> err \<noteq> None then [1] else []) \<and>
     counted ''superbizagent_tool_calls_total'' evs =
       (if ce_metered env \<and> is_component ''Tool'' info
        then [([(''tool'', AttrText (snd (run_info_values info))),
                (''status'', AttrText (if err = None then ''ok'' else ''error''))], 1)] else [])"

lemma reported_append: "reports_only evs \<Longrightarrow> reported env info err evs' \<Longrightarrow> reported env info err (evs @ evs')"
  by (auto simp: reported_def reports_only_def)

lemma reported_finish: "reported env info err (finish_eino_span env started now info out err)"
proof (cases err)
  case (Some e)
  then show ?thesis
    by (auto simp: reported_def finish_eino_span_def error_report_def Let_def split: prod.splits)
next
  case None
  have "reports_only (output_summary env info out)" by (rule reports_only_output)
  then have o: "starts (output_summary env info out) = 0" "ends (output_summary env info out) = 0"
    "counted ''superbizagent_tool_calls_total'' (output_summary env info out) = []"
    "counted ''superbizagent_component_errors_total'' (output_summary env info out) = []"
    by (simp_all add: reports_only_def)
  show ?thesis
    unfolding None by (auto simp: reported_def finish_eino_span_def Let_def o split: prod.splits)
qed

text \<open>The outcome of a stream: the first result that is not a chunk.\<close>

fun stream_outcome :: "('j received \<times> int) list \<Rightarrow> go_error option option" where
  "stream_outcome [] = None"
| "stream_outcome ((Chunk c, now) # rest) = stream_outcome rest"
| "stream_outcome ((EndOfStream, now) # rest) = Some None"
| "stream_outcome ((StreamError e, now) # rest) = Some (Some e)"

lemma stream_reported:
  "case stream_outcome results of
     None \<Rightarrow> observe_stream env started info out first_token results = []
   | Some err \<Rightarrow> reported env info err (observe_stream env started info out first_token results)"
  by (induction env started info out first_token results rule: observe_stream.induct)
    (simp_all add: reported_finish reported_append reports_only_first_token if_distrib split: option.splits if_splits)

text \<open>Every component is reported exactly once, whether it ends, fails or streams: a stream reports nothing
  before it is over and then, after any number of chunks, what a component with its outcome reports.\<close>

theorem component_reported_once:
  "reported env info err (finish_eino_span env started now info out err) \<and>
   (case stream_outcome results of
      None \<Rightarrow> observe_stream env started info out first_token results = []
    | Some err' \<Rightarrow> reported env info err' (observe_stream env started info out first_token results))"
  using reported_finish stream_reported by blast

text \<open>How a component ends decides what is reported as its outcome.\<close>

fun component_outcome :: "'j component_end \<Rightarrow> go_error option option" where
  "component_outcome (EndsWith out) = Some None"
| "component_outcome (FailsWith e) = Some (Some e)"
| "component_outcome (StreamsOut results) = stream_outcome results"

lemma on_start_shape: "\<exists>n evs. on_start env lower info input = SpanStart n # evs \<and> reports_only evs"
  by (cases input) (auto simp: on_start_def input_summary_def split: prod.splits)

text \<open>(C40) The life of a component in the trace: its span starts once, first, and ends once, last, with the component's
  outcome counted; while its stream runs nothing but the start and the summary of its input is reported.\<close>

theorem component_traced:
  "\<exists>n first report. eino_handler env lower info input started ending now = SpanStart n # first @ report \<and>
     reports_only first \<and>
     (case component_outcome ending of None \<Rightarrow> report = [] | Some err \<Rightarrow> reported env info err report)"
proof -
  obtain n first where o: "on_start env lower info input = SpanStart n # first" "reports_only first"
    using on_start_shape by blast
  have "case component_outcome ending of None \<Rightarrow> report = [] | Some err \<Rightarrow> reported env info err report"
    if "report = (case ending of
        EndsWith out \<Rightarrow> finish_eino_span env (Some started) now info out None
      | FailsWith e \<Rightarrow> finish_eino_span env (Some started) now info OtherOutput (Some e)
      | StreamsOut results \<Rightarrow> observe_stream env (Some started) info OtherOutput 0 results)" for report
    using that reported_finish stream_reported by (cases ending) auto
  from this [OF refl] o(2) show ?thesis unfolding eino_handler_def o(1) append_Cons by blast
qed

text \<open>The index of a percentile stays inside the slice, and a larger quantile has a larger index.\<close>

lemma percentile_index:
  fixes q :: rat
  assumes "0 \<le> q" "q \<le> 1"
  shows "nat \<lfloor>of_nat n * q + 1 / 2\<rfloor> \<le> n"
proof -
  have "of_nat n * q \<le> of_nat n" using assms by (simp add: mult_left_le)
  then have "of_nat n * q + 1 / 2 < of_int (int n + 1)" by simp
  then have "\<lfloor>of_nat n * q + 1 / 2\<rfloor> < int n + 1" by (simp only: floor_less_iff)
  then show ?thesis by simp
qed

lemma percentile_mono:
  assumes "sorted xs" "xs \<noteq> []" "0 \<le> p" "p \<le> q" "q \<le> 1"
  shows "xs ! 0 \<le> percentile xs p \<and> percentile xs p \<le> percentile xs q \<and> percentile xs q \<le> xs ! (length xs - 1)"
proof -
  let ?i = "\<lambda>q. nat \<lfloor>of_nat (length xs - 1) * q + 1 / 2 :: rat\<rfloor>"
  have "of_nat (length xs - 1) * p \<le> of_nat (length xs - 1) * q" using assms(4) by (simp add: mult_left_mono)
  then have le: "?i p \<le> ?i q" by (intro nat_mono floor_mono) simp
  have "?i q \<le> length xs - 1" using assms by (intro percentile_index) auto
  with le assms(2) have lt: "?i p < length xs" "?i q < length xs" by (cases xs, auto)+
  show ?thesis
    unfolding percentile_def using assms(1,2) le lt \<open>?i q \<le> length xs - 1\<close>
    by (auto intro!: sorted_nth_mono)
qed

lemma sum_list_bounds:
  fixes xs :: "rat list"
  assumes "\<forall>x \<in> set xs. lo \<le> x \<and> x \<le> hi"
  shows "of_nat (length xs) * lo \<le> sum_list xs \<and> sum_list xs \<le> of_nat (length xs) * hi"
  using assms by (induction xs) (auto simp: algebra_simps)

text \<open>The reported statistics of a retrieval are those of its distances: the smallest and the largest one,
  with the mean and both percentiles between them in order; both percentiles are distances that occurred.\<close>

theorem retrieval_statistics_ordered:
  assumes "distances \<noteq> []"
  shows "\<exists>lo hi avg p50 p95. distance_stats distances =
      [(''retrieval.distance.min'', AttrFloat lo), (''retrieval.distance.max'', AttrFloat hi),
       (''retrieval.distance.avg'', AttrFloat avg), (''retrieval.distance.p50'', AttrFloat p50),
       (''retrieval.distance.p95'', AttrFloat p95)] \<and>
    lo = Min (set distances) \<and> hi = Max (set distances) \<and> lo \<le> avg \<and> avg \<le> hi \<and>
    lo \<le> p50 \<and> p50 \<le> p95 \<and> p95 \<le> hi \<and> {p50, p95} \<subseteq> set distances"
proof -
  define s where "s = sort distances"
  have s: "sorted s" "s \<noteq> []" "set s = set distances" "length s = length distances"
  proof -
    have "length s = length distances" by (simp add: s_def)
    with assms show "s \<noteq> []" "length s = length distances" by auto
    show "sorted s" "set s = set distances" by (simp_all add: s_def)
  qed
  have all: "\<forall>x \<in> set s. s ! 0 \<le> x \<and> x \<le> s ! (length s - 1)"
    using s(1,2) by (auto simp: in_set_conv_nth intro!: sorted_nth_mono)
  have "s ! 0 \<in> set distances" "s ! (length s - 1) \<in> set distances"
    using s(2) by (simp_all add: s(3) [symmetric])
  then have ends: "s ! 0 = Min (set distances)" "s ! (length s - 1) = Max (set distances)"
    using all s by (auto intro!: Min_eqI [symmetric] Max_eqI [symmetric])
  have pos: "(0 :: rat) < of_nat (length s)" using s(2) by simp
  have avg: "s ! 0 \<le> sum_list s / of_nat (length s)" "sum_list s / of_nat (length s) \<le> s ! (length s - 1)"
    using sum_list_bounds [OF all] pos by (auto simp: field_simps)
  have per: "s ! 0 \<le> percentile s (50 / 100)" "percentile s (50 / 100) \<le> percentile s (95 / 100)"
    "percentile s (95 / 100) \<le> s ! (length s - 1)"
    using percentile_mono [OF s(1,2), of "50 / 100" "95 / 100"] by auto
  have "percentile s q \<in> set s" if "0 \<le> q" "q \<le> 1" for q
    using percentile_index [OF that, of "length s - 1"] s(2)
    by (auto simp: percentile_def intro!: nth_mem) (metis One_nat_def Suc_pred le_imp_less_Suc length_greater_0_conv)
  then have "{percentile s (50 / 100), percentile s (95 / 100)} \<subseteq> set distances" using s(3) by auto
  with ends avg per show ?thesis by (simp add: distance_stats_def s_def [symmetric] Let_def)
qed

theorem retrieval_statistics_ordered_witness:
  "distance_stats [3, 1, 2] =
     [(''retrieval.distance.min'', AttrFloat 1), (''retrieval.distance.max'', AttrFloat 3),
      (''retrieval.distance.avg'', AttrFloat 2), (''retrieval.distance.p50'', AttrFloat 2),
      (''retrieval.distance.p95'', AttrFloat 3)] \<and> Min (set [3, 1, 2 :: rat]) = 1"
proof -
  have fl: "\<lfloor>3 / 2 :: rat\<rfloor> = 1" "\<lfloor>12 / 5 :: rat\<rfloor> = 2" by (simp_all add: floor_eq_iff)
  have "[3, 1, 2 :: rat] \<noteq> []" by simp
  from retrieval_statistics_ordered [OF this] show ?thesis
    by (auto simp: distance_stats_def percentile_def Let_def fl)
qed

text \<open>What a tool is asked and what it answers stays out of the telemetry: two runs with arguments of the same
  length and hash send the same events, whatever the outputs are.\<close>

lemma tool_content_not_exported:
  assumes "is_component ''Tool'' info" "length args = length args'" "ce_sha256 env args = ce_sha256 env args'"
  shows "on_start env lower info (ToolInput args) @ finish_eino_span env started now info out None =
    on_start env lower info (ToolInput args') @ finish_eino_span env started now info out' None"
proof -
  have "output_summary env info o' = []" for o'
    using assms(1) by (auto simp: output_summary_def is_component_def split: option.splits)
  with assms(2,3) show ?thesis by (simp add: on_start_def input_summary_def hash_text_def finish_eino_span_def)
qed

end
