(* ===== verification/Store_Config.thy ===== *)
theory Store_Config
  imports Resources Store_Properties Redis_Lock
begin

text \<open>
  The configuration of the conversation store and its wiring, internal/conversation/config.go and
  postgres.go: parsing and validating the values, and opening the database and the Redis client, with the
  clean-up of every step that fails. What a driver answers is a parameter. The opened store is one of the
  stores of the other theories.
\<close>

section \<open>The configuration\<close>

record store_config =
  stc_backend :: string
  stc_dsn :: string
  stc_max_messages :: int
  stc_redis_url :: string
  stc_cache_ttl :: int

abbreviation minute :: int where
  "minute \<equiv> 60 * second"

definition parse_max_messages :: "(string \<Rightarrow> int option) \<Rightarrow> string \<Rightarrow> int result" where
  "parse_max_messages atoi v =
     (let raw = trim_space v
      in if raw = [] then Inr 20
         else case atoi raw of
                None \<Rightarrow> Inl (ErrText (''invalid conversation max_messages: '' @ raw))
              | Some n \<Rightarrow> if n < 2 then Inl (ErrText (''invalid conversation max_messages: '' @ raw)) else Inr n)"

definition parse_cache_ttl :: "(string \<Rightarrow> int option) \<Rightarrow> string \<Rightarrow> int result" where
  "parse_cache_ttl parse_duration v =
     (let raw = trim_space v
      in if raw = [] then Inr (5 * minute)
         else case parse_duration raw of
                None \<Rightarrow> Inl (ErrText (''invalid conversation cache_ttl: '' @ raw))
              | Some d \<Rightarrow> if d \<le> 0 then Inl (ErrText (''invalid conversation cache_ttl: '' @ raw)) else Inr d)"

text \<open>\<open>ParseStoreConfig\<close>; a missing key of the map is the empty string.\<close>

definition parse_store_config ::
  "(string \<Rightarrow> int option) \<Rightarrow> (string \<Rightarrow> int option) \<Rightarrow> (string \<Rightarrow> string) \<Rightarrow> store_config result" where
  "parse_store_config atoi parse_duration values =
     (let raw = trim_space (values ''backend'');
          backend = (if raw = [] then ''memory'' else to_lower raw);
          dsn = trim_space (values ''dsn'')
      in if backend \<noteq> ''memory'' \<and> backend \<noteq> ''postgres'' then Inl (ErrWrap backend ErrConversationBackend)
         else if backend = ''postgres'' \<and> dsn = [] then Inl ErrPostgresDSNRequired
         else case parse_max_messages atoi (values ''max_messages'') of Inl e \<Rightarrow> Inl e | Inr mx \<Rightarrow>
          (case parse_cache_ttl parse_duration (values ''cache_ttl'') of Inl e \<Rightarrow> Inl e | Inr ttl \<Rightarrow>
           Inr \<lparr>stc_backend = backend, stc_dsn = dsn,
                stc_max_messages = (if mx mod 2 \<noteq> 0 then mx - 1 else mx),
                stc_redis_url = trim_space (values ''redis_url''), stc_cache_ttl = ttl\<rparr>))"

definition config_paths :: "(string \<times> string) list" where
  "config_paths =
     [(''backend'', ''conversation.backend''), (''dsn'', ''conversation.postgres.dsn''),
      (''max_messages'', ''conversation.max_messages''), (''redis_url'', ''conversation.redis.url''),
      (''cache_ttl'', ''conversation.redis.cache_ttl'')]"

text \<open>\<open>LoadStoreConfig\<close>: \<open>get\<close> is the configuration service; a failing or nil value is left out.\<close>

definition load_store_config ::
  "(string \<Rightarrow> int option) \<Rightarrow> (string \<Rightarrow> int option) \<Rightarrow> (string \<Rightarrow> string option result) \<Rightarrow> store_config result" where
  "load_store_config atoi parse_duration get =
     parse_store_config atoi parse_duration
       (\<lambda>key. case map_of config_paths key of
                None \<Rightarrow> []
              | Some path \<Rightarrow> (case get path of Inr (Some v) \<Rightarrow> v | _ \<Rightarrow> []))"

section \<open>Opening the store\<close>

datatype connection = Database | RedisClient

text \<open>The answers of the drivers: parsing the DSN and the URL, and the two pings.\<close>

record driver =
  dr_parse_dsn :: "string \<Rightarrow> go_error option"
  dr_ping_db :: "go_error option"
  dr_parse_url :: "string \<Rightarrow> go_error option"
  dr_ping_redis :: "go_error option"

definition open_postgres :: "driver \<Rightarrow> string \<Rightarrow> connection handle_event list \<times> unit result" where
  "open_postgres d dsn =
     (case dr_parse_dsn d dsn of
        Some e \<Rightarrow> ([], Inl e)
      | None \<Rightarrow>
          (case dr_ping_db d of
             Some e \<Rightarrow> ([Opened Database, Closed Database], Inl e)
           | None \<Rightarrow> ([Opened Database], Inr ())))"

text \<open>The configured store: a cached store is its primary with the effective time to live.\<close>

datatype configured_store = InMemory memory_store | OverSQL sql_store | OverCache sql_store int

record store_resources =
  sre_store :: configured_store
  sre_db :: bool
  sre_locker :: "locker option"

definition new_redis_cache :: "bool \<Rightarrow> unit result" where
  "new_redis_cache client_given = (if \<not> client_given then Inl ErrRedisClient else Inr ())"

text \<open>The Redis part of \<open>OpenConfiguredStoreResources\<close>: URL, client, ping, cache and locker.\<close>

definition open_redis ::
  "driver \<Rightarrow> store_config \<Rightarrow> sql_store \<Rightarrow> connection handle_event list \<times> store_resources result" where
  "open_redis d cfg store =
     (case dr_parse_url d (stc_redis_url cfg) of
        Some e \<Rightarrow> ([Closed Database], Inl (ErrWrap ''parse conversation redis URL: '' e))
      | None \<Rightarrow>
          (case dr_ping_redis d of
             Some e \<Rightarrow> ([Opened RedisClient, Closed RedisClient, Closed Database],
                         Inl (ErrWrap ''ping conversation redis: '' e))
           | None \<Rightarrow>
               (case new_redis_cache True of
                  Inl e \<Rightarrow> ([Opened RedisClient, Closed RedisClient, Closed Database], Inl e)
                | Inr _ \<Rightarrow>
               (case new_redis_locker True (30 * second) of
                  Inl e \<Rightarrow> ([Opened RedisClient, Closed RedisClient, Closed Database], Inl e)
                | Inr lk \<Rightarrow> ([Opened RedisClient],
                    Inr \<lparr>sre_store = OverCache store (cached_ttl (stc_cache_ttl cfg)), sre_db = True,
                         sre_locker = Some lk\<rparr>)))))"

definition open_resources ::
  "driver \<Rightarrow> store_config \<Rightarrow> sql_tables \<Rightarrow> nat \<Rightarrow> (nat \<Rightarrow> sql_outcome) \<Rightarrow>
   connection handle_event list \<times> store_resources result" where
  "open_resources d cfg tables seq fault =
     (if stc_backend cfg = ''memory''
      then ([], Inr \<lparr>sre_store = InMemory (new_memory_store (stc_max_messages cfg)), sre_db = False, sre_locker = None\<rparr>)
      else if stc_backend cfg \<noteq> ''postgres'' then ([], Inl (ErrWrap (stc_backend cfg) ErrConversationBackend))
      else case open_postgres d (stc_dsn cfg) of
             (evs, Inl e) \<Rightarrow> (evs, Inl e)
           | (evs, Inr _) \<Rightarrow>
               (case new_sql_store True (stc_max_messages cfg) tables seq fault of
                  Inl e \<Rightarrow> (evs @ [Closed Database], Inl e)
                | Inr store \<Rightarrow>
                    if stc_redis_url cfg = []
                    then (evs, Inr \<lparr>sre_store = OverSQL store, sre_db = True, sre_locker = None\<rparr>)
                    else (case open_redis d cfg store of (evs', r) \<Rightarrow> (evs @ evs', r))))"

text \<open>\<open>OpenConfiguredStore\<close> hands out the store and the database, not the locker.\<close>

definition open_configured_store ::
  "driver \<Rightarrow> store_config \<Rightarrow> sql_tables \<Rightarrow> nat \<Rightarrow> (nat \<Rightarrow> sql_outcome) \<Rightarrow>
   connection handle_event list \<times> (configured_store \<times> bool) result" where
  "open_configured_store d cfg tables seq fault =
     (case open_resources d cfg tables seq fault of
        (evs, Inl e) \<Rightarrow> (evs, Inl e)
      | (evs, Inr rs) \<Rightarrow> (evs, Inr (sre_store rs, sre_db rs)))"

section \<open>Properties\<close>

lemma parse_max_bounds: "parse_max_messages atoi v = Inr n \<Longrightarrow> 2 \<le> n"
  by (auto simp: parse_max_messages_def Let_def split: if_splits option.splits)

lemma parse_ttl_pos: "parse_cache_ttl dur v = Inr d \<Longrightarrow> 0 < d"
  by (auto simp: parse_cache_ttl_def Let_def split: if_splits option.splits)

text \<open>What every accepted configuration satisfies, and how a rejected one is told.\<close>

definition well_formed_config :: "store_config \<Rightarrow> bool" where
  "well_formed_config cfg \<longleftrightarrow>
     stc_backend cfg \<in> {''memory'', ''postgres''} \<and> (stc_backend cfg = ''postgres'' \<longrightarrow> stc_dsn cfg \<noteq> []) \<and>
     even (stc_max_messages cfg) \<and> 2 \<le> stc_max_messages cfg \<and> 0 < stc_cache_ttl cfg \<and>
     trim_space (stc_dsn cfg) = stc_dsn cfg \<and> trim_space (stc_redis_url cfg) = stc_redis_url cfg"

lemma parse_store_config_wf: 
  assumes "parse_store_config atoi dur values = Inr cfg"
  shows "well_formed_config cfg"
proof -
  define raw where "raw = trim_space (values ''backend'')"
  define backend where "backend = (if raw = [] then ''memory'' else to_lower raw)"
  obtain mx ttl where b: "backend = ''memory'' \<or> backend = ''postgres''"
    and d: "backend = ''postgres'' \<Longrightarrow> trim_space (values ''dsn'') \<noteq> []"
    and m: "parse_max_messages atoi (values ''max_messages'') = Inr mx"
    and t: "parse_cache_ttl dur (values ''cache_ttl'') = Inr ttl"
    and cfg: "cfg = \<lparr>stc_backend = backend, stc_dsn = trim_space (values ''dsn''),
      stc_max_messages = (if mx mod 2 \<noteq> 0 then mx - 1 else mx),
      stc_redis_url = trim_space (values ''redis_url''), stc_cache_ttl = ttl\<rparr>"
    using assms unfolding parse_store_config_def Let_def raw_def [symmetric] backend_def [symmetric]
    by (auto split: if_splits sum.splits)
  from parse_max_bounds [OF m] have "even (stc_max_messages cfg)" "2 \<le> stc_max_messages cfg"
    unfolding cfg by (auto, presburger)
  with b d parse_ttl_pos [OF t] show ?thesis unfolding well_formed_config_def by (auto simp: cfg)
qed

text \<open>The stores of a well-formed configuration keep its numbers: no constructor clamps them.\<close>

lemma wf_config_kept:
  assumes "well_formed_config cfg"
  shows "ms_max (new_memory_store (stc_max_messages cfg)) = stc_max_messages cfg"
    and "\<exists>store. new_sql_store True (stc_max_messages cfg) tables seq fault = Inr store \<and>
      ss_max store = stc_max_messages cfg"
    and "cached_ttl (stc_cache_ttl cfg) = stc_cache_ttl cfg"
  using assms by (auto simp: well_formed_config_def new_memory_store_def new_sql_store_def cached_ttl_def)

definition store_of :: "store_config \<Rightarrow> configured_store \<Rightarrow> bool" where
  "store_of cfg st =
     (case st of
        InMemory m \<Rightarrow> stc_backend cfg = ''memory'' \<and> ms_max m = stc_max_messages cfg
      | OverSQL s \<Rightarrow> stc_backend cfg = ''postgres'' \<and> stc_redis_url cfg = [] \<and> ss_max s = stc_max_messages cfg
      | OverCache s ttl \<Rightarrow> stc_backend cfg = ''postgres'' \<and> stc_redis_url cfg \<noteq> [] \<and>
          ss_max s = stc_max_messages cfg \<and> ttl = stc_cache_ttl cfg)"

text \<open>The handles that the resources hold.\<close>

definition held_handles :: "store_resources \<Rightarrow> connection list" where
  "held_handles rs = (case sre_store rs of OverCache s ttl \<Rightarrow> [RedisClient] | _ \<Rightarrow> []) @ (if sre_db rs then [Database] else [])"

lemma open_redis_cases:
  "open_redis d cfg store = (evs, r) \<Longrightarrow>
     open_from [Database] evs = (case r of Inl e \<Rightarrow> [] | Inr rs \<Rightarrow> held_handles rs) \<and>
     (\<forall>rs. r = Inr rs \<longrightarrow> sre_store rs = OverCache store (cached_ttl (stc_cache_ttl cfg)) \<and> sre_db rs \<and> sre_locker rs \<noteq> None)"
  by (auto simp: open_redis_def new_redis_cache_def new_redis_locker_def Let_def held_handles_def split: option.splits)

lemma open_postgres_cases:
  "open_postgres d dsn = (evs, r) \<Longrightarrow> open_after evs = (case r of Inl e \<Rightarrow> [] | Inr _ \<Rightarrow> [Database])"
  by (auto simp: open_postgres_def open_after_def split: option.splits)

lemma open_resources_cases:
  assumes "open_resources d cfg tables seq fault = (evs, r)"
  shows "open_after evs = (case r of Inl e \<Rightarrow> [] | Inr rs \<Rightarrow> held_handles rs) \<and>
    (\<forall>rs. r = Inr rs \<longrightarrow> well_formed_config cfg \<longrightarrow> store_of cfg (sre_store rs) \<and>
       (sre_locker rs \<noteq> None \<longleftrightarrow> RedisClient \<in> set (held_handles rs)))"
proof (cases "stc_backend cfg = ''postgres''")
  case False
  with assms show ?thesis
    by (auto simp: open_resources_def held_handles_def store_of_def wf_config_kept split: if_splits)
next
  case True
  obtain evs1 r1 where pg: "open_postgres d (stc_dsn cfg) = (evs1, r1)" by fastforce
  note pg1 = open_postgres_cases [OF pg]
  obtain store where st: "new_sql_store True (stc_max_messages cfg) tables seq fault = Inr store"
    by (auto simp: new_sql_store_def Let_def)
  have mx: "ss_max store = stc_max_messages cfg" if "well_formed_config cfg"
    using wf_config_kept(2) [OF that, of tables seq fault] st by auto
  show ?thesis
  proof (cases r1)
    case (Inl e)
    with assms True pg pg1 show ?thesis by (auto simp: open_resources_def)
  next
    case (Inr u)
    show ?thesis
    proof (cases "stc_redis_url cfg = []")
      case True': True
      with assms True pg pg1 st Inr mx show ?thesis
        by (auto simp: open_resources_def held_handles_def store_of_def)
    next
      case False
      obtain evs2 r2 where rd: "open_redis d cfg store = (evs2, r2)" by fastforce
      have run: "evs = evs1 @ evs2" "r = r2" using assms True pg st Inr False rd by (auto simp: open_resources_def)
      from open_redis_cases [OF rd] pg1 Inr have "open_after evs = (case r of Inl e \<Rightarrow> [] | Inr rs \<Rightarrow> held_handles rs)"
        by (simp add: run open_after_append)
      with open_redis_cases [OF rd] False True mx show ?thesis
        by (auto simp: run store_of_def held_handles_def wf_config_kept)
    qed
  qed
qed

text \<open>(C38) Every accepted configuration is well formed, so the window of the store it opens is exactly the
  configured one and its cache lives exactly as long; the backend is one of the two, PostgreSQL has a DSN,
  and a locker comes exactly with a Redis URL.\<close>

theorem accepted_config_opens_its_store:
  assumes "parse_store_config atoi dur values = Inr cfg"
    and "open_resources d cfg tables seq fault = (evs, Inr rs)"
  shows "well_formed_config cfg \<and> store_of cfg (sre_store rs) \<and>
    (sre_locker rs \<noteq> None \<longleftrightarrow> stc_backend cfg = ''postgres'' \<and> stc_redis_url cfg \<noteq> [])"
  using parse_store_config_wf [OF assms(1)] open_resources_cases [OF assms(2)]
  by (cases "sre_store rs") (auto simp: store_of_def held_handles_def)

definition sample_values :: "string \<Rightarrow> string" where
  "sample_values key =
     (if key = ''backend'' then ''Postgres'' else if key = ''dsn'' then '' dsn''
      else if key = ''max_messages'' then ''7'' else if key = ''redis_url'' then ''url'' else [])"

definition sample_driver :: driver where
  "sample_driver = \<lparr>dr_parse_dsn = (\<lambda>_. None), dr_ping_db = None, dr_parse_url = (\<lambda>_. None), dr_ping_redis = None\<rparr>"

definition sample_config :: store_config where
  "sample_config = \<lparr>stc_backend = ''postgres'', stc_dsn = ''dsn'', stc_max_messages = 6, stc_redis_url = ''url'',
     stc_cache_ttl = 5 * minute\<rparr>"

theorem accepted_config_opens_its_store_witness:
  "\<exists>evs rs. parse_store_config (\<lambda>_. Some 7) (\<lambda>_. None) sample_values = Inr sample_config \<and>
    open_resources sample_driver sample_config \<lparr>t_conversations = Map.empty, t_messages = [], t_idempotency = Map.empty\<rparr>
      0 (\<lambda>_. StmtOk) = (evs, Inr rs) \<and> store_of sample_config (sre_store rs) \<and> sre_locker rs \<noteq> None"
proof -
  let ?t = "\<lparr>t_conversations = Map.empty, t_messages = [], t_idempotency = Map.empty\<rparr> :: sql_tables"
  have trims: "trim_space ''Postgres'' = ''Postgres''" "trim_space '' dsn'' = ''dsn''" "trim_space ''7'' = ''7''"
    "trim_space ''url'' = ''url''" "to_lower ''Postgres'' = ''postgres''" by code_simp+
  have parse: "parse_store_config (\<lambda>_. Some 7) (\<lambda>_. None) sample_values = Inr sample_config"
    by (simp add: parse_store_config_def parse_max_messages_def parse_cache_ttl_def sample_values_def sample_config_def
        trims Let_def del: to_lower.simps)
  obtain evs rs where run: "open_resources sample_driver sample_config ?t 0 (\<lambda>_. StmtOk) = (evs, Inr rs)"
    by (auto simp: open_resources_def sample_driver_def sample_config_def open_postgres_def new_sql_store_def
        open_redis_def new_redis_cache_def new_redis_locker_def Let_def)
  from accepted_config_opens_its_store [OF parse run] parse run show ?thesis
    by (auto simp: sample_config_def)
qed

text \<open>Opening the resources leaks nothing: a step that fails has every connection closed that was opened
  before it, and a success leaves open exactly the connections that the resources hold.\<close>

theorem store_opening_leaks_nothing:
  "open_after (fst (open_resources d cfg tables seq fault)) =
     (case snd (open_resources d cfg tables seq fault) of Inl e \<Rightarrow> [] | Inr rs \<Rightarrow> held_handles rs)"
  using open_resources_cases [of d cfg tables seq fault] by (cases "open_resources d cfg tables seq fault") auto

end
