(* ===== verification/Server.thy ===== *)
theory Server
  imports Store_Config Observability Chat_Controller Auth
begin

text \<open>
  The server process, main.go, and the constructor of the chat controller: what is built in which order,
  which failures end the process, and what the deferred calls close on every way out. Authentication, the
  store and the telemetry are the constructors of the other theories; the agent runtime's construction and
  the answers of the drivers are parameters.
\<close>

section \<open>The controller\<close>

record controller =
  co_store :: configured_store
  co_limiter :: run_limiter
  co_loops :: registry
  co_locker :: "locker option"
  co_runtime :: "runtime option"

definition new_controller :: "runtime option \<Rightarrow> configured_store option \<Rightarrow> locker option \<Rightarrow> controller" where
  "new_controller rt store lk =
     \<lparr>co_store = (case store of None \<Rightarrow> InMemory (new_memory_store 6) | Some s \<Rightarrow> s),
      co_limiter = new_run_limiter 100,
      co_loops = new_turn_loop_registry 128 (30 * minute),
      co_locker = lk, co_runtime = rt\<rparr>"

section \<open>The process\<close>

datatype server_handle = AgentRuntime | Exporter exporter | Connection connection | ChatSessions

datatype exit_kind = Served controller | PanicExit

record startup =
  su_auth_config :: "auth_config result"
  su_bcrypt :: bcrypt_lib
  su_runtime :: "runtime result"
  su_telemetry_config :: telemetry_config
  su_telemetry :: telemetry_answers
  su_fallback :: telemetry_answers
  su_file_dir :: "string result"
  su_store_config :: "store_config result"
  su_driver :: driver
  su_tables :: sql_tables
  su_fault :: "nat \<Rightarrow> sql_outcome"

definition lift_events :: "('a \<Rightarrow> 'b) \<Rightarrow> 'a handle_event list \<Rightarrow> 'b handle_event list" where
  "lift_events f evs = map (map_handle_event f) evs"

text \<open>The second \<open>Init\<close> after an error is without exporters; its own error is dropped, and then the shutdown
  function is nil.\<close>

definition fallback_config :: telemetry_config where
  "fallback_config = \<lparr>tc_enabled = False, tc_service = ''superbizagent'', tc_endpoint = [], tc_insecure = False,
     tc_ratio = 1, tc_debug = False\<rparr>"

definition start_telemetry :: "startup \<Rightarrow> server_handle handle_event list \<times> exporter list option" where
  "start_telemetry s =
     (case init_telemetry (su_telemetry s) (su_telemetry_config s) of
        (evs, Inr exporters) \<Rightarrow> (lift_events Exporter evs, Some exporters)
      | (evs, Inl _) \<Rightarrow>
          (case init_telemetry (su_fallback s) fallback_config of
             (evs', Inr exporters) \<Rightarrow> (lift_events Exporter (evs @ evs'), Some exporters)
           | (evs', Inl _) \<Rightarrow> (lift_events Exporter (evs @ evs'), None)))"

text \<open>The part from the file directory on: the store is opened, the server runs, and the deferred calls close
  the sessions, then the cache's client, then the database.\<close>

definition store_closings :: "store_resources \<Rightarrow> server_handle list" where
  "store_closings rs =
     (case sre_store rs of OverCache _ _ \<Rightarrow> [Connection RedisClient] | _ \<Rightarrow> []) @
     (if sre_db rs then [Connection Database] else [])"

definition serve :: "startup \<Rightarrow> runtime \<Rightarrow> server_handle handle_event list \<times> exit_kind" where
  "serve s rt =
     (case su_file_dir s of Inl e \<Rightarrow> ([], PanicExit) | Inr _ \<Rightarrow>
     (case su_store_config s of Inl e \<Rightarrow> ([], PanicExit) | Inr cfg \<Rightarrow>
     (case open_resources (su_driver s) cfg (su_tables s) 0 (su_fault s) of
        (evs, Inl e) \<Rightarrow> (lift_events Connection evs, PanicExit)
      | (evs, Inr rs) \<Rightarrow>
          (lift_events Connection evs @ [Opened ChatSessions] @
           map Closed (ChatSessions # store_closings rs),
           Served (new_controller (Some rt) (Some (sre_store rs)) (sre_locker rs))))))"

text \<open>\<open>main\<close>: a panic runs the deferred calls too; the call of a nil shutdown function is one more panic.\<close>

definition server_main :: "startup \<Rightarrow> server_handle handle_event list \<times> exit_kind" where
  "server_main s =
     (case su_auth_config s of Inl e \<Rightarrow> ([], PanicExit) | Inr auth \<Rightarrow>
     (case new_auth_service (su_bcrypt s) auth of Inl e \<Rightarrow> ([], PanicExit) | Inr service \<Rightarrow>
     (case su_runtime s of Inl e \<Rightarrow> ([], PanicExit) | Inr rt \<Rightarrow>
       (let (tel, shutdown) = start_telemetry s;
            (evs, exit) = serve s rt
        in (Opened AgentRuntime # tel @ evs @
            (case shutdown of None \<Rightarrow> [] | Some exporters \<Rightarrow> map (Closed \<circ> Exporter) exporters) @ [Closed AgentRuntime],
            if shutdown = None then PanicExit else exit)))))"

section \<open>Properties\<close>

lemma open_from_lift:
  assumes "inj f" and "\<And>h. f h \<notin> set rest"
  shows "open_from (map f hs @ rest) (lift_events f evs) = map f (open_from hs evs) @ rest"
proof (induction hs evs rule: open_from.induct)
  case (2 hs h evs)
  then show ?case by (simp add: lift_events_def)
next
  case (3 hs h evs)
  have "remove1 (f h) (map f hs @ rest) = map f (remove1 h hs) @ rest"
    using assms by (induction hs) (auto simp: inj_eq remove1_idem)
  with 3 show ?case by (simp add: lift_events_def)
qed (simp add: lift_events_def)

lemmas open_lift_empty = open_from_lift [where hs = "[]", simplified, folded open_after_def]

lemma inj_Exporter: "inj Exporter" and inj_Connection: "inj Connection"
  by (simp_all add: inj_def)

lemma lift_events_append [simp]: "lift_events f (evs @ evs') = lift_events f evs @ lift_events f evs'"
  by (simp add: lift_events_def)

text \<open>The telemetry leaves open what its shutdown will close and what a failed first attempt had opened.\<close>

lemma start_telemetry_open:
  assumes "start_telemetry s = (tel, shutdown)" and "\<And>x. Exporter x \<notin> set rest"
  shows "\<exists>leaked. open_from rest tel = map Exporter (case shutdown of None \<Rightarrow> [] | Some xs \<Rightarrow> xs) @ map Exporter leaked @ rest \<and>
    ((\<exists>xs. snd (init_telemetry (su_telemetry s) (su_telemetry_config s)) = Inr xs) \<longrightarrow> leaked = [])"
proof -
  obtain evs r where i: "init_telemetry (su_telemetry s) (su_telemetry_config s) = (evs, r)" by fastforce
  obtain evs' r' where f: "init_telemetry (su_fallback s) fallback_config = (evs', r')" by fastforce
  have quiet: "evs' = []" "\<And>xs. r' = Inr xs \<Longrightarrow> xs = []"
    using f by (auto simp: init_telemetry_def fallback_config_def split: sum.splits)
  have open_evs: "open_from rest (lift_events Exporter evs) = map Exporter (open_after evs) @ rest"
    by (rule open_lift_empty [OF inj_Exporter assms(2)])
  show ?thesis
  proof (cases r)
    case (Inl e)
    with assms(1) i f quiet have "tel = lift_events Exporter evs"
      "map Exporter (case shutdown of None \<Rightarrow> [] | Some xs \<Rightarrow> xs) = []"
      by (auto simp: start_telemetry_def lift_events_def split: sum.splits)
    with open_evs i Inl show ?thesis by (intro exI [of _ "open_after evs"]) simp
  next
    case (Inr xs)
    with assms(1) i init_telemetry_open [OF i] open_evs show ?thesis
      by (intro exI [of _ "[]"]) (auto simp: start_telemetry_def)
  qed
qed

lemma serve_open:
  assumes "serve s rt = (evs, exit)" and "\<And>x. Connection x \<notin> set rest" and "ChatSessions \<notin> set rest"
  shows "open_from rest evs = rest \<and>
    (\<forall>c. exit = Served c \<longrightarrow> co_runtime c = Some rt \<and> (\<exists>before after. evs = before @ Closed ChatSessions # after \<and>
       (\<forall>x. Closed (Connection x) \<notin> set before) \<and> (\<forall>h. Opened h \<notin> set after)))"
proof (cases "\<exists>d cfg. su_file_dir s = Inr d \<and> su_store_config s = Inr cfg")
  case False
  with assms show ?thesis by (auto simp: serve_def split: sum.splits)
next
  case True
  then obtain d cfg where ok: "su_file_dir s = Inr d" "su_store_config s = Inr cfg" by blast
  obtain cevs r where op: "open_resources (su_driver s) cfg (su_tables s) 0 (su_fault s) = (cevs, r)" by fastforce
  note open_cevs = open_lift_empty [OF inj_Connection assms(2), of cevs]
  show ?thesis
  proof (cases r)
    case (Inl e)
    with assms(1) ok op open_resources_cases [OF op] open_cevs show ?thesis by (auto simp: serve_def)
  next
    case (Inr rs)
    have evs: "evs = (lift_events Connection cevs @ [Opened ChatSessions]) @ Closed ChatSessions # map Closed (store_closings rs)"
      and exit: "exit = Served (new_controller (Some rt) (Some (sre_store rs)) (sre_locker rs))"
      using assms(1) ok op Inr by (auto simp: serve_def)
    have held: "map Connection (held_handles rs) = store_closings rs"
      by (auto simp: held_handles_def store_closings_def split: configured_store.splits)
    have "open_after cevs = held_handles rs" using open_resources_cases [OF op] Inr by simp
    with open_cevs held have "open_from rest evs = open_from (store_closings rs @ rest) (map Closed (store_closings rs))"
      unfolding evs by simp
    then have "open_from rest evs = rest" by (simp add: open_from_close_all)
    moreover have "Closed (Connection x) \<notin> set (lift_events Connection cevs @ [Opened ChatSessions])" for x
      using op Inr by (auto simp: open_resources_def open_postgres_def open_redis_def lift_events_def
          split: if_splits sum.splits option.splits prod.splits)
    moreover have "Opened h \<notin> set (map Closed (store_closings rs))" for h by auto
    moreover have "co_runtime c = Some rt" if "exit = Served c" for c
      using that unfolding exit by (auto simp: new_controller_def)
    ultimately show ?thesis using evs by blast
  qed
qed


definition good_answers :: telemetry_answers where
  "good_answers = \<lparr>ta_resource = (\<lambda>_. None), ta_exporter = (\<lambda>_ _ _. None), ta_instrument = (\<lambda>_. None)\<rparr>"

definition sample_auth :: auth_config where
  "sample_auth = \<lparr>ac_issuer = ''superbizagent-local'', ac_secret = replicate 32 (CHR ''s''), ac_ttl = 1, ac_users = []\<rparr>"

definition sample_startup :: startup where
  "sample_startup =
     \<lparr>su_auth_config = Inr sample_auth,
      su_bcrypt = \<lparr>bc_compare = (\<lambda>_ _. None), bc_cost = (\<lambda>_. Inr 10)\<rparr>,
      su_runtime = Inr \<lparr>rt_agent = True, rt_resources = []\<rparr>,
      su_telemetry_config = fallback_config\<lparr>tc_enabled := True\<rparr>, su_telemetry = good_answers, su_fallback = good_answers,
      su_file_dir = Inr ''docs'', su_store_config = Inr sample_config,
      su_driver = sample_driver\<lparr>dr_ping_redis := Some (ErrExternal ''redis: connection refused'')\<rparr>,
      su_tables = \<lparr>t_conversations = Map.empty, t_messages = [], t_idempotency = Map.empty\<rparr>,
      su_fault = (\<lambda>_. StmtOk)\<rparr>"


end
