(* ===== verification/Http_Routes.thy ===== *)
theory Http_Routes
  imports Server
begin

text \<open>
  The routes of the server: the requests of api/, bound in main.go to two groups with their middleware
  (utility/middleware, internal/auth/middleware.go). A middleware maps the rest of the chain, which it calls
  as \<open>Next\<close>, to the chain with it; the web framework itself runs the middleware of a group in order around
  the bound method and answers 404 when no route has the method and path. The bound methods are an argument,
  so that what holds for every choice of them is what the middleware guarantees.
\<close>

section \<open>The routes\<close>

datatype endpoint = LoginRoute | ChatRoute | ChatStreamRoute | UploadRoute | OpsRoute

instantiation endpoint :: enum
begin

definition enum_endpoint :: "endpoint list" where
  "enum_endpoint = [LoginRoute, ChatRoute, ChatStreamRoute, UploadRoute, OpsRoute]"

definition enum_all_endpoint :: "(endpoint \<Rightarrow> bool) \<Rightarrow> bool" where
  "enum_all_endpoint P \<longleftrightarrow> P LoginRoute \<and> P ChatRoute \<and> P ChatStreamRoute \<and> P UploadRoute \<and> P OpsRoute"

definition enum_ex_endpoint :: "(endpoint \<Rightarrow> bool) \<Rightarrow> bool" where
  "enum_ex_endpoint P \<longleftrightarrow> P LoginRoute \<or> P ChatRoute \<or> P ChatStreamRoute \<or> P UploadRoute \<or> P OpsRoute"

instance
proof
  have u: "(UNIV :: endpoint set) = {LoginRoute, ChatRoute, ChatStreamRoute, UploadRoute, OpsRoute}"
    using endpoint.exhaust by auto
  then show "(UNIV :: endpoint set) = set enum_class.enum" by (simp add: enum_endpoint_def)
  show "distinct (enum_class.enum :: endpoint list)" by (simp add: enum_endpoint_def)
  show "enum_class.enum_all P \<longleftrightarrow> Ball UNIV P" "enum_class.enum_ex P \<longleftrightarrow> Bex UNIV P" for P :: "endpoint \<Rightarrow> bool"
    by (simp_all add: u enum_all_endpoint_def enum_ex_endpoint_def)
qed

end

text \<open>The method and path in the \<open>g.Meta\<close> of a request type.\<close>

fun endpoint_meta :: "endpoint \<Rightarrow> string \<times> string" where
  "endpoint_meta LoginRoute = (''post'', ''/login'')"
| "endpoint_meta ChatRoute = (''post'', ''/chat'')"
| "endpoint_meta ChatStreamRoute = (''post'', ''/chat_stream'')"
| "endpoint_meta UploadRoute = (''post'', ''/upload'')"
| "endpoint_meta OpsRoute = (''post'', ''/ai_ops'')"

text \<open>The fields of the requests and replies, by their JSON names, with their Go types. A field without a name of
  its own keeps the Go name.\<close>

fun endpoint_request :: "endpoint \<Rightarrow> (string \<times> string) list" where
  "endpoint_request ChatRoute = [(''Id'', ''string''), (''Question'', ''string''), (''idempotency_key'', ''string'')]"
| "endpoint_request ChatStreamRoute = [(''Id'', ''string''), (''Question'', ''string''), (''idempotency_key'', ''string'')]"
| "endpoint_request UploadRoute = []"
| "endpoint_request OpsRoute = []"
| "endpoint_request LoginRoute = [(''username'', ''string''), (''password'', ''string'')]"

fun endpoint_reply :: "endpoint \<Rightarrow> (string \<times> string) list" where
  "endpoint_reply LoginRoute =
     [(''access_token'', ''string''), (''token_type'', ''string''), (''expires_in'', ''int64''), (''user_id'', ''string''),
      (''tenant_id'', ''string'')]"
| "endpoint_reply ChatRoute = [(''answer'', ''string'')]"
| "endpoint_reply ChatStreamRoute = []"
| "endpoint_reply UploadRoute = [(''fileName'', ''string''), (''filePath'', ''string''), (''fileSize'', ''int64'')]"
| "endpoint_reply OpsRoute = [(''result'', ''string''), (''detail'', ''[]string'')]"

datatype middleware = Cors | AuthCheck | WrapResponse

record route_group =
  rg_prefix :: string
  rg_middleware :: "middleware list"
  rg_endpoints :: "endpoint list"

definition server_groups :: "route_group list" where
  "server_groups =
     [\<lparr>rg_prefix = ''/api/auth'', rg_middleware = [Cors, WrapResponse], rg_endpoints = [LoginRoute]\<rparr>,
      \<lparr>rg_prefix = ''/api'', rg_middleware = [Cors, AuthCheck, WrapResponse],
       rg_endpoints = [ChatRoute, ChatStreamRoute, UploadRoute, OpsRoute]\<rparr>]"

definition group_routes :: "route_group \<Rightarrow> ((string \<times> string) \<times> middleware list \<times> endpoint) list" where
  "group_routes g =
     map (\<lambda>ep. case endpoint_meta ep of (verb, path) \<Rightarrow> ((verb, rg_prefix g @ path), rg_middleware g, ep)) (rg_endpoints g)"

definition find_route :: "string \<Rightarrow> string \<Rightarrow> (middleware list \<times> endpoint) option" where
  "find_route verb path = map_of (concat (map group_routes server_groups)) (verb, path)"

section \<open>Requests and replies\<close>

record http_request =
  rq_verb :: string
  rq_path :: string
  rq_authorization :: string
  rq_ctx :: ctx

text \<open>What a bound method leaves behind: the content type of the response, its error and its result.\<close>

record 'res handled =
  hd_content_type :: string
  hd_error :: "string option"
  hd_result :: 'res

datatype 'res body = EmptyBody | TextBody string | JsonBody string 'res

record 'res reply =
  rp_status :: int
  rp_cors :: bool
  rp_handled :: "'res handled option"
  rp_body :: "'res body"

type_synonym 'res chain = "http_request \<Rightarrow> 'res reply"

definition not_found :: "'res reply" where
  "not_found = \<lparr>rp_status = 404, rp_cors = False, rp_handled = None, rp_body = EmptyBody\<rparr>"

definition call_endpoint :: "(http_request \<Rightarrow> 'res handled) \<Rightarrow> 'res chain" where
  "call_endpoint f r = \<lparr>rp_status = 200, rp_cors = False, rp_handled = Some (f r), rp_body = EmptyBody\<rparr>"

section \<open>The middleware\<close>

definition cors_middleware :: "'res chain \<Rightarrow> 'res chain" where
  "cors_middleware next_chain r = (next_chain r)\<lparr>rp_cors := True\<rparr>"

text \<open>\<open>WriteStatusExit\<close> ends the request: nothing after the check runs.\<close>

definition check_middleware :: "jwt_lib \<Rightarrow> auth_service \<Rightarrow> int \<Rightarrow> 'res chain \<Rightarrow> 'res chain" where
  "check_middleware jl s now next_chain r =
     (case auth_middleware jl s now (rq_authorization r) (rq_ctx r) of
        Unauthorized why \<Rightarrow> \<lparr>rp_status = 401, rp_cors = False, rp_handled = None, rp_body = TextBody why\<rparr>
      | Proceed c \<Rightarrow> next_chain (r\<lparr>rq_ctx := c\<rparr>))"

definition wrap_middleware :: "'res chain \<Rightarrow> 'res chain" where
  "wrap_middleware next_chain r =
     (let rep = next_chain r
      in case rp_handled rep of
           None \<Rightarrow> rep
         | Some h \<Rightarrow>
             (case response_middleware (hd_content_type h) (hd_error h) (hd_result h) of
                None \<Rightarrow> rep
              | Some (msg, res) \<Rightarrow> rep\<lparr>rp_body := JsonBody msg res\<rparr>))"

fun apply_middleware :: "jwt_lib \<Rightarrow> auth_service \<Rightarrow> int \<Rightarrow> middleware \<Rightarrow> 'res chain \<Rightarrow> 'res chain" where
  "apply_middleware jl s now Cors n = cors_middleware n"
| "apply_middleware jl s now AuthCheck n = check_middleware jl s now n"
| "apply_middleware jl s now WrapResponse n = wrap_middleware n"

definition serve_request ::
  "jwt_lib \<Rightarrow> auth_service \<Rightarrow> int \<Rightarrow> (endpoint \<Rightarrow> http_request \<Rightarrow> 'res handled) \<Rightarrow> 'res chain" where
  "serve_request jl s now methods r =
     (case find_route (rq_verb r) (rq_path r) of
        None \<Rightarrow> not_found
      | Some (ms, ep) \<Rightarrow> foldr (apply_middleware jl s now) ms (call_endpoint (methods ep)) r)"

section \<open>Properties\<close>

lemma route_table:
  "concat (map group_routes server_groups) =
     [((''post'', ''/api/auth/login''), [Cors, WrapResponse], LoginRoute),
      ((''post'', ''/api/chat''), [Cors, AuthCheck, WrapResponse], ChatRoute),
      ((''post'', ''/api/chat_stream''), [Cors, AuthCheck, WrapResponse], ChatStreamRoute),
      ((''post'', ''/api/upload''), [Cors, AuthCheck, WrapResponse], UploadRoute),
      ((''post'', ''/api/ai_ops''), [Cors, AuthCheck, WrapResponse], OpsRoute)]"
  by (simp add: server_groups_def group_routes_def)

lemma route_middleware:
  assumes "find_route verb path = Some (ms, ep)"
  shows "ms = (if ep = LoginRoute then [Cors, WrapResponse] else [Cors, AuthCheck, WrapResponse])"
proof -
  from map_of_SomeD [OF assms [unfolded find_route_def]]
  have "(ms, ep) \<in> snd ` set (concat (map group_routes server_groups))" by force
  then show ?thesis unfolding route_table by auto
qed

text \<open>Every endpoint is reached at its path.\<close>

lemma routes_found:
  "find_route ''post'' ''/api/auth/login'' = Some ([Cors, WrapResponse], LoginRoute)"
  "find_route ''post'' ''/api/chat'' = Some ([Cors, AuthCheck, WrapResponse], ChatRoute)"
  "find_route ''post'' ''/api/chat_stream'' = Some ([Cors, AuthCheck, WrapResponse], ChatStreamRoute)"
  "find_route ''post'' ''/api/upload'' = Some ([Cors, AuthCheck, WrapResponse], UploadRoute)"
  "find_route ''post'' ''/api/ai_ops'' = Some ([Cors, AuthCheck, WrapResponse], OpsRoute)"
  by (simp_all add: find_route_def route_table)

text \<open>The reply to a request that reached its method.\<close>

definition answered :: "'res handled \<Rightarrow> 'res reply" where
  "answered h =
     \<lparr>rp_status = 200, rp_cors = True, rp_handled = Some h,
      rp_body = (case response_middleware (hd_content_type h) (hd_error h) (hd_result h) of
                   None \<Rightarrow> EmptyBody | Some (msg, res) \<Rightarrow> JsonBody msg res)\<rparr>"

definition refused :: "string \<Rightarrow> 'res reply" where
  "refused why = \<lparr>rp_status = 401, rp_cors = True, rp_handled = None, rp_body = TextBody why\<rparr>"

lemma wrap_call: "wrap_middleware (call_endpoint f) r\<lparr>rp_cors := True\<rparr> = answered (f r)"
  by (simp add: wrap_middleware_def call_endpoint_def answered_def Let_def split: option.splits)

text \<open>Every endpoint has exactly one route.\<close>

lemma one_route_each: "\<forall>ep. length (filter (\<lambda>r. snd (snd r) = ep) (concat (map group_routes server_groups))) = 1"
  unfolding route_table by code_simp

text \<open>The JSON decoder of the library matches names without regard to case: no two fields of a type meet.\<close>

lemma endpoint_fields_distinct:
  "\<forall>ep. distinct (map (to_lower \<circ> fst) (endpoint_request ep)) \<and> distinct (map (to_lower \<circ> fst) (endpoint_reply ep))"
  by code_simp

lemma serve_login:
  assumes "find_route (rq_verb r) (rq_path r) = Some (ms, LoginRoute)"
  shows "serve_request jl s now methods r = answered (methods LoginRoute r)"
  using assms route_middleware [OF assms] by (simp add: serve_request_def cors_middleware_def wrap_call)

lemma serve_guarded:
  assumes "find_route (rq_verb r) (rq_path r) = Some (ms, ep)" and "ep \<noteq> LoginRoute"
  shows "serve_request jl s now methods r =
    (case auth_middleware jl s now (rq_authorization r) (rq_ctx r) of
       Unauthorized why \<Rightarrow> refused why
     | Proceed c \<Rightarrow> answered (methods ep (r\<lparr>rq_ctx := c\<rparr>)))"
proof -
  have "ms = [Cors, AuthCheck, WrapResponse]" using route_middleware [OF assms(1)] assms(2) by simp
  with assms(1) show ?thesis
    by (simp add: serve_request_def cors_middleware_def check_middleware_def wrap_call refused_def split: auth_verdict.split)
qed



end
