(* ===== verification/Go_Time.thy ===== *)
theory Go_Time
  imports Prelude
begin

text \<open>
  What the program uses of the package \<open>time\<close>: instants with their zone, the Gregorian calendar, the
  two layouts \<open>time.RFC3339Nano\<close> and \<open>2006-01-02 15:04:05.000000\<close> with \<open>Format\<close> and \<open>Parse\<close>, and the
  saturating difference \<open>Sub\<close>. A layout is the list of its chunks; a chunk is formatted from an instant
  and read back by a reader that returns the rest of the input, so the round trip of a layout is
  composed from one lemma per chunk.

  An instant is its Unix time in nanoseconds and the offset of its zone in seconds, both unbounded:
  \<open>time.Time\<close> holds every instant between the years 0 and 9999.
\<close>

section \<open>The calendar\<close>

definition leap_year :: "int \<Rightarrow> bool" where
  "leap_year y \<longleftrightarrow> y mod 4 = 0 \<and> (y mod 100 \<noteq> 0 \<or> y mod 400 = 0)"

definition month_lengths :: "int \<Rightarrow> int list" where
  "month_lengths y = [31, if leap_year y then 29 else 28, 31, 30, 31, 30, 31, 31, 30, 31, 30, 31]"

definition days_in :: "int \<Rightarrow> int \<Rightarrow> int" where
  "days_in m y = month_lengths y ! nat (m - 1)"

text \<open>The days from 1970-01-01 to the first day of a year, and to a date.\<close>

definition days_to_year :: "int \<Rightarrow> int" where
  "days_to_year y = 365 * (y - 1) + (y - 1) div 4 - (y - 1) div 100 + (y - 1) div 400 - 719162"

definition day_number :: "int \<Rightarrow> int \<Rightarrow> int \<Rightarrow> int" where
  "day_number y m d = days_to_year y + sum_list (take (nat (m - 1)) (month_lengths y)) + d - 1"

text \<open>
  The date of a day: the cycles of 400, 100, 4 and 1 years are cut off one after the other; the last
  day of a cycle of 400 or 4 years belongs to the cycle's last part.
\<close>

definition year_of_day :: "int \<Rightarrow> int \<times> int" where
  "year_of_day n =
     (let d = n + 719162;
          n400 = d div 146097; d1 = d mod 146097;
          n100 = min 3 (d1 div 36524); d2 = d1 - 36524 * n100;
          n4 = d2 div 1461; d3 = d2 mod 1461;
          n1 = min 3 (d3 div 365)
      in (400 * n400 + 100 * n100 + 4 * n4 + n1 + 1, d3 - 365 * n1))"

fun month_of :: "int \<Rightarrow> int list \<Rightarrow> int \<Rightarrow> int \<times> int" where
  "month_of m [] d = (m, d + 1)"
| "month_of m (l # ls) d = (if d < l then (m, d + 1) else month_of (m + 1) ls (d - l))"

definition civil_of_day :: "int \<Rightarrow> int \<times> int \<times> int" where
  "civil_of_day n = (case year_of_day n of (y, yday) \<Rightarrow> (y, month_of 1 (month_lengths y) yday))"

lemma year_split:
  assumes "0 \<le> n100" "n100 \<le> 3" "0 \<le> n4" "n4 \<le> 24" "0 \<le> n1" "n1 \<le> (3::int)"
    and "y = 400 * n400 + 100 * n100 + 4 * n4 + n1 + 1"
  shows "days_to_year y = 146097 * n400 + 36524 * n100 + 1461 * n4 + 365 * n1 - 719162"
    and "leap_year y \<longleftrightarrow> n1 = 3 \<and> (n4 < 24 \<or> n100 = 3)"
proof -
  have "(y - 1) div 4 = 100 * n400 + 25 * n100 + n4" "(y - 1) div 100 = 4 * n400 + n100"
    "(y - 1) div 400 = n400" using assms by linarith+
  note divs = this
  show "days_to_year y = 146097 * n400 + 36524 * n100 + 1461 * n4 + 365 * n1 - 719162"
    unfolding days_to_year_def divs using assms(7) by simp
  have wrap: "(c * q + r) mod c = 0 \<longleftrightarrow> r = c" if "0 < r" "r \<le> c" for c q r :: int
    using that by (cases "r = c") (auto simp: mod_pos_pos_trivial)
  have y: "y = 4 * (100 * n400 + 25 * n100 + n4) + (n1 + 1)" "y = 100 * (4 * n400 + n100) + (4 * n4 + n1 + 1)"
    "y = 400 * n400 + (100 * n100 + 4 * n4 + n1 + 1)" using assms(7) by simp_all
  have m4: "y mod 4 = 0 \<longleftrightarrow> n1 = 3"
    unfolding y(1) by (subst wrap) (use assms in auto)
  have m100: "y mod 100 = 0 \<longleftrightarrow> n4 = 24 \<and> n1 = 3"
    unfolding y(2) by (subst wrap) (use assms(3-6) in linarith | use assms(3-6) in arith)+
  have m400: "y mod 400 = 0 \<longleftrightarrow> n100 = 3 \<and> n4 = 24 \<and> n1 = 3"
    unfolding y(3) by (subst wrap) (use assms(1-6) in linarith | use assms(1-6) in arith)+
  show "leap_year y \<longleftrightarrow> n1 = 3 \<and> (n4 < 24 \<or> n100 = 3)"
    unfolding leap_year_def using m4 m100 m400 assms(4) by auto
qed

lemma year_of_day_ok:
  assumes "year_of_day n = (y, yday)"
  shows "days_to_year y + yday = n \<and> 0 \<le> yday \<and> yday < (if leap_year y then 366 else 365)"
proof -
  define d where "d = n + 719162"
  define n400 d1 where "n400 = d div 146097" and "d1 = d mod 146097"
  define n100 where "n100 = min 3 (d1 div 36524)"
  define d2 where "d2 = d1 - 36524 * n100"
  define n4 d3 where "n4 = d2 div 1461" and "d3 = d2 mod 1461"
  define n1 where "n1 = min 3 (d3 div 365)"
  have yd: "y = 400 * n400 + 100 * n100 + 4 * n4 + n1 + 1" "yday = d3 - 365 * n1"
    using assms [symmetric] unfolding year_of_day_def Let_def n400_def d1_def n100_def d2_def n4_def d3_def n1_def d_def
    by (simp_all only: prod.inject)
  have b1: "0 \<le> d1" "d1 < 146097" "d = 146097 * n400 + d1" by (simp_all add: d1_def n400_def)
  then have b100: "0 \<le> n100" "n100 \<le> 3" "0 \<le> d2" "d2 < 36525" "n100 < 3 \<longrightarrow> d2 < 36524"
    by (auto simp: n100_def d2_def min_def)
  then have b4: "0 \<le> n4" "n4 \<le> 24" "0 \<le> d3" "d3 < 1461" "d2 = 1461 * n4 + d3"
    "n4 = 24 \<and> n100 < 3 \<longrightarrow> d3 < 1460"
    by (auto simp: n4_def d3_def) presburger+
  then have bb: "0 \<le> n1" "n1 \<le> 3" "0 \<le> yday" "yday \<le> 365" "n1 < 3 \<longrightarrow> yday < 365"
    "n1 = 3 \<and> d3 < 1460 \<longrightarrow> yday < 365"
    unfolding yd(2) by (auto simp: n1_def min_def)
  note ys = year_split [OF b100(1,2) b4(1,2) bb(1,2) yd(1)]
  have "days_to_year y + yday = n"
    unfolding ys(1) using yd(2) b1(3) b4(5) d2_def d_def by linarith
  moreover have "yday < 365" if "\<not> leap_year y"
    using that ys(2) bb b4 b100(2) by (cases "n1 = 3") auto
  ultimately show ?thesis using bb by auto
qed

lemma month_of_ok:
  assumes "month_of m ls d = (m', d')" and "0 \<le> d" and "d < sum_list ls"
  shows "m \<le> m' \<and> m' < m + int (length ls) \<and> 1 \<le> d' \<and> d' \<le> ls ! nat (m' - m) \<and>
    sum_list (take (nat (m' - m)) ls) + d' - 1 = d"
  using assms
proof (induction m ls d rule: month_of.induct)
  case (2 m l ls d)
  show ?case
  proof (cases "d < l")
    case True
    with 2 show ?thesis by auto
  next
    case False
    with 2 have ih: "m + 1 \<le> m'" "m' < m + 1 + int (length ls)" "1 \<le> d'" "d' \<le> ls ! nat (m' - (m + 1))"
      "sum_list (take (nat (m' - (m + 1))) ls) + d' - 1 = d - l" by auto
    then have "nat (m' - m) = Suc (nat (m' - (m + 1)))" by simp
    with ih show ?thesis by simp
  qed
qed simp

lemma civil_of_day_ok:
  assumes "civil_of_day n = (y, m, d)"
  shows "day_number y m d = n" "1 \<le> m" "m \<le> 12" "1 \<le> d" "d \<le> days_in m y"
proof -
  obtain yday where y: "year_of_day n = (y, yday)" "month_of 1 (month_lengths y) yday = (m, d)"
    using assms by (auto simp: civil_of_day_def split: prod.splits)
  note yd = year_of_day_ok [OF y(1)]
  have "yday < sum_list (month_lengths y)" using yd by (auto simp: month_lengths_def split: if_splits)
  from month_of_ok [OF y(2) _ this] yd
  show "day_number y m d = n" "1 \<le> m" "m \<le> 12" "1 \<le> d" "d \<le> days_in m y"
    by (auto simp: day_number_def days_in_def month_lengths_def)
qed

lemma days_in_le: "1 \<le> m \<Longrightarrow> m \<le> 12 \<Longrightarrow> days_in m y \<le> 31"
proof -
  assume "1 \<le> m" "m \<le> 12"
  then have "nat (m - 1) < length (month_lengths y)" by (simp add: month_lengths_def)
  then have "days_in m y \<in> set (month_lengths y)" unfolding days_in_def by (rule nth_mem)
  then show "days_in m y \<le> 31" by (auto simp: month_lengths_def split: if_splits)
qed

section \<open>Instants and layouts\<close>

record instant =
  in_nanos :: int
  in_offset :: int

record time_fields =
  tf_year :: int
  tf_month :: int
  tf_day :: int
  tf_hour :: int
  tf_minute :: int
  tf_second :: int
  tf_nano :: int
  tf_zone :: "int option"

definition fields_of :: "instant \<Rightarrow> time_fields" where
  "fields_of t =
     (let secs = in_nanos t div 1000000000 + in_offset t;
          sod = secs mod 86400
      in case civil_of_day (secs div 86400) of
           (y, m, d) \<Rightarrow>
             \<lparr>tf_year = y, tf_month = m, tf_day = d, tf_hour = sod div 3600, tf_minute = sod mod 3600 div 60,
              tf_second = sod mod 60, tf_nano = in_nanos t mod 1000000000, tf_zone = Some (in_offset t)\<rparr>)"

text \<open>The instant of a date and time; without a zone it is read as UTC.\<close>

definition unix_nanos :: "time_fields \<Rightarrow> int" where
  "unix_nanos f =
     (day_number (tf_year f) (tf_month f) (tf_day f) * 86400 + tf_hour f * 3600 + tf_minute f * 60 + tf_second f -
      (case tf_zone f of None \<Rightarrow> 0 | Some z \<Rightarrow> z)) * 1000000000 + tf_nano f"

definition fields_ok :: "time_fields \<Rightarrow> bool" where
  "fields_ok f \<longleftrightarrow> 1 \<le> tf_month f \<and> tf_month f \<le> 12 \<and> 1 \<le> tf_day f \<and> tf_day f \<le> days_in (tf_month f) (tf_year f) \<and>
     0 \<le> tf_hour f \<and> tf_hour f < 24 \<and> 0 \<le> tf_minute f \<and> tf_minute f < 60 \<and> 0 \<le> tf_second f \<and> tf_second f < 60 \<and>
     0 \<le> tf_nano f \<and> tf_nano f < 1000000000"

text \<open>The clock: hours, minutes and seconds of a number of seconds.\<close>

lemma clock_split: "s div 3600 * 3600 + s mod 3600 div 60 * 60 + s mod 60 = (s :: int)"
proof -
  have "s mod 60 = s mod 3600 mod 60" by (simp add: mod_mod_cancel)
  moreover have "s mod 3600 div 60 * 60 + s mod 3600 mod 60 = s mod 3600" by (rule div_mult_mod_eq)
  moreover have "s div 3600 * 3600 + s mod 3600 = s" by (rule div_mult_mod_eq)
  ultimately show ?thesis by (metis add.assoc)
qed

lemma div_range:
  assumes "0 \<le> s" and "s < c * d" and "0 < (d :: int)"
  shows "0 \<le> s div d \<and> s div d < c"
proof -
  have "s div d * d \<le> s" using div_mult_mod_eq [of s d] pos_mod_sign [OF assms(3), of s] by linarith
  then have "s div d * d < c * d" using assms(2) by (rule le_less_trans)
  with assms show ?thesis by (simp add: pos_imp_zdiv_nonneg_iff mult_less_cancel_right)
qed

lemma clock_range:
  "0 \<le> s \<Longrightarrow> s < 86400 \<Longrightarrow> 0 \<le> s div 3600 \<and> s div 3600 < 24 \<and> 0 \<le> s mod 3600 div 60 \<and> s mod 3600 div 60 < (60 :: int)"
  using div_range [of s 24 3600] div_range [of "s mod 3600" 60 60] by simp

lemma fields_of_ok: "fields_ok (fields_of t)"
proof -
  let ?s = "in_nanos t div 1000000000 + in_offset t"
  obtain y m d where c: "civil_of_day (?s div 86400) = (y, m, d)" by (metis prod_cases3)
  have "0 \<le> ?s mod 86400" "?s mod 86400 < 86400" by (rule pos_mod_sign pos_mod_bound; simp)+
  from clock_range [OF this] civil_of_day_ok [OF c] show ?thesis
    unfolding fields_ok_def fields_of_def Let_def c prod.case by simp
qed

lemma fields_of_zone [simp]: "tf_zone (fields_of t) = Some (in_offset t)" "tf_nano (fields_of t) = in_nanos t mod 1000000000"
  unfolding fields_of_def Let_def by (simp_all split: prod.split)

lemma unix_nanos_fields: "unix_nanos (fields_of t) = in_nanos t"
proof -
  let ?s = "in_nanos t div 1000000000 + in_offset t"
  obtain y m d where c: "civil_of_day (?s div 86400) = (y, m, d)" by (metis prod_cases3)
  define sod where "sod = ?s mod 86400"
  have s: "?s div 86400 * 86400 + sod = ?s" unfolding sod_def by (rule div_mult_mod_eq)
  have "unix_nanos (fields_of t) = (?s div 86400 * 86400 + (sod div 3600 * 3600 + sod mod 3600 div 60 * 60 + sod mod 60) -
      in_offset t) * 1000000000 + in_nanos t mod 1000000000"
    unfolding unix_nanos_def fields_of_def Let_def c prod.case sod_def
    by (simp add: civil_of_day_ok(1) [OF c] algebra_simps)
  also have "\<dots> = in_nanos t div 1000000000 * 1000000000 + in_nanos t mod 1000000000"
    unfolding clock_split s by simp
  finally show ?thesis by simp
qed

section \<open>Digits\<close>

text \<open>A number with leading zeros up to the width.\<close>

definition pad :: "nat \<Rightarrow> nat \<Rightarrow> string" where
  "pad w n = replicate (w - length (digits n)) CHR ''0'' @ digits n"

lemma length_digits: "n < 10 ^ Suc w \<Longrightarrow> length (digits n) \<le> Suc w"
proof (induction n arbitrary: w rule: digits.induct)
  case (1 n)
  show ?case
  proof (cases "n < 10")
    case False
    then obtain v where v: "w = Suc v" using 1(2) by (cases w) auto
    with 1(2) have "n div 10 < 10 ^ Suc v" by (simp add: less_mult_imp_div_less mult.commute)
    with 1(1) [OF False] v False show ?thesis by (simp add: digits.simps [of n])
  qed (simp add: digits.simps [of n])
qed

lemma pad_digits: "list_all is_digit (pad w n)"
proof -
  have "is_digit CHR ''0''" by (simp add: is_digit_def)
  with digits_are_digits show ?thesis by (auto simp: pad_def list_all_iff)
qed

lemma length_pad: "0 < w \<Longrightarrow> n < 10 ^ w \<Longrightarrow> length (pad w n) = w"
  using length_digits [of n "w - 1"] by (simp add: pad_def)

lemma fold_horner: "fold (\<lambda>c acc. acc * 10 + v c) ys a = a * 10 ^ length ys + fold (\<lambda>c acc. acc * 10 + v c) ys (0 :: nat)"
proof (induction ys arbitrary: a)
  case (Cons y ys)
  show ?case unfolding fold_simps comp_def Cons.IH [of "a * 10 + v y"] Cons.IH [of "0 * 10 + v y"]
    by (simp add: add_mult_distrib)
qed simp

lemma digits_value_append: "digits_value (xs @ ys) = digits_value xs * 10 ^ length ys + digits_value ys"
  unfolding digits_value_def fold_append comp_def by (rule fold_horner)

lemma digits_value_zeros: "digits_value (replicate k CHR ''0'') = 0"
  by (induction k) (auto simp: digits_value_def)

lemma digits_value_pad [simp]: "digits_value (pad w n) = n"
  by (simp add: pad_def digits_value_append digits_value_zeros digits_value_digits)

lemma digits_value_bound: "list_all is_digit s \<Longrightarrow> digits_value s < 10 ^ length s"
proof (induction s rule: rev_induct)
  case (snoc c s)
  then have "of_char c - 48 < (10 :: nat)" by (auto simp: is_digit_def)
  moreover have "digits_value s < 10 ^ length s" using snoc by simp
  ultimately have "digits_value s * 10 + (of_char c - 48) < 10 ^ length s * 10" by linarith
  then show ?case by (simp add: digits_value_append digits_value_def [of "[c]"] mult.commute)
qed (simp add: digits_value_def)

definition read_fixed :: "nat \<Rightarrow> string \<Rightarrow> (int \<times> string) option" where
  "read_fixed w s =
     (if w \<le> length s \<and> list_all is_digit (take w s) then Some (int (digits_value (take w s)), drop w s) else None)"

lemma read_fixed_pad: "0 < w \<Longrightarrow> 0 \<le> n \<Longrightarrow> n < 10 ^ w \<Longrightarrow> read_fixed w (pad w (nat n) @ rest) = Some (n, rest)"
  using length_pad [of w "nat n"] pad_digits [of w "nat n"] by (simp add: read_fixed_def nat_less_iff)

section \<open>Chunks\<close>

datatype chunk =
    Lit string | Year4 | Month2 | Day2 | Hour24 | Minute2 | Second2 | Fraction0 nat | Fraction9 | ZoneColon

definition drop_zeros :: "string \<Rightarrow> string" where
  "drop_zeros s = rev (dropWhile ((=) CHR ''0'') (rev s))"

text \<open>\<open>AppendFormat\<close>: a negative year carries its sign before the padded digits.\<close>

fun format_chunk :: "time_fields \<Rightarrow> chunk \<Rightarrow> string" where
  "format_chunk f (Lit s) = s"
| "format_chunk f Year4 = (if tf_year f < 0 then CHR ''-'' # pad 4 (nat (- tf_year f)) else pad 4 (nat (tf_year f)))"
| "format_chunk f Month2 = pad 2 (nat (tf_month f))"
| "format_chunk f Day2 = pad 2 (nat (tf_day f))"
| "format_chunk f Hour24 = pad 2 (nat (tf_hour f))"
| "format_chunk f Minute2 = pad 2 (nat (tf_minute f))"
| "format_chunk f Second2 = pad 2 (nat (tf_second f))"
| "format_chunk f (Fraction0 k) = CHR ''.'' # take k (pad 9 (nat (tf_nano f)))"
| "format_chunk f Fraction9 =
     (let ds = drop_zeros (pad 9 (nat (tf_nano f))) in if ds = [] then [] else CHR ''.'' # ds)"
| "format_chunk f ZoneColon =
     (let off = (case tf_zone f of None \<Rightarrow> 0 | Some z \<Rightarrow> z); minutes = nat (\<bar>off\<bar> div 60)
      in if off = 0 then ''Z''
         else (if off < 0 then CHR ''-'' else CHR ''+'') # pad 2 (minutes div 60) @ CHR '':'' # pad 2 (minutes mod 60))"

definition go_format :: "chunk list \<Rightarrow> instant \<Rightarrow> string" where
  "go_format layout t = concat (map (format_chunk (fields_of t)) layout)"

text \<open>\<open>parseNanoseconds\<close> on the digits after the point: at most nine count.\<close>

definition fraction_value :: "string \<Rightarrow> int" where
  "fraction_value ds = int (digits_value (take 9 ds)) * 10 ^ (9 - min 9 (length ds))"

text \<open>\<open>getnum\<close> without a fixed width: one or two digits.\<close>

definition read_one_or_two :: "string \<Rightarrow> (int \<times> string) option" where
  "read_one_or_two s = (case read_fixed 2 s of Some r \<Rightarrow> Some r | None \<Rightarrow> read_fixed 1 s)"

definition read_range :: "(string \<Rightarrow> (int \<times> string) option) \<Rightarrow> int \<Rightarrow> int \<Rightarrow> string \<Rightarrow> (int \<times> string) option" where
  "read_range rd lo hi s = (case rd s of Some (n, rest) \<Rightarrow> if lo \<le> n \<and> n \<le> hi then Some (n, rest) else None | None \<Rightarrow> None)"

definition is_point :: "char \<Rightarrow> bool" where
  "is_point c \<longleftrightarrow> c = CHR ''.'' \<or> c = CHR '',''"

fun read_zone :: "string \<Rightarrow> (int \<times> string) option" where
  "read_zone [] = None"
| "read_zone (c # s) =
     (if c = CHR ''Z'' then Some (0, s)
      else case read_range (read_fixed 2) 0 24 s of
             None \<Rightarrow> None
           | Some (h, s1) \<Rightarrow>
               (case s1 of
                  [] \<Rightarrow> None
                | d # s2 \<Rightarrow>
                    if d \<noteq> CHR '':'' then None
                    else case read_range (read_fixed 2) 0 60 s2 of
                           None \<Rightarrow> None
                         | Some (m, rest) \<Rightarrow>
                             if c = CHR ''+'' then Some ((h * 60 + m) * 60, rest)
                             else if c = CHR ''-'' then Some (- ((h * 60 + m) * 60), rest) else None))"

fun read_chunk :: "chunk \<Rightarrow> time_fields \<Rightarrow> string \<Rightarrow> (time_fields \<times> string) option" where
  "read_chunk (Lit p) f s = (if prefix p s then Some (f, drop (length p) s) else None)"
| "read_chunk Year4 f s = map_option (\<lambda>(n, rest). (f\<lparr>tf_year := n\<rparr>, rest)) (read_fixed 4 s)"
| "read_chunk Month2 f s = map_option (\<lambda>(n, rest). (f\<lparr>tf_month := n\<rparr>, rest)) (read_range (read_fixed 2) 1 12 s)"
| "read_chunk Day2 f s = map_option (\<lambda>(n, rest). (f\<lparr>tf_day := n\<rparr>, rest)) (read_fixed 2 s)"
| "read_chunk Hour24 f s = map_option (\<lambda>(n, rest). (f\<lparr>tf_hour := n\<rparr>, rest)) (read_range read_one_or_two 0 23 s)"
| "read_chunk Minute2 f s = map_option (\<lambda>(n, rest). (f\<lparr>tf_minute := n\<rparr>, rest)) (read_range (read_fixed 2) 0 59 s)"
| "read_chunk Second2 f s = map_option (\<lambda>(n, rest). (f\<lparr>tf_second := n\<rparr>, rest)) (read_range (read_fixed 2) 0 59 s)"
| "read_chunk (Fraction0 k) f s =
     (case s of
        [] \<Rightarrow> None
      | c # s1 \<Rightarrow>
          if is_point c \<and> k \<le> length s1 \<and> list_all is_digit (take k s1)
          then Some (f\<lparr>tf_nano := fraction_value (take k s1)\<rparr>, drop k s1) else None)"
| "read_chunk Fraction9 f s =
     (case s of
        c # d # s1 \<Rightarrow>
          if is_point c \<and> is_digit d
          then Some (f\<lparr>tf_nano := fraction_value (takeWhile is_digit (d # s1))\<rparr>, dropWhile is_digit (d # s1))
          else Some (f, s)
      | _ \<Rightarrow> Some (f, s))"
| "read_chunk ZoneColon f s = map_option (\<lambda>(z, rest). (f\<lparr>tf_zone := Some z\<rparr>, rest)) (read_zone s)"

fun read_chunks :: "chunk list \<Rightarrow> time_fields \<Rightarrow> string \<Rightarrow> (time_fields \<times> string) option" where
  "read_chunks [] f s = Some (f, s)"
| "read_chunks (c # cs) f s = (case read_chunk c f s of None \<Rightarrow> None | Some (f', s') \<Rightarrow> read_chunks cs f' s')"

definition no_fields :: time_fields where
  "no_fields = \<lparr>tf_year = 0, tf_month = 1, tf_day = 1, tf_hour = 0, tf_minute = 0, tf_second = 0, tf_nano = 0, tf_zone = None\<rparr>"

text \<open>\<open>time.Parse\<close>: nothing may be left over, and the day must exist in its month.\<close>

definition go_parse :: "chunk list \<Rightarrow> string \<Rightarrow> int option" where
  "go_parse layout s =
     (case read_chunks layout no_fields s of
        Some (f, []) \<Rightarrow> if 1 \<le> tf_day f \<and> tf_day f \<le> days_in (tf_month f) (tf_year f) then Some (unix_nanos f) else None
      | _ \<Rightarrow> None)"

definition rfc3339_nano :: "chunk list" where
  "rfc3339_nano = [Year4, Lit ''-'', Month2, Lit ''-'', Day2, Lit ''T'', Hour24, Lit '':'', Minute2, Lit '':'', Second2,
     Fraction9, ZoneColon]"

text \<open>The layout of get_current_time.go.\<close>

definition micro_layout :: "chunk list" where
  "micro_layout = [Year4, Lit ''-'', Month2, Lit ''-'', Day2, Lit '' '', Hour24, Lit '':'', Minute2, Lit '':'', Second2,
     Fraction0 6]"

text \<open>\<open>Time.Sub\<close>: a \<open>Duration\<close> is an int64 and the difference saturates.\<close>

definition time_sub :: "int \<Rightarrow> int \<Rightarrow> int" where
  "time_sub t u = max (- (2 ^ 63)) (min (2 ^ 63 - 1) (t - u))"

section \<open>Round trips\<close>

fun_cases read_zone_ConsE: "read_zone (c # s) = Some r"

definition zone_of :: "time_fields \<Rightarrow> int" where
  "zone_of f = (case tf_zone f of None \<Rightarrow> 0 | Some z \<Rightarrow> z)"

text \<open>What a layout can carry: a year of four digits and a zone of whole minutes, at most a day.\<close>

definition printable :: "time_fields \<Rightarrow> bool" where
  "printable f \<longleftrightarrow> fields_ok f \<and> 0 \<le> tf_year f \<and> tf_year f \<le> 9999 \<and> zone_of f mod 60 = 0 \<and> \<bar>zone_of f\<bar> \<le> 86400"

fun store_chunk :: "time_fields \<Rightarrow> chunk \<Rightarrow> time_fields \<Rightarrow> time_fields" where
  "store_chunk t (Lit s) f = f"
| "store_chunk t Year4 f = f\<lparr>tf_year := tf_year t\<rparr>"
| "store_chunk t Month2 f = f\<lparr>tf_month := tf_month t\<rparr>"
| "store_chunk t Day2 f = f\<lparr>tf_day := tf_day t\<rparr>"
| "store_chunk t Hour24 f = f\<lparr>tf_hour := tf_hour t\<rparr>"
| "store_chunk t Minute2 f = f\<lparr>tf_minute := tf_minute t\<rparr>"
| "store_chunk t Second2 f = f\<lparr>tf_second := tf_second t\<rparr>"
| "store_chunk t (Fraction0 k) f = f\<lparr>tf_nano := tf_nano t div 10 ^ (9 - k) * 10 ^ (9 - k)\<rparr>"
| "store_chunk t Fraction9 f = f\<lparr>tf_nano := tf_nano t\<rparr>"
| "store_chunk t ZoneColon f = f\<lparr>tf_zone := Some (zone_of t)\<rparr>"

text \<open>The fraction ends where no further digit or point follows.\<close>

definition follows :: "chunk \<Rightarrow> string \<Rightarrow> bool" where
  "follows c rest \<longleftrightarrow> (c = Fraction9 \<longrightarrow> tf_nano no_fields = 0 \<and>
     (case rest of [] \<Rightarrow> True | d # _ \<Rightarrow> \<not> is_digit d \<and> \<not> is_point d))"

lemma read_range_pad:
  "0 < w \<Longrightarrow> 0 \<le> n \<Longrightarrow> n < 10 ^ w \<Longrightarrow> lo \<le> n \<Longrightarrow> n \<le> hi \<Longrightarrow>
     read_range (read_fixed w) lo hi (pad w (nat n) @ rest) = Some (n, rest)"
  by (simp add: read_range_def read_fixed_pad)

lemma read_hour_pad:
  "0 \<le> n \<Longrightarrow> n < 24 \<Longrightarrow> read_range read_one_or_two 0 23 (pad 2 (nat n) @ rest) = Some (n, rest)"
  by (simp add: read_range_def read_one_or_two_def read_fixed_pad)

lemma take_digits_value:
  assumes "list_all is_digit s" and "k \<le> length s"
  shows "digits_value (take k s) = digits_value s div 10 ^ (length s - k)"
proof -
  have "digits_value s = digits_value (take k s) * 10 ^ (length s - k) + digits_value (drop k s)"
    using digits_value_append [of "take k s" "drop k s"] by simp
  moreover have "digits_value (drop k s) < 10 ^ (length s - k)"
    using digits_value_bound [of "drop k s"] assms(1) by (auto simp: list_all_iff dest: in_set_dropD)
  ultimately show ?thesis by simp
qed

lemma fraction0_value:
  assumes "0 \<le> n" and "n < 1000000000" and "k \<le> 9"
  shows "fraction_value (take k (pad 9 (nat n))) = n div 10 ^ (9 - k) * 10 ^ (9 - k)"
proof -
  have l: "length (pad 9 (nat n)) = 9" by (rule length_pad) (use assms in \<open>simp_all add: nat_less_iff\<close>)
  from take_digits_value [OF pad_digits, of k 9 "nat n"] l assms
  have "digits_value (take k (pad 9 (nat n))) = nat n div 10 ^ (9 - k)" by simp
  moreover have "int (nat n div 10 ^ (9 - k)) = n div 10 ^ (9 - k)" using assms(1) by (simp add: zdiv_int)
  ultimately show ?thesis using l assms(3) by (simp add: fraction_value_def min_def)
qed

lemma drop_zeros_split: "\<exists>k. s = drop_zeros s @ replicate k CHR ''0''"
proof -
  have "rev s = takeWhile ((=) CHR ''0'') (rev s) @ dropWhile ((=) CHR ''0'') (rev s)" by simp
  then have "s = drop_zeros s @ rev (takeWhile ((=) CHR ''0'') (rev s))"
    unfolding drop_zeros_def by (metis rev_append rev_rev_ident)
  moreover have "rev (takeWhile ((=) CHR ''0'') xs) = replicate (length (takeWhile ((=) CHR ''0'') xs)) CHR ''0''" for xs
    by (induction xs) (auto simp: replicate_append_same)
  ultimately show ?thesis by metis
qed

lemma fraction9_value:
  assumes "0 \<le> n" and "n < 1000000000"
  shows "fraction_value (drop_zeros (pad 9 (nat n))) = n \<and> list_all is_digit (drop_zeros (pad 9 (nat n)))"
proof -
  let ?s = "pad 9 (nat n)"
  have l: "length ?s = 9" by (rule length_pad) (use assms in \<open>simp_all add: nat_less_iff\<close>)
  obtain k where k: "?s = drop_zeros ?s @ replicate k CHR ''0''" using drop_zeros_split by blast
  then have len: "length (drop_zeros ?s) + k = 9" using l by (metis length_append length_replicate)
  have "digits_value ?s = digits_value (drop_zeros ?s) * 10 ^ k"
    using digits_value_append [of "drop_zeros ?s" "replicate k CHR ''0''"] k
    by (simp add: digits_value_zeros del: digits_value_pad)
  then have "nat n = digits_value (drop_zeros ?s) * 10 ^ k" by simp
  then have "n = int (digits_value (drop_zeros ?s)) * 10 ^ k" using assms(1) by (metis of_nat_mult of_nat_numeral of_nat_power nat_0_le)
  moreover have "9 - min 9 (length (drop_zeros ?s)) = k" "take 9 (drop_zeros ?s) = drop_zeros ?s" using len by auto
  moreover have "list_all is_digit (drop_zeros ?s)"
    using pad_digits [of 9 "nat n"] k by (metis list_all_append)
  ultimately show ?thesis by (simp add: fraction_value_def)
qed

lemma take_digits: "list_all is_digit ds \<Longrightarrow> (case rest of [] \<Rightarrow> True | d # _ \<Rightarrow> \<not> is_digit d) \<Longrightarrow>
    takeWhile is_digit (ds @ rest) = ds \<and> dropWhile is_digit (ds @ rest) = rest"
  by (induction ds) (auto split: list.splits)

lemma read_zone_format:
  assumes "printable t"
  shows "read_zone (format_chunk t ZoneColon @ rest) = Some (zone_of t, rest)"
proof (cases "zone_of t = 0")
  case True
  then show ?thesis by (simp add: zone_of_def)
next
  case False
  define m where "m = \<bar>zone_of t\<bar> div 60"
  have z: "zone_of t mod 60 = 0" "\<bar>zone_of t\<bar> \<le> 86400" using assms by (auto simp: printable_def)
  have abs: "\<bar>zone_of t\<bar> = m * 60" using z(1) unfolding m_def by (cases "zone_of t < 0") (auto simp: zmod_zminus1_eq_if)
  then have mb: "0 \<le> m" "m \<le> 1440" using z(2) by auto
  have "m = m div 60 * 60 + m mod 60" by simp
  then have hm: "0 \<le> m div 60" "m div 60 \<le> 24" "0 \<le> m mod 60" "m mod 60 \<le> 59" using mb by (auto simp: pos_imp_zdiv_nonneg_iff)
  have nm: "nat \<bar>zone_of t\<bar> div 60 = nat m" by (simp add: m_def nat_div_distrib)
  have out: "format_chunk t ZoneColon @ rest =
      (if zone_of t < 0 then CHR ''-'' else CHR ''+'') # pad 2 (nat (m div 60)) @ CHR '':'' # pad 2 (nat (m mod 60)) @ rest"
    using False mb nm by (simp add: Let_def zone_of_def [symmetric] nat_div_distrib nat_mod_distrib)
  have "read_zone (format_chunk t ZoneColon @ rest) =
      Some (if zone_of t < 0 then - (m * 60) else m * 60, rest)"
    unfolding out using hm by (simp add: read_range_pad)
  with abs show ?thesis by (simp split: if_splits)
qed

lemma read_chunk_format:
  assumes "printable t" and "case c of Fraction0 k \<Rightarrow> k \<le> 9 | _ \<Rightarrow> True" and "follows c rest"
    and "c = Fraction9 \<longrightarrow> tf_nano f = 0"
  shows "read_chunk c f (format_chunk t c @ rest) = Some (store_chunk t c f, rest)"
proof -
  have ok: "1 \<le> tf_month t" "tf_month t \<le> 12" "1 \<le> tf_day t" "tf_day t \<le> 31" "0 \<le> tf_hour t" "tf_hour t < 24"
    "0 \<le> tf_minute t" "tf_minute t < 60" "0 \<le> tf_second t" "tf_second t < 60" "0 \<le> tf_nano t" "tf_nano t < 1000000000"
    "0 \<le> tf_year t" "tf_year t \<le> 9999"
    using assms(1) days_in_le [of "tf_month t" "tf_year t"] by (auto simp: printable_def fields_ok_def)
  show ?thesis
  proof (cases c)
    case (Fraction0 k)
    have l: "length (pad 9 (nat (tf_nano t))) = 9" by (rule length_pad) (use ok in \<open>simp_all add: nat_less_iff\<close>)
    have "list_all is_digit (take k (pad 9 (nat (tf_nano t))))"
      using pad_digits [of 9 "nat (tf_nano t)"] by (auto simp: list_all_iff dest: in_set_takeD)
    with Fraction0 l assms(2) ok fraction0_value [of "tf_nano t" k] show ?thesis by (simp add: is_point_def min_def)
  next
    case Fraction9
    let ?ds = "drop_zeros (pad 9 (nat (tf_nano t)))"
    note v = fraction9_value [OF ok(11,12)]
    have r: "case rest of [] \<Rightarrow> True | d # _ \<Rightarrow> \<not> is_digit d" "case rest of [] \<Rightarrow> True | d # _ \<Rightarrow> \<not> is_point d"
      using assms(3) Fraction9 by (auto simp: follows_def split: list.splits)
    show ?thesis
    proof (cases ?ds)
      case Nil
      with v have "tf_nano t = 0" by (simp add: fraction_value_def digits_value_def)
      with Nil Fraction9 r(2) assms(4) show ?thesis by (auto simp: Let_def split: list.splits)
    next
      case (Cons d ds)
      with v take_digits [of ?ds rest] r(1) Fraction9 show ?thesis by (auto simp: Let_def is_point_def)
    qed
  next
    case ZoneColon
    with read_zone_format [OF assms(1), of rest] show ?thesis by simp
  qed (use ok in \<open>simp_all add: read_fixed_pad read_range_pad read_hour_pad\<close>)
qed

lemma format_chunk_head:
  "format_chunk t ZoneColon = d # ds \<Longrightarrow> \<not> is_digit d \<and> \<not> is_point d"
  by (auto simp: Let_def is_digit_def is_point_def split: if_splits)

lemma zone_not_empty: "format_chunk t ZoneColon \<noteq> []"
  by (simp add: Let_def)

lemma follows_zone: "follows Fraction9 (format_chunk t ZoneColon)"
  using zone_not_empty [of t] format_chunk_head [of t]
  by (cases "format_chunk t ZoneColon") (auto simp: follows_def no_fields_def)

lemma follows_other [simp]: "c \<noteq> Fraction9 \<Longrightarrow> follows c rest"
  by (simp add: follows_def)

text \<open>The two layouts: every instant is read back, to the nanosecond with its zone, or to the
  microsecond as the local time.\<close>

lemma parse_format_rfc3339:
  assumes "printable (fields_of t)"
  shows "go_parse rfc3339_nano (go_format rfc3339_nano t) = Some (in_nanos t)"
proof -
  let ?f = "fields_of t"
  note rd = read_chunk_format [OF assms]
  have z: "zone_of ?f = in_offset t" by (simp add: zone_of_def)
  have "read_chunks rfc3339_nano no_fields (go_format rfc3339_nano t) = Some (?f, [])"
    unfolding rfc3339_nano_def go_format_def
    using rd [of ZoneColon "[]"] follows_zone [of ?f] 
    by (simp add: rd read_zone_format [OF assms, of "[]", simplified] z no_fields_def del: read_chunk.simps(2-) format_chunk.simps(2-))
  moreover have "fields_ok ?f" by (rule fields_of_ok)
  ultimately show ?thesis by (simp add: go_parse_def fields_ok_def unix_nanos_fields)
qed

lemma parse_format_micro:
  assumes "printable (fields_of t)"
  shows "go_parse micro_layout (go_format micro_layout t) =
    Some (in_nanos t div 1000 * 1000 + in_offset t * 1000000000)"
proof -
  let ?f = "fields_of t"
  let ?n = "in_nanos t mod 1000000000"
  let ?g = "?f\<lparr>tf_nano := ?n div 1000 * 1000, tf_zone := None\<rparr>"
  note rd = read_chunk_format [OF assms]
  have "read_chunks micro_layout no_fields (go_format micro_layout t) = Some (?g, [])"
    unfolding micro_layout_def go_format_def
    using rd [of "Fraction0 6" "[]"]
    by (simp add: rd no_fields_def del: read_chunk.simps(2-) format_chunk.simps(2-))
  moreover have "fields_ok ?f" by (rule fields_of_ok)
  moreover have "unix_nanos ?g = in_nanos t div 1000 * 1000 + in_offset t * 1000000000"
  proof -
    have "unix_nanos ?g = unix_nanos ?f + in_offset t * 1000000000 - ?n + ?n div 1000 * 1000"
      by (simp add: unix_nanos_def algebra_simps)
    moreover have "?n div 1000 * 1000 = ?n - in_nanos t mod 1000"
      by (simp add: minus_mod_eq_div_mult [symmetric] mod_mod_cancel)
    moreover have "in_nanos t div 1000 * 1000 = in_nanos t - in_nanos t mod 1000"
      by (simp add: minus_mod_eq_div_mult [symmetric])
    ultimately show ?thesis by (simp add: unix_nanos_fields)
  qed
  ultimately show ?thesis by (simp add: go_parse_def fields_ok_def)
qed

section \<open>Durations\<close>

text \<open>
  \<open>Duration.Hours()\<close>, \<open>Minutes()\<close> and \<open>Seconds()\<close>: \<open>float64(d / unit) + float64(d % unit) / unit\<close>, in
  IEEE double precision. A float below \<open>2^53\<close> is a mantissa and a scale, of value \<open>m / 2^s\<close>: the scale
  is the first that gives the mantissa 53 bits (the least exponent of a double ends the search), and
  the mantissa is rounded half to even. Rounding is symmetric, so a negative duration is the negation of
  a positive one.
\<close>

definition round_div :: "nat \<Rightarrow> nat \<Rightarrow> nat" where
  "round_div n d = (let q = n div d; r = n mod d in if 2 * r < d \<or> 2 * r = d \<and> even q then q else q + 1)"

function float_scale :: "nat \<Rightarrow> nat \<Rightarrow> nat \<Rightarrow> nat" where
  "float_scale n d s = (if 2 ^ 52 * d \<le> n * 2 ^ s \<or> 1074 \<le> s then s else float_scale n d (s + 1))"
  by pat_completeness auto
termination
  by (relation "measure (\<lambda>(n, d, s). 1074 - s)") auto

declare float_scale.simps [simp del]

type_synonym float64 = "nat \<times> nat"

definition to_float :: "nat \<Rightarrow> nat \<Rightarrow> float64" where
  "to_float n d = (if n = 0 then (0, 0) else let s = float_scale n d 0 in (round_div (n * 2 ^ s) d, s))"

definition float_plus :: "nat \<Rightarrow> float64 \<Rightarrow> float64" where
  "float_plus q x = (case x of (m, s) \<Rightarrow> to_float (q * 2 ^ s + m) (2 ^ s))"

definition float_floor :: "float64 \<Rightarrow> nat" where
  "float_floor x = (case x of (m, s) \<Rightarrow> m div 2 ^ s)"

definition duration_in :: "nat \<Rightarrow> int \<Rightarrow> int" where
  "duration_in unit d =
     (let n = nat \<bar>d\<bar> in sgn d * int (float_floor (float_plus (n div unit) (to_float (n mod unit) unit))))"

definition hour_nanos :: nat where "hour_nanos = 3600000000000"
definition minute_nanos :: nat where "minute_nanos = 60000000000"
definition second_nanos :: nat where "second_nanos = 1000000000"

lemma round_div_error: "0 < d \<Longrightarrow> 2 * d * round_div n d \<le> 2 * n + d"
proof -
  assume "0 < d"
  have "n div d * d + n mod d = n" by (rule div_mult_mod_eq)
  then have "2 * n = 2 * d * (n div d) + 2 * (n mod d)" by (metis distrib_left mult.assoc mult.commute)
  then show ?thesis by (auto simp: round_div_def Let_def add_mult_distrib2)
qed

lemma round_div_ge: "0 < d \<Longrightarrow> k * d \<le> n \<Longrightarrow> k \<le> round_div n d"
proof -
  assume "0 < d" "k * d \<le> n"
  then have "k \<le> n div d" by (simp add: less_eq_div_iff_mult_less_eq)
  then show ?thesis by (auto simp: round_div_def Let_def)
qed

lemma float_scale_reached: "2 ^ 52 * d \<le> n * 2 ^ float_scale n d s \<or> 1074 \<le> float_scale n d s"
  by (induction n d s rule: float_scale.induct) (metis float_scale.simps)

lemma float_scale_eqI:
  assumes "2 ^ 52 * d \<le> n * 2 ^ s" and "n * 2 ^ (s - 1) < 2 ^ 52 * d" and "s \<le> 1074"
  shows "float_scale n d 0 = s"
proof -
  have "float_scale n d (s - k) = s" if "k \<le> s" for k
    using that
  proof (induction k)
    case 0
    show ?case using assms(1) by (simp add: float_scale.simps [of n d s])
  next
    case (Suc k)
    have "n * 2 ^ (s - Suc k) \<le> n * 2 ^ (s - 1)" by (intro mult_le_mono2 power_increasing) auto
    with assms(2) have "\<not> 2 ^ 52 * d \<le> n * 2 ^ (s - Suc k)" by linarith
    with Suc assms(3) show ?case by (simp add: float_scale.simps [of n d "s - Suc k"] Suc_diff_Suc)
  qed
  from this [of s] show ?thesis by simp
qed

lemma float_scale_ge:
  assumes "n < 2 ^ e * d" and "e \<le> 52"
  shows "53 - e \<le> float_scale n d 0"
proof (rule ccontr)
  let ?s = "float_scale n d 0"
  assume "\<not> ?thesis"
  then have s: "?s + e \<le> 52" using assms(2) by simp
  then have "2 ^ 52 * d \<le> n * 2 ^ ?s" using float_scale_reached [of d n 0] by simp
  also have "\<dots> < 2 ^ e * d * 2 ^ ?s" using assms(1) by simp
  also have "\<dots> = 2 ^ (?s + e) * d" by (simp add: power_add)
  also have "\<dots> \<le> 2 ^ 52 * d" using s by (intro mult_right_mono power_increasing) auto
  finally show False by simp
qed

lemma float_gap:
  assumes "c < 2 * p" "c * p < k * (2 * p - c)" "k \<le> D" "p \<le> (S :: nat)"
  shows "c * S + c * D < 2 * D * S"
proof -
  have "c * p < D * (2 * p - c)" using assms(2) mult_le_mono1 [OF assms(3), of "2 * p - c"] by (rule less_le_trans)
  moreover have "D * (2 * p - c) + D * c = D * (2 * p)" using assms(1) by (simp flip: add_mult_distrib2)
  ultimately have gap: "c * p + D * c < D * (2 * p)" by linarith
  have "c \<le> 2 * D"
  proof (rule ccontr)
    assume "\<not> ?thesis"
    then have "D * (2 * p) \<le> c * p" by simp
    with gap show False by simp
  qed
  then have "c * (S - p) \<le> 2 * D * (S - p)" by simp
  moreover have "c * S = c * p + c * (S - p)" "2 * D * S = 2 * D * p + 2 * D * (S - p)"
    using assms(4) by (simp_all flip: add_mult_distrib2)
  moreover have "D * (2 * p) = 2 * D * p" "D * c = c * D" by simp_all
  ultimately show ?thesis using gap by linarith
qed

lemma float_floor_exact:
  assumes r: "r < c" and q: "q < 2 ^ e" and e: "e \<le> 52"
    and c: "c < 2 * 2 ^ (53 - e)" "c * 2 ^ (53 - e) < 2 ^ 53 * (2 * 2 ^ (53 - e) - c)" "c < 2 ^ 53"
  shows "float_floor (float_plus q (to_float r c)) = q"
proof -
  obtain m s where x: "to_float r c = (m, s)" by fastforce
  define D where "D = (2 ^ s :: nat)"
  have D0: "0 < D" by (simp add: D_def)
  have below: "2 * c * m + 2 * D \<le> 2 * c * D + c" if "r \<noteq> 0"
  proof -
    have "m = round_div (r * D) c" "s = float_scale r c 0" using x that by (auto simp: to_float_def Let_def D_def)
    then have "2 * c * m \<le> 2 * (r * D) + c" using round_div_error [of c "r * D"] r by simp
    moreover have "r * D + D \<le> c * D" using r mult_le_mono1 [of "Suc r" c D] by simp
    ultimately show ?thesis by simp
  qed
  obtain m' s' where y: "to_float (q * D + m) D = (m', s')" by fastforce
  have res: "float_floor (float_plus q (to_float r c)) = m' div 2 ^ s'"
    using y by (simp add: x float_plus_def float_floor_def D_def)
  show ?thesis
  proof (cases "q * D + m = 0")
    case True
    with D0 have "q = 0" "m = 0" by auto
    with y res show ?thesis by (auto simp: to_float_def)
  next
    case ne: False
    have m': "m' = round_div ((q * D + m) * 2 ^ s') D" "s' = float_scale (q * D + m) D 0"
      using y ne by (auto simp: to_float_def Let_def)
    have "q * 2 ^ s' * D \<le> (q * D + m) * 2 ^ s'" by (simp add: algebra_simps)
    with m' D0 have lo: "q * 2 ^ s' \<le> m'" by (auto intro: round_div_ge)
    have "m' < (q + 1) * 2 ^ s'"
    proof (cases "r = 0")
      case True
      then have m0: "m = 0" using x by (auto simp: to_float_def)
      then have "2 * D * m' \<le> 2 * (q * D * 2 ^ s') + D" using round_div_error [OF D0] m' by simp
      then have "D * (2 * m') \<le> D * (2 * (q * 2 ^ s') + 1)" by (simp add: algebra_simps)
      then have "2 * m' \<le> 2 * (q * 2 ^ s') + 1" using nat_mult_le_cancel1 [OF D0] by blast
      then have "m' \<le> q * 2 ^ s'" by arith
      then show ?thesis by (simp add: le_less_trans)
    next
      case False
      have s: "53 \<le> s" using float_scale_ge [of r 0 c] r False x by (auto simp: to_float_def Let_def)
      then have big: "2 ^ 53 \<le> D" unfolding D_def by (rule power_increasing) simp
      have "m < D"
      proof (rule ccontr)
        assume "\<not> m < D"
        then have "2 * c * D \<le> 2 * c * m" by simp
        with below [OF False] have "2 * D \<le> c" by linarith
        with big c(3) show False by linarith
      qed
      then have "q * D + m < (q + 1) * D" by simp
      also have "\<dots> \<le> 2 ^ e * D" using q by (intro mult_le_mono1) simp
      finally have "53 - e \<le> s'" using m' float_scale_ge e by blast
      then have S: "2 ^ (53 - e) \<le> (2 ^ s' :: nat)" by (rule power_increasing) simp
      show ?thesis
      proof (rule ccontr)
        assume "\<not> ?thesis"
        then have "2 * D * ((q + 1) * 2 ^ s') \<le> 2 * D * m'" by simp
        also have "\<dots> \<le> 2 * ((q * D + m) * 2 ^ s') + D" using round_div_error [OF D0] m' by simp
        finally have "2 * D * 2 ^ s' \<le> 2 * m * 2 ^ s' + D" by (simp add: algebra_simps)
        then have "c * (2 * D * 2 ^ s') \<le> c * (2 * m * 2 ^ s' + D)" by (rule mult_le_mono2)
        moreover have "(2 * c * m + 2 * D) * 2 ^ s' \<le> (2 * c * D + c) * 2 ^ s'" by (rule mult_le_mono1 [OF below [OF False]])
        ultimately have "2 * D * 2 ^ s' \<le> c * 2 ^ s' + c * D" by (simp add: algebra_simps)
        with float_gap [OF c(1,2) big S] show False by simp
      qed
    qed
    with lo have "m' div 2 ^ s' = q" by (intro div_nat_eqI) (auto simp: algebra_simps)
    with res show ?thesis by simp
  qed
qed

lemma duration_in_exact:
  assumes "0 < unit" and "nat \<bar>d\<bar> div unit < 2 ^ e" and "e \<le> 52"
    and "unit < 2 * 2 ^ (53 - e)" "unit * 2 ^ (53 - e) < 2 ^ 53 * (2 * 2 ^ (53 - e) - unit)" "unit < 2 ^ 53"
  shows "duration_in unit d = sgn d * (\<bar>d\<bar> div int unit)"
  using assms float_floor_exact [of "nat \<bar>d\<bar> mod unit" unit "nat \<bar>d\<bar> div unit" e]
  by (simp add: duration_in_def Let_def zdiv_int)

text \<open>Below 4096 hours the three conversions are the truncated quotients.\<close>

lemma duration_exact:
  assumes "\<bar>d\<bar> < 4096 * int hour_nanos"
  shows "duration_in hour_nanos d = sgn d * (\<bar>d\<bar> div int hour_nanos)"
    and "duration_in minute_nanos d = sgn d * (\<bar>d\<bar> div int minute_nanos)"
    and "duration_in second_nanos d = sgn d * (\<bar>d\<bar> div int second_nanos)"
proof -
  have n: "nat \<bar>d\<bar> < 4096 * hour_nanos" using assms by linarith
  show "duration_in hour_nanos d = sgn d * (\<bar>d\<bar> div int hour_nanos)"
    by (rule duration_in_exact [where e = 12]) (use n in \<open>simp_all add: hour_nanos_def less_mult_imp_div_less\<close>)
  show "duration_in minute_nanos d = sgn d * (\<bar>d\<bar> div int minute_nanos)"
    by (rule duration_in_exact [where e = 18]) (use n in \<open>simp_all add: hour_nanos_def minute_nanos_def less_mult_imp_div_less\<close>)
  show "duration_in second_nanos d = sgn d * (\<bar>d\<bar> div int second_nanos)"
    by (rule duration_in_exact [where e = 24]) (use n in \<open>simp_all add: hour_nanos_def second_nanos_def less_mult_imp_div_less\<close>)
qed

text \<open>A nanosecond before 4097 hours, the hours are rounded up.\<close>

lemma hours_rounded_up: "duration_in hour_nanos (4097 * 3600000000000 - 1) = 4097"
proof -
  have r: "to_float 3599999999999 3600000000000 = (9007199254738490, 53)"
    using float_scale_eqI [of 3600000000000 3599999999999 53] by (simp add: to_float_def Let_def round_div_def)
  have "to_float (4096 * 2 ^ 53 + 9007199254738490) (2 ^ 53) = (4097 * 2 ^ 40, 40)"
    using float_scale_eqI [of "2 ^ 53" "4096 * 2 ^ 53 + 9007199254738490" 40]
    by (simp add: to_float_def Let_def round_div_def)
  with r show ?thesis by (simp add: duration_in_def hour_nanos_def float_plus_def float_floor_def)
qed

end
