(* ===== verification/Go_Json.thy ===== *)
theory Go_Json
  imports Go_Utf8
begin

text \<open>
  What the program uses of \<open>encoding/json\<close> for the tools' outputs: \<open>MarshalIndent(v, "", "  ")\<close> on the
  values its structs encode to (the fields in their order, as an object), and a reader of such texts.
  A string is escaped as \<open>Marshal\<close> does it, with the HTML characters and the two line separators as
  \<open>\u\<close> escapes and every invalid byte as \<open>\ufffd\<close>.

  The reader takes the number of bytes as its fuel: every call consumes at least one. The round trip
  says that any reader of the text gets the value back, its strings made valid.
\<close>

section \<open>Printing\<close>

datatype json =
    JNull | JBool bool | JInt int | JString string | JArray "json list" | JObject "(string \<times> json) list"

definition escape_byte :: "char \<Rightarrow> string" where
  "escape_byte c =
     (if c = CHR 0x22 \<or> c = CHR 0x5C then [CHR 0x5C, c]
      else if c = CHR 0x08 then [CHR 0x5C, CHR ''b'']
      else if c = CHR 0x0C then [CHR 0x5C, CHR ''f'']
      else if c = CHR 0x0A then [CHR 0x5C, CHR ''n'']
      else if c = CHR 0x0D then [CHR 0x5C, CHR ''r'']
      else if c = CHR 0x09 then [CHR 0x5C, CHR ''t'']
      else if of_char c < (32 :: nat) \<or> c = CHR ''<'' \<or> c = CHR ''>'' \<or> c = CHR ''&''
           then [CHR 0x5C, CHR ''u'', CHR ''0'', CHR ''0'', hex_digit (of_char c div 16), hex_digit (of_char c mod 16)]
      else [c])"

function escape_body :: "string \<Rightarrow> string" where
  "escape_body s =
     (if s = [] then []
      else if byte_at s 0 < 128 then escape_byte (hd s) @ escape_body (tl s)
      else if invalid_head s then [CHR 0x5C] @ ''ufffd'' @ escape_body (tl s)
      else if prefix (utf8_encode 8232) s then [CHR 0x5C] @ ''u2028'' @ escape_body (drop 3 s)
      else if prefix (utf8_encode 8233) s then [CHR 0x5C] @ ''u2029'' @ escape_body (drop 3 s)
      else take (snd (decode_rune s)) s @ escape_body (drop (snd (decode_rune s)) s))"
  by pat_completeness auto
termination
  by (relation "measure length") (auto simp: decode_rune_width)

declare escape_body.simps [simp del]

definition json_string :: "string \<Rightarrow> string" where
  "json_string s = CHR 0x22 # escape_body s @ [CHR 0x22]"

definition json_newline :: "nat \<Rightarrow> string" where
  "json_newline depth = CHR 0x0A # replicate (2 * depth) CHR 0x20"

fun indent_json :: "nat \<Rightarrow> json \<Rightarrow> string"
  and indent_items :: "nat \<Rightarrow> json list \<Rightarrow> string"
  and indent_fields :: "nat \<Rightarrow> (string \<times> json) list \<Rightarrow> string" where
  "indent_json d JNull = ''null''"
| "indent_json d (JBool b) = (if b then ''true'' else ''false'')"
| "indent_json d (JInt i) = show_int i"
| "indent_json d (JString s) = json_string s"
| "indent_json d (JArray vs) = (if vs = [] then ''[]'' else CHR ''['' # indent_items (d + 1) vs @ json_newline d @ '']'')"
| "indent_json d (JObject fs) = (if fs = [] then ''{}'' else CHR ''{'' # indent_fields (d + 1) fs @ json_newline d @ ''}'')"
| "indent_items d [] = []"
| "indent_items d (v # vs) = json_newline d @ indent_json d v @ (if vs = [] then [] else CHR '','' # indent_items d vs)"
| "indent_fields d [] = []"
| "indent_fields d ((k, v) # fs) =
     json_newline d @ json_string k @ '': '' @ indent_json d v @ (if fs = [] then [] else CHR '','' # indent_fields d fs)"

definition marshal_indent :: "json \<Rightarrow> string" where
  "marshal_indent v = indent_json 0 v"

section \<open>Reading\<close>

definition hex4_value :: "char \<Rightarrow> nat option" where
  "hex4_value c = (case find (\<lambda>n. hex_digit n = c) [0..<16] of None \<Rightarrow> None | Some n \<Rightarrow> Some n)"

definition read_hex4 :: "string \<Rightarrow> nat option" where
  "read_hex4 s =
     (case s of
        [a, b, c, d] \<Rightarrow>
          (case (hex4_value a, hex4_value b, hex4_value c, hex4_value d) of
             (Some w, Some x, Some y, Some z) \<Rightarrow> Some (((w * 16 + x) * 16 + y) * 16 + z)
           | _ \<Rightarrow> None)
      | _ \<Rightarrow> None)"

text \<open>The rest of a string literal after its opening quote.\<close>

function read_body :: "string \<Rightarrow> (string \<times> string) option" where
  "read_body s =
     (case s of
        [] \<Rightarrow> None
      | c # cs \<Rightarrow>
          if c = CHR 0x22 then Some ([], cs)
          else if of_char c < (32 :: nat) then None
          else if c \<noteq> CHR 0x5C then map_option (\<lambda>(t, r). (c # t, r)) (read_body cs)
          else case cs of
                 [] \<Rightarrow> None
               | e # es \<Rightarrow>
                   if e = CHR ''u'' then
                     (case read_hex4 (take 4 es) of
                        None \<Rightarrow> None
                      | Some n \<Rightarrow> map_option (\<lambda>(t, r). (utf8_encode n @ t, r)) (read_body (drop 4 es)))
                   else case map_of (zip [CHR 0x22, CHR 0x5C, CHR ''/'', CHR ''b'', CHR ''f'', CHR ''n'', CHR ''r'', CHR ''t'']
                                        [CHR 0x22, CHR 0x5C, CHR ''/'', CHR 0x08, CHR 0x0C, CHR 0x0A, CHR 0x0D, CHR 0x09]) e of
                          None \<Rightarrow> None
                        | Some x \<Rightarrow> map_option (\<lambda>(t, r). (x # t, r)) (read_body es))"
  by pat_completeness auto
termination
  by (relation "measure length") auto

declare read_body.simps [simp del]

definition skip_space :: "string \<Rightarrow> string" where
  "skip_space s = dropWhile (\<lambda>c. c = CHR 0x20 \<or> c = CHR 0x09 \<or> c = CHR 0x0A \<or> c = CHR 0x0D) s"

definition read_number :: "string \<Rightarrow> (json \<times> string) option" where
  "read_number s =
     (let neg = prefix ''-'' s; t = (if neg then tl s else s); ds = takeWhile is_digit t
      in if ds = [] then None
         else Some (JInt (if neg then - int (digits_value ds) else int (digits_value ds)), dropWhile is_digit t))"

definition read_word :: "string \<Rightarrow> json \<Rightarrow> string \<Rightarrow> (json \<times> string) option" where
  "read_word w v s = (if prefix w s then Some (v, drop (length w) s) else None)"

fun read_json :: "nat \<Rightarrow> string \<Rightarrow> (json \<times> string) option"
  and read_items :: "nat \<Rightarrow> string \<Rightarrow> (json list \<times> string) option"
  and read_fields :: "nat \<Rightarrow> string \<Rightarrow> ((string \<times> json) list \<times> string) option" where
  "read_json 0 s = None"
| "read_json (Suc n) s =
     (case skip_space s of
        [] \<Rightarrow> None
      | c # cs \<Rightarrow>
          if c = CHR 0x22 then map_option (\<lambda>(t, r). (JString t, r)) (read_body cs)
          else if c = CHR ''['' then
            (if prefix '']'' (skip_space cs) then Some (JArray [], tl (skip_space cs))
             else map_option (\<lambda>(vs, r). (JArray vs, r)) (read_items n cs))
          else if c = CHR ''{'' then
            (if prefix ''}'' (skip_space cs) then Some (JObject [], tl (skip_space cs))
             else map_option (\<lambda>(fs, r). (JObject fs, r)) (read_fields n cs))
          else if c = CHR ''n'' then read_word ''null'' JNull (c # cs)
          else if c = CHR ''t'' then read_word ''true'' (JBool True) (c # cs)
          else if c = CHR ''f'' then read_word ''false'' (JBool False) (c # cs)
          else read_number (c # cs))"
| "read_items 0 s = None"
| "read_items (Suc n) s =
     (case read_json n s of
        None \<Rightarrow> None
      | Some (v, r) \<Rightarrow>
          (case skip_space r of
             [] \<Rightarrow> None
           | c # cs \<Rightarrow>
               if c = CHR '','' then map_option (\<lambda>(vs, r'). (v # vs, r')) (read_items n cs)
               else if c = CHR '']'' then Some ([v], cs) else None))"
| "read_fields 0 s = None"
| "read_fields (Suc n) s =
     (case skip_space s of
        [] \<Rightarrow> None
      | q # qs \<Rightarrow>
          if q \<noteq> CHR 0x22 then None
          else case read_body qs of
                 None \<Rightarrow> None
               | Some (k, r) \<Rightarrow>
                   (case skip_space r of
                      [] \<Rightarrow> None
                    | c # cs \<Rightarrow>
                        if c \<noteq> CHR '':'' then None
                        else case read_json n cs of
                               None \<Rightarrow> None
                             | Some (v, r1) \<Rightarrow>
                                 (case skip_space r1 of
                                    [] \<Rightarrow> None
                                  | d # ds \<Rightarrow>
                                      if d = CHR '','' then map_option (\<lambda>(fs, r'). ((k, v) # fs, r')) (read_fields n ds)
                                      else if d = CHR ''}'' then Some ([(k, v)], ds) else None)))"

definition json_decode :: "string \<Rightarrow> json option" where
  "json_decode s =
     (case read_json (length s) s of
        Some (v, r) \<Rightarrow> if skip_space r = [] then Some v else None
      | None \<Rightarrow> None)"

text \<open>A value with its strings made valid.\<close>

fun valid_json :: "json \<Rightarrow> json" where
  "valid_json JNull = JNull"
| "valid_json (JBool b) = JBool b"
| "valid_json (JInt i) = JInt i"
| "valid_json (JString s) = JString (to_valid s)"
| "valid_json (JArray vs) = JArray (map valid_json vs)"
| "valid_json (JObject fs) = JObject (map (\<lambda>(k, v). (to_valid k, valid_json v)) fs)"

section \<open>The round trip of strings\<close>

abbreviation prepend :: "string \<Rightarrow> (string \<times> string) option \<Rightarrow> (string \<times> string) option" where
  "prepend w \<equiv> map_option (\<lambda>(t, r). (w @ t, r))"

lemma prepend_prepend: "prepend v (prepend w x) = prepend (v @ w) x"
  by (cases x) auto

lemma hex4_value_hex4: "n < 16 \<Longrightarrow> hex4_value (hex_digit n) = Some n"
proof -
  have "list_all (\<lambda>n. hex4_value (hex_digit n) = Some n) [0..<16]" by code_simp
  then show "n < 16 \<Longrightarrow> ?thesis" by (simp add: list_all_iff)
qed

lemma read_escaped:
  assumes "length w = 4" and "read_hex4 w = Some n"
  shows "read_body (CHR 0x5C # CHR ''u'' # w @ t) = prepend (utf8_encode n) (read_body t)"
  using assms by (simp add: read_body.simps [of "CHR 0x5C # CHR ''u'' # w @ t"])

lemma read_plain:
  "of_char c \<ge> (32 :: nat) \<Longrightarrow> c \<noteq> CHR 0x22 \<Longrightarrow> c \<noteq> CHR 0x5C \<Longrightarrow> read_body (c # t) = prepend [c] (read_body t)"
  by (simp add: read_body.simps [of "c # t"])

lemma read_escape_byte:
  assumes "of_char c < (128 :: nat)"
  shows "read_body (escape_byte c @ t) = prepend [c] (read_body t)"
proof -
  let ?short = "{CHR 0x22, CHR 0x5C, CHR 0x08, CHR 0x0C, CHR 0x0A, CHR 0x0D, CHR 0x09}"
  let ?coded = "of_char c < (32 :: nat) \<or> c = CHR ''<'' \<or> c = CHR ''>'' \<or> c = CHR ''&''"
  consider (short) "c \<in> ?short" | (long) "c \<notin> ?short" "?coded" | (plain) "c \<notin> ?short" "\<not> ?coded" by blast
  then show ?thesis
  proof cases
    case short
    then show ?thesis by (auto simp: escape_byte_def read_body.simps [of "CHR 0x5C # _"])
  next
    case long
    have e: "escape_byte c = CHR 0x5C # CHR ''u'' # [CHR ''0'', CHR ''0'', hex_digit (of_char c div 16), hex_digit (of_char c mod 16)]"
      using long by (simp add: escape_byte_def)
    let ?n = "of_char c :: nat"
    have h: "hex4_value (hex_digit (?n div 16)) = Some (?n div 16)" "hex4_value (hex_digit (?n mod 16)) = Some (?n mod 16)"
      using assms by (auto intro!: hex4_value_hex4)
    have z: "hex4_value CHR ''0'' = Some 0" using hex4_value_hex4 [of 0] by (simp add: hex_digit_def)
    have "read_hex4 [CHR ''0'', CHR ''0'', hex_digit (?n div 16), hex_digit (?n mod 16)] = Some ?n"
      by (simp add: read_hex4_def h z)
    from read_escaped [OF _ this, of t] e assms show ?thesis by (simp add: utf8_encode_def)
  next
    case plain
    then have "escape_byte c = [c]" "of_char c \<ge> (32 :: nat)" "c \<noteq> CHR 0x22" "c \<noteq> CHR 0x5C"
      by (simp_all add: escape_byte_def)
    with read_plain show ?thesis by simp
  qed
qed

lemma read_high_bytes:
  "\<forall>c \<in> set w. (128 :: nat) \<le> of_char c \<Longrightarrow> read_body (w @ t) = prepend w (read_body t)"
proof (induction w)
  case (Cons c w)
  then have "of_char c \<ge> (128 :: nat)" by simp
  then have "read_body (c # w @ t) = prepend [c] (read_body (w @ t))" by (intro read_plain) auto
  with Cons show ?case by (cases "read_body t") auto
next
  case Nil
  show ?case by (cases "read_body t") auto
qed

lemma separators: "utf8_encode 8232 = [CHR 0xE2, CHR 0x80, CHR 0xA8]" "utf8_encode 8233 = [CHR 0xE2, CHR 0x80, CHR 0xA9]"
  by (simp_all add: utf8_encode_def char_of_eq_iff take_bit_eq_mod)

lemma read_hex4_escapes: "read_hex4 ''fffd'' = Some 65533" "read_hex4 ''2028'' = Some 8232" "read_hex4 ''2029'' = Some 8233"
  using hex4_value_hex4 [of 15] hex4_value_hex4 [of 13] hex4_value_hex4 [of 2] hex4_value_hex4 [of 0]
    hex4_value_hex4 [of 8] hex4_value_hex4 [of 9]
  by (simp_all add: read_hex4_def hex_digit_def)

lemma separator_head:
  assumes "n \<in> {8232, 8233}" and "prefix (utf8_encode n) s"
  shows "snd (decode_rune s) = 3 \<and> take 3 s = utf8_encode n"
proof -
  obtain r z where s: "s = CHR 0xE2 # CHR 0x80 # z # r" "z = CHR 0xA8 \<or> z = CHR 0xA9" "utf8_encode n = [CHR 0xE2, CHR 0x80, z]"
    using assms separators by (auto simp: prefix_def)
  then have "byte_at s 0 = 226" "byte_at s 1 = 128" "byte_at s 2 = 168 \<or> byte_at s 2 = 169"
    by (auto simp: byte_at_def)
  with s show ?thesis by (auto simp: decode_rune_def Let_def in_range_def)
qed

lemma read_escape_body: "read_body (escape_body s @ CHR 0x22 # rest) = Some (to_valid s, rest)"
proof (induction s rule: escape_body.induct)
  case (1 s)
  show ?case
  proof (cases "s = []")
    case True
    then show ?thesis by (simp add: escape_body.simps read_body.simps [of "CHR 0x22 # rest"])
  next
    case ne: False
    then obtain c cs where s: "s = c # cs" by (cases s) auto
    show ?thesis
    proof (cases "byte_at s 0 < 128")
      case True
      then have c: "of_char c < (128 :: nat)" using s by (simp add: byte_at_def)
      have "escape_body s = escape_byte c @ escape_body cs" using True unfolding s by (subst escape_body.simps) simp
      with "1.IH"(1) [OF ne True] read_escape_byte [OF c] to_valid_ascii [OF c] s show ?thesis by simp
    next
      case high: False
      show ?thesis
      proof (cases "invalid_head s")
        case True
        have "escape_body s = CHR 0x5C # CHR ''u'' # ''fffd'' @ escape_body (tl s)"
          using ne high True by (simp add: escape_body.simps [of s])
        with "1.IH"(2) [OF ne high True] read_escaped [OF _ read_hex4_escapes(1)] ne True show ?thesis
          by (simp add: to_valid.simps [of s])
      next
        case valid: False
        have tv: "to_valid s = take (snd (decode_rune s)) s @ to_valid (drop (snd (decode_rune s)) s)"
          using ne valid by (simp add: to_valid.simps [of s])
        have sep: "to_valid s = utf8_encode n @ to_valid (drop 3 s)" if "n \<in> {8232, 8233}" "prefix (utf8_encode n) s" for n
        proof -
          have "snd (decode_rune s) = 3 \<and> take 3 s = utf8_encode n" using that separator_head by blast
          with tv show ?thesis by simp
        qed
        consider (a) "prefix (utf8_encode 8232) s" | (b) "\<not> prefix (utf8_encode 8232) s" "prefix (utf8_encode 8233) s"
          | (c) "\<not> prefix (utf8_encode 8232) s" "\<not> prefix (utf8_encode 8233) s" by blast
        then show ?thesis
        proof cases
          case a
          have "escape_body s = CHR 0x5C # CHR ''u'' # ''2028'' @ escape_body (drop 3 s)"
            using ne high valid a by (simp add: escape_body.simps [of s])
          with "1.IH"(3) [OF ne high valid a] read_escaped [OF _ read_hex4_escapes(2)] sep [of 8232] a show ?thesis by simp
        next
          case b
          have "escape_body s = CHR 0x5C # CHR ''u'' # ''2029'' @ escape_body (drop 3 s)"
            using ne high valid b by (simp add: escape_body.simps [of s])
          with "1.IH"(4) [OF ne high valid b] read_escaped [OF _ read_hex4_escapes(3)] sep [of 8233] b show ?thesis by simp
        next
          case c
          have "escape_body s = take (snd (decode_rune s)) s @ escape_body (drop (snd (decode_rune s)) s)"
            using ne high valid c by (simp add: escape_body.simps [of s])
          moreover have "\<forall>x \<in> set (take (snd (decode_rune s)) s). (128 :: nat) \<le> of_char x"
            using decode_rune_bytes(2) [OF ne] high valid by simp
          ultimately show ?thesis
            using "1.IH"(5) [OF ne high valid c] tv read_high_bytes by simp
        qed
      qed
    qed
  qed
qed

section \<open>The round trip of values\<close>

fun weight :: "json \<Rightarrow> nat" and items_weight :: "json list \<Rightarrow> nat" and fields_weight :: "(string \<times> json) list \<Rightarrow> nat" where
  "weight (JArray vs) = Suc (items_weight vs)"
| "weight (JObject fs) = Suc (fields_weight fs)"
| "weight v = 1"
| "items_weight [] = 0"
| "items_weight (v # vs) = Suc (weight v + items_weight vs)"
| "fields_weight [] = 0"
| "fields_weight ((k, v) # fs) = Suc (weight v + fields_weight fs)"

definition ends_number :: "string \<Rightarrow> bool" where
  "ends_number rest \<longleftrightarrow> (case rest of [] \<Rightarrow> True | c # _ \<Rightarrow> \<not> is_digit c)"

lemma dropWhile_replicate_append: "P c \<Longrightarrow> dropWhile P (replicate k c @ s) = dropWhile P s"
  by (induction k) auto

lemma skip_newline [simp]: "skip_space (json_newline d @ s) = skip_space s"
  by (simp add: skip_space_def json_newline_def dropWhile_replicate_append)

lemma skip_solid [simp]:
  "c \<noteq> CHR 0x20 \<Longrightarrow> c \<noteq> CHR 0x09 \<Longrightarrow> c \<noteq> CHR 0x0A \<Longrightarrow> c \<noteq> CHR 0x0D \<Longrightarrow> skip_space (c # s) = c # s"
  by (simp add: skip_space_def)

lemma read_json_newline [simp]: "read_json n (json_newline d @ s) = read_json n s"
  by (cases n) simp_all

lemma ends_number_simps [simp]:
  "ends_number []" "ends_number (CHR '','' # s)" "ends_number (json_newline d @ s)"
  by (auto simp: ends_number_def is_digit_def json_newline_def)

lemma digit_head:
  obtains c cs where "digits n = c # cs" "is_digit c" "list_all is_digit (digits n)"
proof (cases "digits n")
  case Nil
  then show ?thesis using digits.simps [of n] by (simp split: if_splits)
next
  case (Cons c cs)
  with digits_are_digits [of n] that show ?thesis by simp
qed

lemma take_number:
  "list_all is_digit ds \<Longrightarrow> ends_number rest \<Longrightarrow> takeWhile is_digit (ds @ rest) = ds \<and> dropWhile is_digit (ds @ rest) = rest"
  by (induction ds) (auto simp: ends_number_def split: list.splits)

lemma read_number_show:
  assumes "ends_number rest"
  shows "read_number (show_int i @ rest) = Some (JInt i, rest)"
proof -
  obtain c cs where d: "digits (nat \<bar>i\<bar>) = c # cs" "is_digit c" "list_all is_digit (digits (nat \<bar>i\<bar>))"
    by (rule digit_head)
  have "c \<noteq> CHR ''-''" using d(2) by (auto simp: is_digit_def)
  with d take_number [OF d(3) assms] digits_value_digits [of "nat \<bar>i\<bar>"] show ?thesis
    by (auto simp: read_number_def show_int_def Let_def)
qed

lemma show_int_head:
  obtains c cs where "show_int i = c # cs" "is_digit c \<or> c = CHR ''-''"
  by (metis digit_head show_int_def)

lemma read_word_append: "read_word w v (w @ rest) = Some (v, rest)"
  by (simp add: read_word_def)

text \<open>The first byte of a value is no white space and no closing bracket.\<close>

definition value_head :: "char \<Rightarrow> bool" where
  "value_head c \<longleftrightarrow> c \<in> set ''ntf[{0123456789-'' \<or> c = CHR 0x22"

lemma indent_json_head:
  obtains c cs where "indent_json d v = c # cs" "value_head c"
proof -
  have "\<exists>c cs. indent_json d v = c # cs \<and> value_head c"
  proof (cases v)
    case (JInt i)
    obtain c cs where "show_int i = c # cs" "is_digit c \<or> c = CHR ''-''" by (rule show_int_head)
    with JInt show ?thesis by (auto simp: value_head_def is_digit_def)
  qed (simp_all add: value_head_def json_string_def)
  with that show thesis by blast
qed

lemma skip_value_head: "value_head c \<Longrightarrow> skip_space (c # s) = c # s"
  by (auto simp: value_head_def)

lemma skip_items: "vs \<noteq> [] \<Longrightarrow> \<not> prefix '']'' (skip_space (indent_items d vs @ s))"
proof (cases vs)
  case (Cons v ws)
  obtain c cs where c: "indent_json d v = c # cs" "value_head c" by (rule indent_json_head)
  then have "c \<noteq> CHR '']''" by (auto simp: value_head_def)
  with Cons c show ?thesis by (simp add: skip_value_head)
qed simp

lemma skip_fields: "fs \<noteq> [] \<Longrightarrow> \<not> prefix ''}'' (skip_space (indent_fields d fs @ s))"
  by (cases fs) (auto simp: json_string_def)

lemma read_json_string: "read_json (Suc n) (json_string s @ rest) = Some (JString (to_valid s), rest)"
  using read_escape_body [of s rest] by (simp add: json_string_def skip_space_def)

lemma read_json_int: "ends_number rest \<Longrightarrow> read_json (Suc n) (show_int i @ rest) = Some (JInt i, rest)"
proof -
  assume e: "ends_number rest"
  obtain c cs where c: "show_int i = c # cs" "is_digit c \<or> c = CHR ''-''" by (rule show_int_head)
  then have "value_head c" "c \<noteq> CHR 0x22" "c \<noteq> CHR ''[''" "c \<noteq> CHR ''{''" "c \<noteq> CHR ''n''" "c \<noteq> CHR ''t''" "c \<noteq> CHR ''f''"
    by (auto simp: is_digit_def value_head_def)
  with c read_number_show [OF e, of i] show ?thesis by (simp add: skip_value_head)
qed

lemma read_json_words:
  "read_json (Suc n) (''null'' @ rest) = Some (JNull, rest)"
  "read_json (Suc n) (''true'' @ rest) = Some (JBool True, rest)"
  "read_json (Suc n) (''false'' @ rest) = Some (JBool False, rest)"
  using read_word_append [of "''null''" JNull rest] read_word_append [of "''true''" "JBool True" rest]
    read_word_append [of "''false''" "JBool False" rest]
  by (simp_all add: skip_space_def)

lemma read_indent:
  "weight v \<le> n \<Longrightarrow> ends_number rest \<Longrightarrow> read_json n (indent_json d v @ rest) = Some (valid_json v, rest)"
  "vs \<noteq> [] \<Longrightarrow> items_weight vs \<le> n \<Longrightarrow>
     read_items n (indent_items d vs @ json_newline e @ CHR '']'' # rest) = Some (map valid_json vs, rest)"
  "fs \<noteq> [] \<Longrightarrow> fields_weight fs \<le> n \<Longrightarrow>
     read_fields n (indent_fields d fs @ json_newline e @ CHR ''}'' # rest) =
       Some (map (\<lambda>(k, v). (to_valid k, valid_json v)) fs, rest)"
proof (induction d v and d vs and d fs arbitrary: n rest and n rest e and n rest e
    rule: indent_json_indent_items_indent_fields.induct)
  case (1 d)
  then obtain m where "n = Suc m" by (cases n) auto
  then show ?case using read_json_words(1) by simp
next
  case (2 d b)
  then obtain m where "n = Suc m" by (cases n) auto
  then show ?case using read_json_words(2,3) by simp
next
  case (3 d i)
  then obtain m where "n = Suc m" by (cases n) auto
  with 3 show ?case using read_json_int by simp
next
  case (4 d s)
  then obtain m where "n = Suc m" by (cases n) auto
  then show ?case using read_json_string by simp
next
  case (5 d vs)
  then obtain m where m: "n = Suc m" "items_weight vs \<le> m" by (cases n) auto
  show ?case
  proof (cases "vs = []")
    case True
    with m show ?thesis by simp
  next
    case False
    with 5 m skip_items [OF False] show ?thesis by simp
  qed
next
  case (6 d fs)
  then obtain m where m: "n = Suc m" "fields_weight fs \<le> m" by (cases n) auto
  show ?case
  proof (cases "fs = []")
    case True
    with m show ?thesis by simp
  next
    case False
    with 6 m skip_fields [OF False] show ?thesis by simp
  qed
next
  case (8 d v vs)
  then obtain m where m: "n = Suc m" "weight v \<le> m" "items_weight vs \<le> m" by (cases n) auto
  show ?case
  proof (cases "vs = []")
    case True
    with m "8.IH"(1) [OF m(2), of "json_newline e @ CHR '']'' # rest"] show ?thesis by simp
  next
    case False
    with m "8.IH"(1) [OF m(2), of "CHR '','' # indent_items d vs @ json_newline e @ CHR '']'' # rest"]
      "8.IH"(2) [OF False False m(3)] show ?thesis by simp
  qed
next
  case (10 d k v fs)
  then obtain m where m: "n = Suc m" "weight v \<le> m" "fields_weight fs \<le> m" by (cases n) auto
  have sp: "skip_space (json_string k @ s) = json_string k @ s" "skip_space (CHR '':'' # s) = CHR '':'' # s"
    "skip_space (CHR '','' # s) = CHR '','' # s" "skip_space (CHR ''}'' # s) = CHR ''}'' # s" for s
    by (simp_all add: json_string_def skip_space_def)
  have js: "read_json m (CHR 0x20 # s) = read_json m s" for s by (cases m) (simp_all add: skip_space_def)
  show ?case
  proof (cases "fs = []")
    case True
    with m "10.IH"(1) [OF m(2), of "json_newline e @ CHR ''}'' # rest"] sp js read_escape_body [of k] show ?thesis
      by (simp add: json_string_def)
  next
    case False
    with m "10.IH"(1) [OF m(2), of "CHR '','' # indent_fields d fs @ json_newline e @ CHR ''}'' # rest"]
      "10.IH"(2) [OF False False m(3)] sp js read_escape_body [of k] show ?thesis
      by (simp add: json_string_def)
  qed
qed simp_all

text \<open>The number of bytes is enough fuel.\<close>

lemma weight_le_length:
  "weight v \<le> length (indent_json d v)"
  "items_weight vs \<le> length (indent_items d vs)"
  "fields_weight fs \<le> length (indent_fields d fs)"
proof (induction d v and d vs and d fs rule: indent_json_indent_items_indent_fields.induct)
  case (3 d i)
  obtain c cs where "show_int i = c # cs" "is_digit c \<or> c = CHR ''-''" by (rule show_int_head)
  then show ?case by simp
qed (auto simp: json_newline_def json_string_def split: if_splits)

lemma json_roundtrip: "json_decode (marshal_indent v) = Some (valid_json v)"
  using read_indent(1) [OF weight_le_length(1) [of v 0], of "[]" 0]
  by (simp add: json_decode_def marshal_indent_def skip_space_def)

end
