(* ===== verification/Alert_Tool.thy ===== *)
theory Alert_Tool
  imports Session_Types Go_Time Go_Json
begin

text \<open>
  src/internal/ai/tools/query_metrics_alerts.go: the tool that reports the active Prometheus alerts.
  The HTTP client, the reading of the body and \<open>json.Unmarshal\<close> are parameters that return a value or
  the text of their error; parsing the activation time, the duration in floating point, the
  simplification and the JSON text of the reply are written out. The wall clock is read once per
  reported alert, so it is a function of the number of readings made before.
\<close>

section \<open>Data\<close>

record prom_alert =
  pa_labels :: "string \<rightharpoonup> string"
  pa_annotations :: "string \<rightharpoonup> string"
  pa_state :: string
  pa_active_at :: string
  pa_value :: string

record prom_result =
  pr_status :: string
  pr_alerts :: "prom_alert list"
  pr_error :: string
  pr_error_type :: string

record simple_alert =
  sa_name :: string
  sa_description :: string
  sa_state :: string
  sa_active_at :: string
  sa_duration :: string

record alerts_output =
  ao_success :: bool
  ao_alerts :: "simple_alert list"
  ao_message :: string
  ao_error :: string

text \<open>A missing key of a Go map reads as the empty string.\<close>

definition map_get :: "(string \<rightharpoonup> string) \<Rightarrow> string \<Rightarrow> string" where
  "map_get m k = (case m k of None \<Rightarrow> [] | Some v \<Rightarrow> v)"

section \<open>The query\<close>

text \<open>\<open>queryPrometheusAlerts\<close>: neither the HTTP status nor \<open>status\<close> of the reply is looked at. The result
  next to an error is not used by the caller and left out.
  An error is its text, as every \<open>fmt.Errorf\<close> here has \<open>%v\<close>.\<close>

definition query_prometheus_alerts ::
  "(string \<Rightarrow> string + 'resp) \<Rightarrow> ('resp \<Rightarrow> string + string) \<Rightarrow> (string \<Rightarrow> string + prom_result) \<Rightarrow>
     string + prom_result" where
  "query_prometheus_alerts get read_all unmarshal =
     (let api_url = ''http://127.0.0.1:9090'' @ ''/api/v1/alerts''
      in case get api_url of
           Inl e \<Rightarrow> Inl (''failed to query Prometheus alerts: '' @ e)
         | Inr resp \<Rightarrow>
             (case read_all resp of
                Inl e \<Rightarrow> Inl (''failed to read response: '' @ e)
              | Inr body \<Rightarrow>
                  (case unmarshal body of
                     Inl e \<Rightarrow> Inl (''failed to parse response: '' @ e)
                   | Inr result \<Rightarrow> Inr result)))"

section \<open>Durations\<close>

text \<open>Go's \<open>%\<close> truncates towards zero.\<close>

definition rem_trunc :: "int \<Rightarrow> int \<Rightarrow> int" where
  "rem_trunc a b = sgn a * (\<bar>a\<bar> mod b)"

definition format_duration :: "int \<Rightarrow> string" where
  "format_duration d =
     (let hours = duration_in hour_nanos d;
          minutes = rem_trunc (duration_in minute_nanos d) 60;
          seconds = rem_trunc (duration_in second_nanos d) 60
      in if 0 < hours then show_int hours @ ''h'' @ show_int minutes @ ''m'' @ show_int seconds @ ''s''
         else if 0 < minutes then show_int minutes @ ''m'' @ show_int seconds @ ''s''
         else show_int seconds @ ''s'')"

text \<open>\<open>calculateDuration\<close> on the \<open>n\<close>-th reading of the clock, with the number of readings after it.\<close>

definition calculate_duration :: "(nat \<Rightarrow> int) \<Rightarrow> nat \<Rightarrow> string \<Rightarrow> string \<times> nat" where
  "calculate_duration clock n active_at =
     (case go_parse rfc3339_nano active_at of
        None \<Rightarrow> (''unknown'', n)
      | Some t \<Rightarrow> (format_duration (time_sub (clock n) t), n + 1))"

section \<open>The reply\<close>

fun simplify_alerts :: "(nat \<Rightarrow> int) \<Rightarrow> nat \<Rightarrow> string list \<Rightarrow> prom_alert list \<Rightarrow> simple_alert list" where
  "simplify_alerts clock n seen [] = []"
| "simplify_alerts clock n seen (a # as) =
     (let name = map_get (pa_labels a) ''alertname''
      in if name \<in> set seen then simplify_alerts clock n seen as
         else case calculate_duration clock n (pa_active_at a) of
                (duration, n') \<Rightarrow>
                  \<lparr>sa_name = name, sa_description = map_get (pa_annotations a) ''description'', sa_state = pa_state a,
                   sa_active_at = pa_active_at a, sa_duration = duration\<rparr>
                  # simplify_alerts clock n' (name # seen) as)"

text \<open>The JSON object of the reply: \<open>omitempty\<close> leaves out empty lists and strings.\<close>

definition alert_json :: "simple_alert \<Rightarrow> json" where
  "alert_json s =
     JObject [(''alert_name'', JString (sa_name s)), (''description'', JString (sa_description s)),
              (''state'', JString (sa_state s)), (''active_at'', JString (sa_active_at s)),
              (''duration'', JString (sa_duration s))]"

definition alerts_json :: "alerts_output \<Rightarrow> json" where
  "alerts_json out =
     JObject ([(''success'', JBool (ao_success out))] @
              (if ao_alerts out = [] then [] else [(''alerts'', JArray (map alert_json (ao_alerts out)))]) @
              (if ao_message out = [] then [] else [(''message'', JString (ao_message out))]) @
              (if ao_error out = [] then [] else [(''error'', JString (ao_error out))]))"

definition alerts_output_of :: "(nat \<Rightarrow> int) \<Rightarrow> string + prom_result \<Rightarrow> alerts_output" where
  "alerts_output_of clock fetched =
     (case fetched of
        Inl e \<Rightarrow> \<lparr>ao_success = False, ao_alerts = [], ao_message = ''Failed to query Prometheus alerts'',
                  ao_error = e\<rparr>
      | Inr result \<Rightarrow>
          (let simplified = simplify_alerts clock 0 [] (pr_alerts result)
           in \<lparr>ao_success = True, ao_alerts = simplified,
               ao_message = ''Successfully retrieved '' @ show_int (int (length simplified)) @ '' active alerts'',
               ao_error = []\<rparr>))"

text \<open>The handler of the tool: the text and the error it returns. \<open>MarshalIndent\<close> does not fail on
  strings and booleans, which is all the reply holds.\<close>

definition alerts_tool ::
  "(string \<Rightarrow> string + 'resp) \<Rightarrow> ('resp \<Rightarrow> string + string) \<Rightarrow> (string \<Rightarrow> string + prom_result) \<Rightarrow>
     (nat \<Rightarrow> int) \<Rightarrow> string \<times> go_error option" where
  "alerts_tool get read_all unmarshal clock =
     (let fetched = query_prometheus_alerts get read_all unmarshal
      in (marshal_indent (alerts_json (alerts_output_of clock fetched)),
          case fetched of Inl e \<Rightarrow> Some (ErrText e) | Inr result \<Rightarrow> None))"

section \<open>Which alerts are reported\<close>

definition alert_name :: "prom_alert \<Rightarrow> string" where
  "alert_name a = map_get (pa_labels a) ''alertname''"

text \<open>The specification: an alert is kept when no earlier one has its name.\<close>

fun first_of_name :: "prom_alert list \<Rightarrow> prom_alert list" where
  "first_of_name [] = []"
| "first_of_name (a # as) = a # filter (\<lambda>b. alert_name b \<noteq> alert_name a) (first_of_name as)"

definition reports :: "simple_alert \<Rightarrow> prom_alert \<Rightarrow> bool" where
  "reports s a \<longleftrightarrow> sa_name s = alert_name a \<and> sa_description s = map_get (pa_annotations a) ''description'' \<and>
     sa_state s = pa_state a \<and> sa_active_at s = pa_active_at a"

lemma simplify_alerts_reports:
  "list_all2 reports (simplify_alerts clock n seen as) (filter (\<lambda>a. alert_name a \<notin> set seen) (first_of_name as))"
proof (induction clock n seen as rule: simplify_alerts.induct)
  case (2 clock n seen a as)
  show ?case
  proof (cases "alert_name a \<in> set seen")
    case True
    then have "filter (\<lambda>b. alert_name b \<notin> set seen) (filter (\<lambda>b. alert_name b \<noteq> alert_name a) (first_of_name as)) =
        filter (\<lambda>b. alert_name b \<notin> set seen) (first_of_name as)"
      by (auto intro!: filter_cong simp: filter_filter)
    with True 2 show ?thesis by (simp add: alert_name_def Let_def)
  next
    case False
    obtain d n' where d: "calculate_duration clock n (pa_active_at a) = (d, n')" by fastforce
    have "filter (\<lambda>b. alert_name b \<notin> set (alert_name a # seen)) (first_of_name as) =
        filter (\<lambda>b. alert_name b \<notin> set seen) (filter (\<lambda>b. alert_name b \<noteq> alert_name a) (first_of_name as))"
      by (auto intro!: filter_cong simp: filter_filter)
    with False 2(2) [OF alert_name_def _ d [symmetric]] d show ?thesis
      by (simp add: alert_name_def Let_def reports_def)
  qed
qed simp

lemma first_of_name_names: "alert_name ` set (first_of_name as) = alert_name ` set as"
proof (induction as)
  case (Cons a as)
  have "alert_name ` set (first_of_name (a # as)) = insert (alert_name a) (alert_name ` set (first_of_name as))"
    by auto
  with Cons show ?case by simp
qed simp

lemma first_of_name_distinct: "distinct (map alert_name (first_of_name as))"
  by (induction as) (auto simp: distinct_map_filter)

lemma first_of_name_find: "a \<in> set (first_of_name as) \<Longrightarrow> find (\<lambda>b. alert_name b = alert_name a) as = Some a"
  by (induction as) auto

section \<open>Properties\<close>

lemma reports_names: "list_all2 reports ss as \<Longrightarrow> map sa_name ss = map alert_name as"
  by (induction rule: list_all2_induct) (auto simp: reports_def)

lemma simplify_reports: "list_all2 reports (simplify_alerts clock n [] as) (first_of_name as)"
  using simplify_alerts_reports [of clock n "[]" as] by (simp add: filter_True)

lemma simplify_names: "map sa_name (simplify_alerts clock n [] as) = map alert_name (first_of_name as)"
  by (rule reports_names [OF simplify_reports])

text \<open>The JSON text of a reply: its strings come back as valid UTF-8, and the tool's own are ASCII.\<close>

definition valid_alert :: "simple_alert \<Rightarrow> simple_alert" where
  "valid_alert s =
     \<lparr>sa_name = to_valid (sa_name s), sa_description = to_valid (sa_description s), sa_state = to_valid (sa_state s),
      sa_active_at = to_valid (sa_active_at s), sa_duration = to_valid (sa_duration s)\<rparr>"

definition valid_output :: "alerts_output \<Rightarrow> alerts_output" where
  "valid_output out =
     \<lparr>ao_success = ao_success out, ao_alerts = map valid_alert (ao_alerts out), ao_message = to_valid (ao_message out),
      ao_error = to_valid (ao_error out)\<rparr>"

lemma valid_keys [simp]:
  "to_valid ''alert_name'' = ''alert_name''" "to_valid ''description'' = ''description''" "to_valid ''state'' = ''state''"
  "to_valid ''active_at'' = ''active_at''" "to_valid ''duration'' = ''duration''" "to_valid ''success'' = ''success''"
  "to_valid ''alerts'' = ''alerts''" "to_valid ''message'' = ''message''" "to_valid ''error'' = ''error''"
  by (simp_all add: to_valid_ascii_all)

lemma to_valid_eq_Nil: "to_valid s = [] \<longleftrightarrow> s = []"
proof (cases "s = []")
  case False
  moreover have "utf8_encode 65533 \<noteq> []" by (simp add: utf8_encode_def)
  moreover have "snd (decode_rune s) \<noteq> 0" using decode_rune_width [of s] by simp
  ultimately show ?thesis by (cases "invalid_head s") (simp_all add: to_valid.simps [of s])
qed simp

lemma valid_alert_json: "valid_json (alert_json s) = alert_json (valid_alert s)"
  by (simp add: alert_json_def valid_alert_def)

lemma valid_alerts_json: "valid_json (alerts_json out) = alerts_json (valid_output out)"
  by (simp add: alerts_json_def valid_output_def valid_alert_json to_valid_eq_Nil)

lemma show_int_ascii: "list_all (\<lambda>c. of_char c < (128 :: nat)) (show_int i)"
proof -
  have "list_all (\<lambda>c. of_char c < (128 :: nat)) (digits n)" for n
  proof -
    have "list_all (\<lambda>c. of_char c < (128 :: nat)) ''0123456789''" by simp
    with digits_chars show ?thesis unfolding list_all_iff by blast
  qed
  then show ?thesis by (simp add: show_int_def)
qed

lemma alerts_reply:
  "\<exists>text. alerts_tool get read_all unmarshal clock =
     (text, case query_prometheus_alerts get read_all unmarshal of Inl e \<Rightarrow> Some (ErrText e) | Inr r \<Rightarrow> None) \<and>
     json_decode text =
       Some (alerts_json (valid_output (alerts_output_of clock (query_prometheus_alerts get read_all unmarshal))))"
  by (simp add: alerts_tool_def Let_def json_roundtrip valid_alerts_json)


text \<open>The names in the reply are those of the queried alerts, each once.\<close>

lemma alerts_deduplicated:
  "distinct (map sa_name (simplify_alerts clock n [] as)) \<and>
   set (map sa_name (simplify_alerts clock n [] as)) = alert_name ` set as"
  using first_of_name_distinct [of as] first_of_name_names [of as] by (simp only: simplify_names set_map simp_thms)

text \<open>A reply of Prometheus that reports an error, and so has no alerts, is passed on as a success.\<close>

lemma error_reply_reported_as_success:
  "alerts_output_of clock (Inr \<lparr>pr_status = ''error'', pr_alerts = [], pr_error = e, pr_error_type = t\<rparr>) =
     \<lparr>ao_success = True, ao_alerts = [], ao_message = ''Successfully retrieved 0 active alerts'', ao_error = []\<rparr>"
  by (simp add: alerts_output_of_def Let_def show_int_def digits.simps char_of_eq_iff take_bit_eq_mod)

section \<open>The age of an alert\<close>

lemma clock_of_seconds:
  fixes s :: int
  shows "s div 60 div 60 * 3600 + s div 60 mod 60 * 60 + s mod 60 = s"
proof -
  have "s div 60 div 60 * 3600 + s div 60 mod 60 * 60 = (s div 60 div 60 * 60 + s div 60 mod 60) * 60"
    by (simp only: distrib_right mult.assoc)
  also have "\<dots> = s div 60 * 60" by (simp only: div_mult_mod_eq)
  finally show ?thesis by (simp only: div_mult_mod_eq)
qed

lemma format_duration_exact:
  assumes "0 \<le> d" and "d < 4096 * int hour_nanos"
  shows "\<exists>h m s. h * 3600 + m * 60 + s = d div 1000000000 \<and> 0 \<le> h \<and> 0 \<le> m \<and> m < 60 \<and> 0 \<le> s \<and> s < 60 \<and>
    format_duration d = (if 0 < h then show_int h @ ''h'' @ show_int m @ ''m'' @ show_int s @ ''s''
      else if 0 < m then show_int m @ ''m'' @ show_int s @ ''s'' else show_int s @ ''s'')"
proof -
  let ?t = "d div 1000000000"
  have t: "0 \<le> ?t" using assms(1) by (simp add: pos_imp_zdiv_nonneg_iff)
  have sg: "sgn d * (\<bar>d\<bar> div k) = d div k" "rem_trunc (d div k) 60 = d div k mod 60" if "0 < k" for k
  proof -
    show "sgn d * (\<bar>d\<bar> div k) = d div k" using assms(1) by (cases "d = 0") simp_all
    have "0 \<le> d div k" using assms(1) that by (simp add: pos_imp_zdiv_nonneg_iff)
    then show "rem_trunc (d div k) 60 = d div k mod 60" by (cases "d div k = 0") (simp_all add: rem_trunc_def)
  qed
  have "\<bar>d\<bar> < 4096 * int hour_nanos" using assms by simp
  note ex = duration_exact [OF this]
  have units: "int second_nanos = 1000000000" "int minute_nanos = 1000000000 * 60" "int hour_nanos = 1000000000 * 60 * 60"
    by (simp_all add: hour_nanos_def minute_nanos_def second_nanos_def)
  have k: "0 < int second_nanos" "0 < int minute_nanos" "0 < int hour_nanos" unfolding units by simp_all
  have div: "d div int minute_nanos = ?t div 60" "d div int hour_nanos = ?t div 60 div 60" "d div int second_nanos = ?t"
    unfolding units by (simp_all only: zdiv_zmult2_eq [of 60] zero_le_numeral)
  have e: "duration_in hour_nanos d = ?t div 60 div 60" "rem_trunc (duration_in minute_nanos d) 60 = ?t div 60 mod 60"
    "rem_trunc (duration_in second_nanos d) 60 = ?t mod 60"
    by (simp_all only: ex sg(1) [OF k(1)] sg(1) [OF k(2)] sg(1) [OF k(3)]
      sg(2) [OF k(1), unfolded div] sg(2) [OF k(2), unfolded div] div)
  show ?thesis
  proof (intro exI conjI)
    show "?t div 60 div 60 * 3600 + ?t div 60 mod 60 * 60 + ?t mod 60 = ?t" by (rule clock_of_seconds)
    show "0 \<le> ?t div 60 div 60" using t by (simp only: pos_imp_zdiv_nonneg_iff zero_less_numeral)
    show "0 \<le> ?t div 60 mod 60" "?t div 60 mod 60 < 60" "0 \<le> ?t mod 60" "?t mod 60 < 60"
      by (simp_all only: pos_mod_sign pos_mod_bound zero_less_numeral)
  qed (simp only: format_duration_def e Let_def)
qed

text \<open>(C29) The age of an alert whose activation time Prometheus printed, over the 170 days for which the floating point
  of \<open>calculateDuration\<close> is exact: hours, minutes and seconds that add up to the whole seconds passed.\<close>

theorem alert_age_exact:
  assumes "printable (fields_of t)" and "in_nanos t \<le> clock n" and "clock n - in_nanos t < 4096 * 3600000000000"
  shows "\<exists>h m s. h * 3600 + m * 60 + s = (clock n - in_nanos t) div 1000000000 \<and>
    0 \<le> h \<and> 0 \<le> m \<and> m < 60 \<and> 0 \<le> s \<and> s < 60 \<and>
    calculate_duration clock n (go_format rfc3339_nano t) =
      (if 0 < h then show_int h @ ''h'' @ show_int m @ ''m'' @ show_int s @ ''s''
       else if 0 < m then show_int m @ ''m'' @ show_int s @ ''s'' else show_int s @ ''s'', n + 1)"
proof -
  let ?d = "clock n - in_nanos t"
  have b: "0 \<le> ?d" "?d < 4096 * int hour_nanos" using assms by (simp_all add: hour_nanos_def)
  have "time_sub (clock n) (in_nanos t) = ?d" using assms by (simp add: time_sub_def)
  then have "calculate_duration clock n (go_format rfc3339_nano t) = (format_duration ?d, n + 1)"
    using parse_format_rfc3339 [OF assms(1)] by (simp add: calculate_duration_def)
  moreover obtain h m s where "h * 3600 + m * 60 + s = ?d div 1000000000" "0 \<le> h" "0 \<le> m" "m < 60" "0 \<le> s" "s < 60"
    "format_duration ?d = (if 0 < h then show_int h @ ''h'' @ show_int m @ ''m'' @ show_int s @ ''s''
      else if 0 < m then show_int m @ ''m'' @ show_int s @ ''s'' else show_int s @ ''s'')"
    using format_duration_exact [OF b] by blast
  ultimately show ?thesis by (intro exI [of _ h] exI [of _ m] exI [of _ s]) (simp only: simp_thms)
qed

theorem alert_age_exact_witness:
  "calculate_duration (\<lambda>n. 3723000000000) 0 (go_format rfc3339_nano \<lparr>in_nanos = 0, in_offset = 0\<rparr>) = (''1h2m3s'', 1)"
proof -
  let ?t = "\<lparr>in_nanos = 0, in_offset = 0\<rparr>"
  have "fields_of ?t = \<lparr>tf_year = 1970, tf_month = 1, tf_day = 1, tf_hour = 0, tf_minute = 0, tf_second = 0, tf_nano = 0,
      tf_zone = Some 0\<rparr>" by code_simp
  moreover have "printable \<lparr>tf_year = 1970, tf_month = 1, tf_day = 1, tf_hour = 0, tf_minute = 0, tf_second = 0, tf_nano = 0,
      tf_zone = Some 0\<rparr>" by code_simp
  ultimately have p: "printable (fields_of ?t)" by simp
  have age: "in_nanos ?t \<le> 3723000000000" "3723000000000 - in_nanos ?t < 4096 * 3600000000000" by simp_all
  obtain h m s where sum: "h * 3600 + m * 60 + s = (3723000000000 - in_nanos ?t) div 1000000000"
    and hms: "0 \<le> h" "0 \<le> m" "m < 60" "0 \<le> s" "s < 60"
    and r: "calculate_duration (\<lambda>n. 3723000000000) 0 (go_format rfc3339_nano ?t) =
      (if 0 < h then show_int h @ ''h'' @ show_int m @ ''m'' @ show_int s @ ''s''
       else if 0 < m then show_int m @ ''m'' @ show_int s @ ''s'' else show_int s @ ''s'', 0 + 1)"
    using alert_age_exact [where clock = "\<lambda>n. 3723000000000" and n = 0, OF p age] by blast
  from sum have "h * 3600 + m * 60 + s = 3723" by simp
  moreover from this hms have "h < 2" "0 < h" by linarith+
  ultimately have h: "h = 1" "m * 60 + s = 123" by linarith+
  with hms have "m < 3" "1 < m" by linarith+
  with h have "h = 1" "m = 2" "s = 3" by linarith+
  moreover have "show_int 1 = ''1''" "show_int 2 = ''2''" "show_int 3 = ''3''"
    by (simp_all add: show_int_def digits.simps char_of_eq_iff take_bit_eq_mod)
  ultimately show ?thesis using r by simp
qed

end
