(* ===== verification/Time_Tool.thy ===== *)
theory Time_Tool
  imports Session_Types Go_Time Go_Json
begin

text \<open>
  src/internal/ai/tools/get_current_time.go: the tool that tells the model the current time. The clock
  (\<open>time.Now()\<close>, with the zone of the machine) is a parameter; the three Unix times, the timestamp and
  the JSON text of the reply are written out.
\<close>

record time_output =
  to_success :: bool
  to_seconds :: int
  to_milliseconds :: int
  to_microseconds :: int
  to_timestamp :: string
  to_message :: string

text \<open>\<open>Unix\<close>, \<open>UnixMilli\<close> and \<open>UnixMicro\<close> round down. They stay far inside an int64 for every year of four
  digits.\<close>

definition time_output_of :: "instant \<Rightarrow> time_output" where
  "time_output_of now =
     \<lparr>to_success = True,
      to_seconds = in_nanos now div 1000000000,
      to_milliseconds = in_nanos now div 1000000,
      to_microseconds = in_nanos now div 1000,
      to_timestamp = go_format micro_layout now,
      to_message = ''Current time retrieved successfully''\<rparr>"

definition time_json :: "time_output \<Rightarrow> json" where
  "time_json out =
     JObject [(''success'', JBool (to_success out)), (''seconds'', JInt (to_seconds out)),
              (''milliseconds'', JInt (to_milliseconds out)), (''microseconds'', JInt (to_microseconds out)),
              (''timestamp'', JString (to_timestamp out)), (''message'', JString (to_message out))]"

text \<open>The handler: \<open>MarshalIndent\<close> does not fail on a struct of booleans, integers and strings.\<close>

definition current_time_tool :: "instant \<Rightarrow> string \<times> go_error option" where
  "current_time_tool now = (marshal_indent (time_json (time_output_of now)), None)"

section \<open>Properties\<close>

lemma format_micro_ascii: "list_all (\<lambda>c. of_char c < (128 :: nat)) (go_format micro_layout t)"
proof -
  have d: "is_digit c \<Longrightarrow> of_char c < (128 :: nat)" for c
  proof -
    have "list_all (\<lambda>c. of_char c < (128 :: nat)) ''0123456789''" by simp
    then show "is_digit c \<Longrightarrow> of_char c < (128 :: nat)" unfolding is_digit_def list_all_iff by blast
  qed
  have p: "list_all (\<lambda>c. of_char c < (128 :: nat)) (pad w n)" for w n
    using pad_digits [of w n] d by (auto simp: list_all_iff)
  then have "list_all (\<lambda>c. of_char c < (128 :: nat)) (take k (pad w n))" for k w n
    by (auto simp: list_all_iff dest: in_set_takeD)
  with p show ?thesis by (simp add: go_format_def micro_layout_def)
qed

lemma time_keys [simp]:
  "to_valid ''success'' = ''success''" "to_valid ''seconds'' = ''seconds''" "to_valid ''milliseconds'' = ''milliseconds''"
  "to_valid ''microseconds'' = ''microseconds''" "to_valid ''timestamp'' = ''timestamp''" "to_valid ''message'' = ''message''"
  "to_valid ''Current time retrieved successfully'' = ''Current time retrieved successfully''"
  by (simp_all add: to_valid_ascii_all)

lemma valid_time_json: "valid_json (time_json (time_output_of now)) = time_json (time_output_of now)"
  by (simp add: time_json_def time_output_of_def to_valid_ascii_all [OF format_micro_ascii])

text \<open>(C30) The reply reads back as one time: the seconds and milliseconds are those of the microseconds, and the
  timestamp, read with its own layout, is the local time of the same microsecond.\<close>

theorem time_reply_is_one_time:
  assumes "printable (fields_of now)"
  shows "\<exists>reply micros stamp. current_time_tool now = (reply, None) \<and>
    json_decode reply = Some (JObject [(''success'', JBool True), (''seconds'', JInt (micros div 1000000)),
      (''milliseconds'', JInt (micros div 1000)), (''microseconds'', JInt micros), (''timestamp'', JString stamp),
      (''message'', JString ''Current time retrieved successfully'')]) \<and>
    micros * 1000 \<le> in_nanos now \<and> in_nanos now < micros * 1000 + 1000 \<and>
    go_parse micro_layout stamp = Some ((micros + in_offset now * 1000000) * 1000)"
proof -
  let ?u = "in_nanos now div 1000"
  have f: "?u div 1000000 = in_nanos now div 1000000000" "?u div 1000 = in_nanos now div 1000000"
    by (simp_all flip: zdiv_zmult2_eq)
  have "?u * 1000 + in_nanos now mod 1000 = in_nanos now" by (rule div_mult_mod_eq)
  moreover have "0 \<le> in_nanos now mod 1000" "in_nanos now mod 1000 < 1000" by simp_all
  ultimately have b: "?u * 1000 \<le> in_nanos now" "in_nanos now < ?u * 1000 + 1000" by linarith+
  have "go_parse micro_layout (go_format micro_layout now) = Some ((?u + in_offset now * 1000000) * 1000)"
    by (simp only: parse_format_micro [OF assms] distrib_right mult.assoc) simp
  moreover have "json_decode (marshal_indent (time_json (time_output_of now))) = Some (time_json (time_output_of now))"
    by (simp only: json_roundtrip valid_time_json)
  ultimately show ?thesis using b
    by (intro exI [of _ "marshal_indent (time_json (time_output_of now))"] exI [of _ ?u] exI [of _ "go_format micro_layout now"])
       (simp only: current_time_tool_def time_json_def time_output_of_def time_output.simps f simp_thms)
qed

text \<open>One and a half seconds before 1970 in New York: the Unix times round down.\<close>

theorem time_reply_is_one_time_witness:
  "\<exists>reply stamp. current_time_tool \<lparr>in_nanos = - 1500000000, in_offset = - 18000\<rparr> = (reply, None) \<and>
    json_decode reply = Some (JObject [(''success'', JBool True), (''seconds'', JInt (- 2)),
      (''milliseconds'', JInt (- 1500)), (''microseconds'', JInt (- 1500000)), (''timestamp'', JString stamp),
      (''message'', JString ''Current time retrieved successfully'')]) \<and>
    go_parse micro_layout stamp = Some (- 18001500000000)"
proof -
  let ?t = "\<lparr>in_nanos = - 1500000000, in_offset = - 18000\<rparr>"
  have "fields_of ?t = \<lparr>tf_year = 1969, tf_month = 12, tf_day = 31, tf_hour = 18, tf_minute = 59, tf_second = 58,
      tf_nano = 500000000, tf_zone = Some (- 18000)\<rparr>" by code_simp
  moreover have "printable \<lparr>tf_year = 1969, tf_month = 12, tf_day = 31, tf_hour = 18, tf_minute = 59, tf_second = 58,
      tf_nano = 500000000, tf_zone = Some (- 18000)\<rparr>" by code_simp
  ultimately have "printable (fields_of ?t)" by simp
  from time_reply_is_one_time [OF this] obtain reply micros stamp where
    "current_time_tool ?t = (reply, None)" and
    j: "json_decode reply = Some (JObject [(''success'', JBool True), (''seconds'', JInt (micros div 1000000)),
      (''milliseconds'', JInt (micros div 1000)), (''microseconds'', JInt micros), (''timestamp'', JString stamp),
      (''message'', JString ''Current time retrieved successfully'')])" and
    u: "micros * 1000 \<le> - 1500000000" "- 1500000000 < micros * 1000 + 1000" and
    p: "go_parse micro_layout stamp = Some ((micros + - 18000 * 1000000) * 1000)"
    by (auto simp only: instant.simps)
  moreover from u have "micros = - 1500000" by linarith
  ultimately show ?thesis by simp
qed

end
