(* ===== verification/Chat_Prompt.thy ===== *)
theory Chat_Prompt
  imports Chat_Pipeline Go_Time
begin

text \<open>
  The prompt of the chat agent, chat_pipeline/prompt.go, and its place in the graph: the template's text and
  parts, the variables that reach the template node, which are the output of the lambda \<open>InputToChat\<close> merged
  with the retriever's documents under the key \<open>documents\<close>, and the messages that go on to the agent. The
  template library is a parameter with its documented behaviour; the variables that a text names are
  computed here.
\<close>

section \<open>The template\<close>

text \<open>The lines of the system prompt, as UTF-8.\<close>

definition prompt_lines :: "string list" where
  "prompt_lines =
     [''# '' @ [CHR 0xE8, CHR 0xA7, CHR 0x92, CHR 0xE8, CHR 0x89, CHR 0xB2, CHR 0xEF, CHR 0xBC, CHR 0x9A, CHR 0xE5,
      CHR 0xAF, CHR 0xB9, CHR 0xE8, CHR 0xAF, CHR 0x9D, CHR 0xE5, CHR 0xB0, CHR 0x8F, CHR 0xE5, CHR 0x8A, CHR 0xA9,
      CHR 0xE6, CHR 0x89, CHR 0x8B],
      ''## '' @ [CHR 0xE6, CHR 0xA0, CHR 0xB8, CHR 0xE5, CHR 0xBF, CHR 0x83, CHR 0xE8, CHR 0x83, CHR 0xBD, CHR 0xE5,
      CHR 0x8A, CHR 0x9B],
      ''- '' @ [CHR 0xE4, CHR 0xB8, CHR 0x8A, CHR 0xE4, CHR 0xB8, CHR 0x8B, CHR 0xE6, CHR 0x96, CHR 0x87, CHR 0xE7,
      CHR 0x90, CHR 0x86, CHR 0xE8, CHR 0xA7, CHR 0xA3, CHR 0xE4, CHR 0xB8, CHR 0x8E, CHR 0xE5, CHR 0xAF, CHR 0xB9,
      CHR 0xE8, CHR 0xAF, CHR 0x9D],
      ''- '' @ [CHR 0xE6, CHR 0x90, CHR 0x9C, CHR 0xE7, CHR 0xB4, CHR 0xA2, CHR 0xE7, CHR 0xBD, CHR 0x91, CHR 0xE7,
      CHR 0xBB, CHR 0x9C, CHR 0xE8, CHR 0x8E, CHR 0xB7, CHR 0xE5, CHR 0xBE, CHR 0x97, CHR 0xE4, CHR 0xBF, CHR 0xA1,
      CHR 0xE6, CHR 0x81, CHR 0xAF],
      ''## '' @ [CHR 0xE4, CHR 0xBA, CHR 0x92, CHR 0xE5, CHR 0x8A, CHR 0xA8, CHR 0xE6, CHR 0x8C, CHR 0x87, CHR 0xE5,
      CHR 0x8D, CHR 0x97],
      ''- '' @ [CHR 0xE5, CHR 0x9C, CHR 0xA8, CHR 0xE5, CHR 0x9B, CHR 0x9E, CHR 0xE5, CHR 0xA4, CHR 0x8D, CHR 0xE5,
      CHR 0x89, CHR 0x8D, CHR 0xEF, CHR 0xBC, CHR 0x8C, CHR 0xE8, CHR 0xAF, CHR 0xB7, CHR 0xE7, CHR 0xA1, CHR 0xAE,
      CHR 0xE4, CHR 0xBF, CHR 0x9D, CHR 0xE4, CHR 0xBD, CHR 0xA0, CHR 0xEF, CHR 0xBC, CHR 0x9A],
      ''  '' @ [CHR 0xE2, CHR 0x80, CHR 0xA2] @ '' '' @ [CHR 0xE5, CHR 0xAE, CHR 0x8C, CHR 0xE5, CHR 0x85, CHR 0xA8,
      CHR 0xE7, CHR 0x90, CHR 0x86, CHR 0xE8, CHR 0xA7, CHR 0xA3, CHR 0xE7, CHR 0x94, CHR 0xA8, CHR 0xE6, CHR 0x88,
      CHR 0xB7, CHR 0xE7, CHR 0x9A, CHR 0x84, CHR 0xE9, CHR 0x9C, CHR 0x80, CHR 0xE6, CHR 0xB1, CHR 0x82, CHR 0xE5,
      CHR 0x92, CHR 0x8C, CHR 0xE9, CHR 0x97, CHR 0xAE, CHR 0xE9, CHR 0xA2, CHR 0x98, CHR 0xEF, CHR 0xBC, CHR 0x8C,
      CHR 0xE5, CHR 0xA6, CHR 0x82, CHR 0xE6, CHR 0x9E, CHR 0x9C, CHR 0xE6, CHR 0x9C, CHR 0x89, CHR 0xE4, CHR 0xB8,
      CHR 0x8D, CHR 0xE6, CHR 0xB8, CHR 0x85, CHR 0xE6, CHR 0xA5, CHR 0x9A, CHR 0xE7, CHR 0x9A, CHR 0x84, CHR 0xE5,
      CHR 0x9C, CHR 0xB0, CHR 0xE6, CHR 0x96, CHR 0xB9, CHR 0xEF, CHR 0xBC, CHR 0x8C, CHR 0xE8, CHR 0xA6, CHR 0x81,
      CHR 0xE5, CHR 0x90, CHR 0x91, CHR 0xE7, CHR 0x94, CHR 0xA8, CHR 0xE6, CHR 0x88, CHR 0xB7, CHR 0xE7, CHR 0xA1,
      CHR 0xAE, CHR 0xE8, CHR 0xAE, CHR 0xA4],
      ''  '' @ [CHR 0xE2, CHR 0x80, CHR 0xA2] @ '' '' @ [CHR 0xE8, CHR 0x80, CHR 0x83, CHR 0xE8, CHR 0x99, CHR 0x91,
      CHR 0xE6, CHR 0x9C, CHR 0x80, CHR 0xE5, CHR 0x90, CHR 0x88, CHR 0xE9, CHR 0x80, CHR 0x82, CHR 0xE7, CHR 0x9A,
      CHR 0x84, CHR 0xE8, CHR 0xA7, CHR 0xA3, CHR 0xE5, CHR 0x86, CHR 0xB3, CHR 0xE6, CHR 0x96, CHR 0xB9, CHR 0xE6,
      CHR 0xA1, CHR 0x88, CHR 0xE6, CHR 0x96, CHR 0xB9, CHR 0xE6, CHR 0xB3, CHR 0x95],
      ''  '' @ [CHR 0xE2, CHR 0x80, CHR 0xA2] @ '' '' @ [CHR 0xE6, CHR 0x97, CHR 0xA5, CHR 0xE5, CHR 0xBF, CHR 0x97,
      CHR 0xE4, CHR 0xB8, CHR 0xBB, CHR 0xE9, CHR 0xA2, CHR 0x98, CHR 0xE5, CHR 0x9C, CHR 0xB0, CHR 0xE5, CHR 0x9F,
      CHR 0x9F, CHR 0xEF, CHR 0xBC, CHR 0x9A] @ ''ap-guangzhou'' @ [CHR 0xEF, CHR 0xBC, CHR 0x9B, CHR 0xE6, CHR 0x97,
      CHR 0xA5, CHR 0xE5, CHR 0xBF, CHR 0x97, CHR 0xE4, CHR 0xB8, CHR 0xBB, CHR 0xE9, CHR 0xA2, CHR 0x98] @ ''id'' @
      [CHR 0xEF, CHR 0xBC, CHR 0x9A] @ ''869830db-a055-4479-963b-3c898d27e755'',
      ''- '' @ [CHR 0xE6, CHR 0x8F, CHR 0x90, CHR 0xE4, CHR 0xBE, CHR 0x9B, CHR 0xE5, CHR 0xB8, CHR 0xAE, CHR 0xE5,
      CHR 0x8A, CHR 0xA9, CHR 0xE6, CHR 0x97, CHR 0xB6, CHR 0xEF, CHR 0xBC, CHR 0x9A],
      ''  '' @ [CHR 0xE2, CHR 0x80, CHR 0xA2] @ '' '' @ [CHR 0xE8, CHR 0xAF, CHR 0xAD, CHR 0xE8, CHR 0xA8, CHR 0x80,
      CHR 0xE6, CHR 0xB8, CHR 0x85, CHR 0xE6, CHR 0x99, CHR 0xB0, CHR 0xE7, CHR 0xAE, CHR 0x80, CHR 0xE6, CHR 0xB4,
      CHR 0x81],
      ''  '' @ [CHR 0xE2, CHR 0x80, CHR 0xA2] @ '' '' @ [CHR 0xE9, CHR 0x80, CHR 0x82, CHR 0xE5, CHR 0xBD, CHR 0x93,
      CHR 0xE7, CHR 0x9A, CHR 0x84, CHR 0xE6, CHR 0x97, CHR 0xB6, CHR 0xE5, CHR 0x80, CHR 0x99, CHR 0xE6, CHR 0x8F,
      CHR 0x90, CHR 0xE4, CHR 0xBE, CHR 0x9B, CHR 0xE5, CHR 0xAE, CHR 0x9E, CHR 0xE9, CHR 0x99, CHR 0x85, CHR 0xE4,
      CHR 0xBE, CHR 0x8B, CHR 0xE5, CHR 0xAD, CHR 0x90],
      ''  '' @ [CHR 0xE2, CHR 0x80, CHR 0xA2] @ '' '' @ [CHR 0xE6, CHR 0x9C, CHR 0x89, CHR 0xE5, CHR 0xB8, CHR 0xAE,
      CHR 0xE5, CHR 0x8A, CHR 0xA9, CHR 0xE6, CHR 0x97, CHR 0xB6, CHR 0xE5, CHR 0x8F, CHR 0x82, CHR 0xE8, CHR 0x80,
      CHR 0x83, CHR 0xE6, CHR 0x96, CHR 0x87, CHR 0xE6, CHR 0xA1, CHR 0xA3],
      ''  '' @ [CHR 0xE2, CHR 0x80, CHR 0xA2] @ '' '' @ [CHR 0xE9, CHR 0x80, CHR 0x82, CHR 0xE7, CHR 0x94, CHR 0xA8,
      CHR 0xE6, CHR 0x97, CHR 0xB6, CHR 0xE5, CHR 0xBB, CHR 0xBA, CHR 0xE8, CHR 0xAE, CHR 0xAE, CHR 0xE6, CHR 0x94,
      CHR 0xB9, CHR 0xE8, CHR 0xBF, CHR 0x9B, CHR 0xE6, CHR 0x88, CHR 0x96, CHR 0xE4, CHR 0xB8, CHR 0x8B, CHR 0xE4,
      CHR 0xB8, CHR 0x80, CHR 0xE6, CHR 0xAD, CHR 0xA5, CHR 0xE6, CHR 0x93, CHR 0x8D, CHR 0xE4, CHR 0xBD, CHR 0x9C],
      ''- '' @ [CHR 0xE5, CHR 0xA6, CHR 0x82, CHR 0xE6, CHR 0x9E, CHR 0x9C, CHR 0xE8, CHR 0xAF, CHR 0xB7, CHR 0xE6,
      CHR 0xB1, CHR 0x82, CHR 0xE8, CHR 0xB6, CHR 0x85, CHR 0xE5, CHR 0x87, CHR 0xBA, CHR 0xE4, CHR 0xBA, CHR 0x86,
      CHR 0xE4, CHR 0xBD, CHR 0xA0, CHR 0xE7, CHR 0x9A, CHR 0x84, CHR 0xE8, CHR 0x83, CHR 0xBD, CHR 0xE5, CHR 0x8A,
      CHR 0x9B, CHR 0xE8, CHR 0x8C, CHR 0x83, CHR 0xE5, CHR 0x9B, CHR 0xB4, CHR 0xEF, CHR 0xBC, CHR 0x9A],
      ''  '' @ [CHR 0xE2, CHR 0x80, CHR 0xA2] @ '' '' @ [CHR 0xE6, CHR 0xB8, CHR 0x85, CHR 0xE6, CHR 0x99, CHR 0xB0,
      CHR 0xE5, CHR 0x9C, CHR 0xB0, CHR 0xE8, CHR 0xAF, CHR 0xB4, CHR 0xE6, CHR 0x98, CHR 0x8E, CHR 0xE4, CHR 0xBD,
      CHR 0xA0, CHR 0xE7, CHR 0x9A, CHR 0x84, CHR 0xE5, CHR 0xB1, CHR 0x80, CHR 0xE9, CHR 0x99, CHR 0x90, CHR 0xE6,
      CHR 0x80, CHR 0xA7, CHR 0xEF, CHR 0xBC, CHR 0x8C, CHR 0xE5, CHR 0xA6, CHR 0x82, CHR 0xE6, CHR 0x9E, CHR 0x9C,
      CHR 0xE5, CHR 0x8F, CHR 0xAF, CHR 0xE8, CHR 0x83, CHR 0xBD, CHR 0xE7, CHR 0x9A, CHR 0x84, CHR 0xE8, CHR 0xAF,
      CHR 0x9D, CHR 0xEF, CHR 0xBC, CHR 0x8C, CHR 0xE5, CHR 0xBB, CHR 0xBA, CHR 0xE8, CHR 0xAE, CHR 0xAE, CHR 0xE5,
      CHR 0x85, CHR 0xB6, CHR 0xE4, CHR 0xBB, CHR 0x96, CHR 0xE6, CHR 0x96, CHR 0xB9, CHR 0xE6, CHR 0xB3, CHR 0x95],
      ''- '' @ [CHR 0xE5, CHR 0xA6, CHR 0x82, CHR 0xE6, CHR 0x9E, CHR 0x9C, CHR 0xE9, CHR 0x97, CHR 0xAE, CHR 0xE9,
      CHR 0xA2, CHR 0x98, CHR 0xE6, CHR 0x98, CHR 0xAF, CHR 0xE5, CHR 0xA4, CHR 0x8D, CHR 0xE5, CHR 0x90, CHR 0x88,
      CHR 0xE6, CHR 0x88, CHR 0x96, CHR 0xE5, CHR 0xA4, CHR 0x8D, CHR 0xE6, CHR 0x9D, CHR 0x82, CHR 0xE7, CHR 0x9A,
      CHR 0x84, CHR 0xEF, CHR 0xBC, CHR 0x8C, CHR 0xE4, CHR 0xBD, CHR 0xA0, CHR 0xE9, CHR 0x9C, CHR 0x80, CHR 0xE8,
      CHR 0xA6, CHR 0x81, CHR 0xE4, CHR 0xB8, CHR 0x80, CHR 0xE6, CHR 0xAD, CHR 0xA5, CHR 0xE6, CHR 0xAD, CHR 0xA5,
      CHR 0xE6, CHR 0x80, CHR 0x9D, CHR 0xE8, CHR 0x80, CHR 0x83, CHR 0xEF, CHR 0xBC, CHR 0x8C, CHR 0xE9, CHR 0x81,
      CHR 0xBF, CHR 0xE5, CHR 0x85, CHR 0x8D, CHR 0xE7, CHR 0x9B, CHR 0xB4, CHR 0xE6, CHR 0x8E, CHR 0xA5, CHR 0xE7,
      CHR 0xBB, CHR 0x99, CHR 0xE5, CHR 0x87, CHR 0xBA, CHR 0xE8, CHR 0xB4, CHR 0xA8, CHR 0xE9, CHR 0x87, CHR 0x8F,
      CHR 0xE4, CHR 0xB8, CHR 0x8D, CHR 0xE9, CHR 0xAB, CHR 0x98, CHR 0xE7, CHR 0x9A, CHR 0x84, CHR 0xE5, CHR 0x9B,
      CHR 0x9E, CHR 0xE7, CHR 0xAD, CHR 0x94, CHR 0xE3, CHR 0x80, CHR 0x82],
      ''## '' @ [CHR 0xE8, CHR 0xBE, CHR 0x93, CHR 0xE5, CHR 0x87, CHR 0xBA, CHR 0xE8, CHR 0xA6, CHR 0x81, CHR 0xE6,
      CHR 0xB1, CHR 0x82, CHR 0xEF, CHR 0xBC, CHR 0x9A],
      ''  '' @ [CHR 0xE2, CHR 0x80, CHR 0xA2] @ '' '' @ [CHR 0xE6, CHR 0x98, CHR 0x93, CHR 0xE8, CHR 0xAF, CHR 0xBB,
      CHR 0xEF, CHR 0xBC, CHR 0x8C, CHR 0xE7, CHR 0xBB, CHR 0x93, CHR 0xE6, CHR 0x9E, CHR 0x84, CHR 0xE8, CHR 0x89,
      CHR 0xAF, CHR 0xE5, CHR 0xA5, CHR 0xBD, CHR 0xEF, CHR 0xBC, CHR 0x8C, CHR 0xE5, CHR 0xBF, CHR 0x85, CHR 0xE8,
      CHR 0xA6, CHR 0x81, CHR 0xE6, CHR 0x97, CHR 0xB6, CHR 0xE6, CHR 0x8D, CHR 0xA2, CHR 0xE8, CHR 0xA1, CHR 0x8C],
      ''  '' @ [CHR 0xE2, CHR 0x80, CHR 0xA2] @ '' '' @ [CHR 0xE8, CHR 0xBE, CHR 0x93, CHR 0xE5, CHR 0x87, CHR 0xBA,
      CHR 0xE4, CHR 0xB8, CHR 0x8D, CHR 0xE8, CHR 0x83, CHR 0xBD, CHR 0xE5, CHR 0x8C, CHR 0x85, CHR 0xE5, CHR 0x90,
      CHR 0xAB] @ ''markdown'' @ [CHR 0xE7, CHR 0x9A, CHR 0x84, CHR 0xE8, CHR 0xAF, CHR 0xAD, CHR 0xE6, CHR 0xB3,
      CHR 0x95, CHR 0xEF, CHR 0xBC, CHR 0x8C, CHR 0xE8, CHR 0xBE, CHR 0x93, CHR 0xE5, CHR 0x87, CHR 0xBA, CHR 0xE9,
      CHR 0x9C, CHR 0x80, CHR 0xE8, CHR 0xA6, CHR 0x81, CHR 0xE7, CHR 0xBA, CHR 0xAF, CHR 0xE6, CHR 0x96, CHR 0x87,
      CHR 0xE6, CHR 0x9C, CHR 0xAC],
      ''## '' @ [CHR 0xE4, CHR 0xB8, CHR 0x8A, CHR 0xE4, CHR 0xB8, CHR 0x8B, CHR 0xE6, CHR 0x96, CHR 0x87, CHR 0xE4,
      CHR 0xBF, CHR 0xA1, CHR 0xE6, CHR 0x81, CHR 0xAF],
      ''- '' @ [CHR 0xE5, CHR 0xBD, CHR 0x93, CHR 0xE5, CHR 0x89, CHR 0x8D, CHR 0xE6, CHR 0x97, CHR 0xA5, CHR 0xE6,
      CHR 0x9C, CHR 0x9F, CHR 0xEF, CHR 0xBC, CHR 0x9A] @ ''{date}'',
      ''- '' @ [CHR 0xE7, CHR 0x9B, CHR 0xB8, CHR 0xE5, CHR 0x85, CHR 0xB3, CHR 0xE6, CHR 0x96, CHR 0x87, CHR 0xE6,
      CHR 0xA1, CHR 0xA3, CHR 0xEF, CHR 0xBC, CHR 0x9A] @ ''|-'',
      ''==== '' @ [CHR 0xE6, CHR 0x96, CHR 0x87, CHR 0xE6, CHR 0xA1, CHR 0xA3, CHR 0xE5, CHR 0xBC, CHR 0x80,
      CHR 0xE5, CHR 0xA7, CHR 0x8B] @ '' ===='',
      ''  {documents}'',
      ''==== '' @ [CHR 0xE6, CHR 0x96, CHR 0x87, CHR 0xE6, CHR 0xA1, CHR 0xA3, CHR 0xE7, CHR 0xBB, CHR 0x93,
      CHR 0xE6, CHR 0x9D, CHR 0x9F] @ '' ===='']"

definition system_prompt :: string where
  "system_prompt = CHR 0x0A # concat (map (\<lambda>l. l @ [CHR 0x0A]) prompt_lines)"

text \<open>A part of the template: a message whose text names variables, or a place for the messages of a
  variable, which may be missing when the flag is set.\<close>

datatype template = TextTemplate role string | MessagesTemplate string bool

definition chat_template :: "template list" where
  "chat_template =
     [TextTemplate System system_prompt, MessagesTemplate ''history'' False, TextTemplate User ''{content}'']"

section \<open>Variables\<close>

datatype 'doc prompt_value = TextValue string | MessagesValue "msgptr list" | DocumentsValue "'doc list"

type_synonym 'doc prompt_vars = "string \<rightharpoonup> 'doc prompt_value"

definition lambda_vars :: "prompt_input \<Rightarrow> 'doc prompt_vars" where
  "lambda_vars i =
     [''content'' \<mapsto> TextValue (pi_content i), ''history'' \<mapsto> MessagesValue (pi_history i), ''date'' \<mapsto> TextValue (pi_date i)]"

definition retriever_vars :: "'doc list \<Rightarrow> 'doc prompt_vars" where
  "retriever_vars docs = [''documents'' \<mapsto> DocumentsValue docs]"

text \<open>The layout \<open>2006-01-02 15:04:05\<close> of the date.\<close>

definition date_layout :: "chunk list" where
  "date_layout = [Year4, Lit ''-'', Month2, Lit ''-'', Day2, Lit '' '', Hour24, Lit '':'', Minute2, Lit '':'', Second2]"

text \<open>The variables a text names: what stands between a brace and the next closing brace; a doubled brace is
  a literal one.\<close>

function text_variables :: "string \<Rightarrow> string list" where
  "text_variables s =
     (case s of
        [] \<Rightarrow> []
      | c # cs \<Rightarrow>
          if c \<noteq> CHR ''{'' then text_variables cs
          else if prefix ''{'' cs then text_variables (tl cs)
          else takeWhile ((\<noteq>) CHR ''}'') cs # text_variables (dropWhile ((\<noteq>) CHR ''}'') cs))"
  by pat_completeness auto
termination
  by (relation "measure length") (auto simp: less_Suc_eq_le length_dropWhile_le)

declare text_variables.simps [simp del]

fun template_supplied :: "'doc prompt_vars \<Rightarrow> template \<Rightarrow> bool" where
  "template_supplied vars (TextTemplate r s) \<longleftrightarrow> (\<forall>v \<in> set (text_variables s). vars v \<noteq> None)"
| "template_supplied vars (MessagesTemplate v optional) \<longleftrightarrow>
     (case vars v of None \<Rightarrow> optional | Some (MessagesValue ms) \<Rightarrow> True | _ \<Rightarrow> False)"

section \<open>The library\<close>

text \<open>\<open>prompt.FromMessages\<close> with the format \<open>FString\<close>, and what its documentation says: when every variable
  is supplied it gives the parts in their order, a text with its variables put in, a place for messages with the
  messages of its variable; and a text that is one variable gives that variable's text.\<close>

record 'doc prompt_lib =
  pl_messages :: "template list \<Rightarrow> 'doc prompt_vars \<Rightarrow> msgptr list result"
  pl_text :: "string \<Rightarrow> 'doc prompt_vars \<Rightarrow> string"

fun template_messages :: "'doc prompt_lib \<Rightarrow> 'doc prompt_vars \<Rightarrow> template \<Rightarrow> msgptr list" where
  "template_messages pl vars (TextTemplate r s) = [Some (plain_message r (pl_text pl s vars))]"
| "template_messages pl vars (MessagesTemplate v optional) =
     (case vars v of Some (MessagesValue ms) \<Rightarrow> ms | _ \<Rightarrow> [])"

definition prompt_laws :: "'doc prompt_lib \<Rightarrow> bool" where
  "prompt_laws pl \<longleftrightarrow>
     (\<forall>ts vars. (\<forall>t \<in> set ts. template_supplied vars t) \<longrightarrow>
        pl_messages pl ts vars = Inr (concat (map (template_messages pl vars) ts))) \<and>
     (\<forall>v vars x. CHR ''{'' \<notin> set v \<longrightarrow> CHR ''}'' \<notin> set v \<longrightarrow> vars v = Some (TextValue x) \<longrightarrow>
        pl_text pl (CHR ''{'' # v @ ''}'') vars = x)"

section \<open>The prompt of a turn\<close>

text \<open>The part of the graph before the agent: both branches start from the user's message, the retriever gets
  the query, and the template node waits for both.\<close>

definition turn_prompt ::
  "'doc prompt_lib \<Rightarrow> (ctx \<Rightarrow> string \<Rightarrow> ('w, 'doc list) op) \<Rightarrow> ctx \<Rightarrow> instant \<Rightarrow> user_input \<Rightarrow> ('w, msgptr list) op" where
  "turn_prompt pl retrieve c now i w =
     (case input_to_rag i of Inl e \<Rightarrow> (w, Inl e) | Inr query \<Rightarrow>
     (case retrieve c query w of (w', Inl e) \<Rightarrow> (w', Inl e) | (w', Inr docs) \<Rightarrow>
     (case input_to_chat (go_format date_layout now) i of Inl e \<Rightarrow> (w', Inl e) | Inr pin \<Rightarrow>
       (w', pl_messages pl chat_template (lambda_vars pin ++ retriever_vars docs)))))"

section \<open>Properties\<close>

lemma text_variables_plain:
  "CHR ''{'' \<notin> set s \<Longrightarrow> text_variables (s @ t) = text_variables t"
  by (induction s) (auto simp: text_variables.simps [of "_ # _"])

lemma text_variables_Nil [simp]: "text_variables [] = []"
  by (simp add: text_variables.simps)

lemma text_variables_var:
  assumes "CHR ''{'' \<notin> set v" and "CHR ''}'' \<notin> set v" and "v \<noteq> []"
  shows "text_variables (CHR ''{'' # v @ CHR ''}'' # t) = v # text_variables t"
proof -
  have w: "takeWhile ((\<noteq>) CHR ''}'') (v @ CHR ''}'' # t) = v" "dropWhile ((\<noteq>) CHR ''}'') (v @ CHR ''}'' # t) = CHR ''}'' # t"
    using assms(2) by (induction v) auto
  have "\<not> prefix ''{'' (v @ CHR ''}'' # t)" using assms(1,3) by (cases v) auto
  then show ?thesis
    by (simp add: text_variables.simps [of "CHR ''{'' # _"] text_variables.simps [of "CHR ''}'' # _"] w)
qed

text \<open>The system prompt names the date and the documents.\<close>

definition prompt_text :: "string list \<Rightarrow> string" where
  "prompt_text ls = concat (map (\<lambda>l. l @ [CHR 0x0A]) ls)"

lemma prompt_text_append: "prompt_text (ls @ ls') = prompt_text ls @ prompt_text ls'"
  and prompt_text_Cons: "prompt_text (l # ls) = l @ CHR 0x0A # prompt_text ls"
  by (simp_all add: prompt_text_def)

lemma prompt_text_plain: "list_all (\<lambda>l. CHR ''{'' \<notin> set l) ls \<Longrightarrow> CHR ''{'' \<notin> set (prompt_text ls)"
  by (induction ls) (auto simp: prompt_text_def)

lemma prompt_lines_split:
  "\<exists>a l b c. prompt_lines = a @ [l @ CHR ''{'' # ''date'' @ ''}''] @ b @ [''  '' @ CHR ''{'' # ''documents'' @ ''}''] @ c \<and>
     list_all (\<lambda>l. CHR ''{'' \<notin> set l) a \<and> CHR ''{'' \<notin> set l \<and> list_all (\<lambda>l. CHR ''{'' \<notin> set l) b \<and>
     list_all (\<lambda>l. CHR ''{'' \<notin> set l) c"
proof -
  let ?l = "''- '' @ [CHR 0xE5, CHR 0xBD, CHR 0x93, CHR 0xE5, CHR 0x89, CHR 0x8D, CHR 0xE6, CHR 0x97, CHR 0xA5, CHR 0xE6,
    CHR 0x9C, CHR 0x9F, CHR 0xEF, CHR 0xBC, CHR 0x9A]"
  have "prompt_lines = take 21 prompt_lines @ [?l @ CHR ''{'' # ''date'' @ ''}''] @ take 2 (drop 22 prompt_lines) @
      [''  '' @ CHR ''{'' # ''documents'' @ ''}''] @ drop 25 prompt_lines"
    by (simp add: prompt_lines_def)
  moreover have "list_all (\<lambda>l. CHR ''{'' \<notin> set l) (take 21 prompt_lines)"
    "list_all (\<lambda>l. CHR ''{'' \<notin> set l) (take 2 (drop 22 prompt_lines))"
    "list_all (\<lambda>l. CHR ''{'' \<notin> set l) (drop 25 prompt_lines)" "CHR ''{'' \<notin> set ?l"
    by (simp_all add: prompt_lines_def)
  ultimately show ?thesis by blast
qed

lemma prompt_variables: "text_variables system_prompt = [''date'', ''documents'']"
proof -
  obtain a l b c where s: "prompt_lines = a @ [l @ CHR ''{'' # ''date'' @ ''}''] @ b @ [''  '' @ CHR ''{'' # ''documents'' @ ''}''] @ c"
    and a: "list_all (\<lambda>l. CHR ''{'' \<notin> set l) a" and l: "CHR ''{'' \<notin> set l"
    and b: "list_all (\<lambda>l. CHR ''{'' \<notin> set l) b" and c: "list_all (\<lambda>l. CHR ''{'' \<notin> set l) c"
    using prompt_lines_split by blast
  have e: "system_prompt = ([CHR 0x0A] @ prompt_text a @ l) @ CHR ''{'' # ''date'' @ CHR ''}'' #
      ([CHR 0x0A] @ prompt_text b @ ''  '') @ CHR ''{'' # ''documents'' @ CHR ''}'' # ([CHR 0x0A] @ prompt_text c) @ []"
    unfolding system_prompt_def prompt_text_def [symmetric] s by (simp add: prompt_text_append prompt_text_Cons prompt_text_def)
  have x: "CHR ''{'' \<notin> set ([CHR 0x0A] @ prompt_text a @ l)"
    and y: "CHR ''{'' \<notin> set ([CHR 0x0A] @ prompt_text b @ ''  '')" and z: "CHR ''{'' \<notin> set ([CHR 0x0A] @ prompt_text c)"
    using prompt_text_plain [OF a] prompt_text_plain [OF b] prompt_text_plain [OF c] l by simp_all
  have d: "CHR ''{'' \<notin> set ''date''" "CHR ''}'' \<notin> set ''date''" "''date'' \<noteq> []"
    and o: "CHR ''{'' \<notin> set ''documents''" "CHR ''}'' \<notin> set ''documents''" "''documents'' \<noteq> []" by simp_all
  show ?thesis
    unfolding e text_variables_plain [OF x] text_variables_var [OF d] text_variables_plain [OF y] text_variables_var [OF o]
      text_variables_plain [OF z] text_variables_Nil by (rule refl)
qed

lemma content_variables: "text_variables ''{content}'' = [''content'']"
  using text_variables_var [of "''content''" "[]"] by simp

text \<open>(C31) The two branches of the graph supply every variable of the template, so that a turn whose retrieval succeeds
  has a prompt: one system message, the history as it is, and the question, whatever it contains.\<close>

theorem turn_prompt_complete:
  fixes pl :: "'doc prompt_lib"
  assumes "prompt_laws pl"
  shows "case retrieve c (ui_query i) w of
      (w', Inl e) \<Rightarrow> turn_prompt pl retrieve c now i w = (w', Inl e)
    | (w', Inr docs) \<Rightarrow> \<exists>preamble.
        turn_prompt pl retrieve c now i w =
          (w', Inr (Some (plain_message System preamble) # ui_history i @ [Some (user_message (ui_query i))]))"
proof -
  define vars :: "'doc list \<Rightarrow> 'doc prompt_vars" where "vars docs = lambda_vars \<lparr>pi_content = ui_query i, pi_history = ui_history i, pi_date = go_format date_layout now\<rparr> ++
    retriever_vars docs" for docs
  have v: "vars docs ''date'' = Some (TextValue (go_format date_layout now))"
    "vars docs ''documents'' = Some (DocumentsValue docs)" "vars docs ''content'' = Some (TextValue (ui_query i))"
    "vars docs ''history'' = Some (MessagesValue (ui_history i))" for docs
    by (simp_all add: vars_def lambda_vars_def retriever_vars_def)
  have "\<forall>t \<in> set chat_template. template_supplied (vars docs) t" for docs
    by (simp add: chat_template_def prompt_variables content_variables v)
  then have "pl_messages pl chat_template (vars docs) = Inr (concat (map (template_messages pl (vars docs)) chat_template))" for docs
    using assms by (simp add: prompt_laws_def)
  moreover have "pl_text pl ''{content}'' (vars docs) = ui_query i" for docs
  proof -
    have "\<forall>v vars x. CHR ''{'' \<notin> set v \<longrightarrow> CHR ''}'' \<notin> set v \<longrightarrow> vars v = Some (TextValue x) \<longrightarrow>
        pl_text pl (CHR ''{'' # v @ ''}'') vars = x"
      using assms unfolding prompt_laws_def by blast
    from this [rule_format, of "''content''"] v(3) show ?thesis by simp
  qed
  ultimately have "turn_prompt pl retrieve c now i w =
      (case retrieve c (ui_query i) w of (w', Inl e) \<Rightarrow> (w', Inl e)
       | (w', Inr docs) \<Rightarrow> (w', Inr (Some (plain_message System (pl_text pl system_prompt (vars docs))) # ui_history i @
           [Some (user_message (ui_query i))])))"
    by (simp add: turn_prompt_def input_to_rag_def input_to_chat_def chat_template_def v flip: vars_def)
  then show ?thesis by (auto split: prod.split sum.split)
qed

text \<open>A library that puts the texts of variables in as they are.\<close>

definition show_var :: "'doc prompt_value option \<Rightarrow> string" where
  "show_var x = (case x of Some (TextValue s) \<Rightarrow> s | _ \<Rightarrow> [])"

definition plain_prompts :: "'doc prompt_lib" where
  "plain_prompts =
     (let txt = (\<lambda>s vars. concat (map (\<lambda>v. show_var (vars v)) (text_variables s)))
      in \<lparr>pl_messages = (\<lambda>ts vars.
            if list_all (template_supplied vars) ts
            then Inr (concat (map (template_messages \<lparr>pl_messages = \<lambda>_ _. Inr [], pl_text = txt\<rparr> vars) ts))
            else Inl (ErrExternal ''missing variable'')),
          pl_text = txt\<rparr>)"

lemma plain_template:
  "template_messages \<lparr>pl_messages = f, pl_text = pl_text plain_prompts\<rparr> vars = template_messages plain_prompts vars"
proof
  show "template_messages \<lparr>pl_messages = f, pl_text = pl_text plain_prompts\<rparr> vars t = template_messages plain_prompts vars t" for t
    by (cases t) simp_all
qed

lemma plain_prompts_laws: "prompt_laws plain_prompts"
proof -
  have var: "text_variables (CHR ''{'' # v @ ''}'') = [v]" if "CHR ''{'' \<notin> set v" "CHR ''}'' \<notin> set v" for v
  proof (cases "v = []")
    case True
    have "text_variables ''{}'' = [[]]" by (simp add: text_variables.simps)
    with True show ?thesis by simp
  next
    case False
    with text_variables_var [OF that False, of "[]"] show ?thesis by simp
  qed
  have "pl_text plain_prompts (CHR ''{'' # v @ ''}'') vars = x"
    if "CHR ''{'' \<notin> set v" "CHR ''}'' \<notin> set v" "vars v = Some (TextValue x)" for v x and vars :: "'doc prompt_vars"
    using that(3) by (simp add: plain_prompts_def Let_def var [OF that(1,2)] show_var_def)
  moreover have "pl_messages plain_prompts ts vars = Inr (concat (map (template_messages plain_prompts vars) ts))"
    if "\<forall>t \<in> set ts. template_supplied vars t" for ts and vars :: "'doc prompt_vars"
  proof -
    have "pl_messages plain_prompts ts vars =
        Inr (concat (map (template_messages \<lparr>pl_messages = \<lambda>_ _. Inr [], pl_text = pl_text plain_prompts\<rparr> vars) ts))"
      using that by (simp add: plain_prompts_def Let_def list_all_iff)
    then show ?thesis by (simp only: plain_template)
  qed
  ultimately show ?thesis unfolding prompt_laws_def by blast
qed

theorem turn_prompt_complete_witness:
  "\<exists>preamble. turn_prompt plain_prompts (\<lambda>c q w. (w, Inr [q])) background \<lparr>in_nanos = 0, in_offset = 0\<rparr>
     \<lparr>ui_query = ''why {date}?'', ui_history = [Some (user_message ''hi''), Some (assistant_message ''hello'')]\<rparr> () =
   ((), Inr [Some (plain_message System preamble), Some (user_message ''hi''), Some (assistant_message ''hello''),
             Some (user_message ''why {date}?'')])"
  using turn_prompt_complete [where retrieve = "\<lambda>c q w. (w, Inr [q])" and c = background and w = "()" and
      now = "\<lparr>in_nanos = 0, in_offset = 0\<rparr>" and i = "\<lparr>ui_query = ''why {date}?'',
      ui_history = [Some (user_message ''hi''), Some (assistant_message ''hello'')]\<rparr>", OF plain_prompts_laws]
  by simp

end
