(* ===== verification/Milvus_Client.thy ===== *)
theory Milvus_Client
  imports Resources
begin

text \<open>
  The bootstrap of the vector store, utility/client/client.go: it connects to the default database,
  creates the program's database and its collection with three indexes when they are missing, and loads
  the collection. The answers of the server are a parameter; what is modelled are the calls, their order
  and which connections stay open.
\<close>

section \<open>The schema\<close>

datatype field_type = VarChar | BinaryVector | JSONField

record field =
  fd_name :: string
  fd_type :: field_type
  fd_params :: "(string \<times> string) list"
  fd_primary :: bool

definition client_fields :: "field list" where
  "client_fields =
     [\<lparr>fd_name = ''id'', fd_type = VarChar, fd_params = [(''max_length'', ''256'')], fd_primary = True\<rparr>,
      \<lparr>fd_name = ''vector'', fd_type = BinaryVector, fd_params = [(''dim'', ''65536'')], fd_primary = False\<rparr>,
      \<lparr>fd_name = ''content'', fd_type = VarChar, fd_params = [(''max_length'', ''8192'')], fd_primary = False\<rparr>,
      \<lparr>fd_name = ''metadata'', fd_type = JSONField, fd_params = [], fd_primary = False\<rparr>]"

definition database_name :: string where
  "database_name = ''agent''"

definition biz_collection :: string where
  "biz_collection = ''biz''"

section \<open>The calls\<close>

datatype metric = L2 | Hamming

datatype milvus_call =
    Connect string | ListDatabases | CreateDatabase string | ListCollections
  | CreateCollection string "field list" | MakeIndex metric | CreateIndex string string metric
  | CloseClient string | LoadCollection string

record milvus_answers =
  ma_connect :: "string \<Rightarrow> go_error option"
  ma_databases :: "string list result"
  ma_create_database :: "go_error option"
  ma_collections :: "string list result"
  ma_create_collection :: "go_error option"
  ma_make_index :: "metric \<Rightarrow> go_error option"
  ma_create_index :: "string \<Rightarrow> go_error option"
  ma_load :: "go_error option"

definition index_on :: "milvus_answers \<Rightarrow> string \<Rightarrow> metric \<Rightarrow> (milvus_call, unit) traced" where
  "index_on a name m =
     and_then (call_or (''failed to create '' @ name @ '' index: '') (MakeIndex m) (answer (ma_make_index a m)))
       (\<lambda>_. call_or (''failed to create '' @ name @ '' index: '') (CreateIndex biz_collection name m)
              (answer (ma_create_index a name)))"

definition create_biz :: "milvus_answers \<Rightarrow> (milvus_call, unit) traced" where
  "create_biz a =
     and_then (call_or ''failed to create biz collection: '' (CreateCollection biz_collection client_fields)
        (answer (ma_create_collection a))) (\<lambda>_.
     and_then (index_on a ''id'' L2) (\<lambda>_.
     and_then (index_on a ''content'' L2) (\<lambda>_. index_on a ''vector'' Hamming)))"

definition ensure_database :: "milvus_answers \<Rightarrow> string list \<Rightarrow> (milvus_call, unit) traced" where
  "ensure_database a databases =
     (if database_name \<in> set databases then pure ()
      else call_or ''failed to create agent database: '' (CreateDatabase database_name) (answer (ma_create_database a)))"

definition ensure_collection :: "milvus_answers \<Rightarrow> string list \<Rightarrow> (milvus_call, unit) traced" where
  "ensure_collection a collections = (if biz_collection \<in> set collections then pure () else create_biz a)"

text \<open>\<open>NewMilvusClient\<close> up to the check of the collection, and whole; a success returns the second client.\<close>

definition connect_agent :: "milvus_answers \<Rightarrow> (milvus_call, string list) traced" where
  "connect_agent a =
     and_then (call_or ''failed to connect to default database: '' (Connect ''default'') (answer (ma_connect a ''default''))) (\<lambda>_.
     and_then (call_or ''failed to list databases: '' ListDatabases (to_run (ma_databases a))) (\<lambda>databases.
     and_then (ensure_database a databases) (\<lambda>_.
     and_then (call_or ''failed to connect to agent database: '' (Connect database_name)
        (answer (ma_connect a database_name))) (\<lambda>_.
     call_or ''failed to list collections: '' ListCollections (to_run (ma_collections a))))))"

definition new_milvus_client :: "milvus_answers \<Rightarrow> (milvus_call, string) traced" where
  "new_milvus_client a =
     and_then (connect_agent a) (\<lambda>collections.
     and_then (ensure_collection a collections) (\<lambda>_.
     and_then ([CloseClient ''default''], Value ()) (\<lambda>_.
     and_then (call_or ''failed to load biz collection: '' (LoadCollection biz_collection) (answer (ma_load a)))
       (\<lambda>_. pure database_name))))"

section \<open>Which connections stay open\<close>

fun client_events :: "milvus_answers \<Rightarrow> milvus_call list \<Rightarrow> string handle_event list" where
  "client_events a [] = []"
| "client_events a (Connect db # cs) =
     (if ma_connect a db = None then Opened db # client_events a cs else client_events a cs)"
| "client_events a (CloseClient db # cs) = Closed db # client_events a cs"
| "client_events a (_ # cs) = client_events a cs"

lemma client_events_append [simp]: "client_events a (cs @ cs') = client_events a cs @ client_events a cs'"
  by (induction a cs rule: client_events.induct) auto

text \<open>Calls that open and close nothing and do not panic.\<close>

definition quiet :: "milvus_answers \<Rightarrow> (milvus_call, 'a) traced \<Rightarrow> bool" where
  "quiet a m \<longleftrightarrow> client_events a (fst m) = [] \<and> snd m \<noteq> Panicked"

lemma quiet_pure [simp]: "quiet a (pure x)"
  by (simp add: quiet_def pure_def)

lemma quiet_and_then: "quiet a m \<Longrightarrow> (\<And>x. quiet a (f x)) \<Longrightarrow> quiet a (and_then m f)"
  unfolding quiet_def and_then_def by (auto split: prod.splits run.splits) (metis fst_conv snd_conv)+

lemma quiet_call: "client_events a [c] = [] \<Longrightarrow> r \<noteq> Panicked \<Longrightarrow> quiet a (call_or msg c r)"
  by (cases r) (auto simp: quiet_def)

lemma quiet_index_on: "quiet a (index_on a name m)"
  unfolding index_on_def by (intro quiet_and_then quiet_call) auto

lemma quiet_create_biz: "quiet a (create_biz a)"
  unfolding create_biz_def by (intro quiet_and_then quiet_call quiet_index_on) auto

lemma quiet_ensure: "quiet a (ensure_collection a cs)" "quiet a (ensure_database a dbs)"
  by (auto simp: ensure_collection_def ensure_database_def quiet_create_biz intro!: quiet_call)

text \<open>What a success has called.\<close>

lemma call_or_Value: "call_or msg c r = (cs, Value x) \<longleftrightarrow> cs = [c] \<and> r = Value x"
  by (cases r) (auto simp: call_or_def)

lemma index_on_Value:
  "index_on a name m = (cs, Value u) \<longleftrightarrow>
     cs = [MakeIndex m, CreateIndex biz_collection name m] \<and> ma_make_index a m = None \<and> ma_create_index a name = None"
  by (auto simp: index_on_def and_then_Value call_or_Value)

definition created_indexes :: "milvus_call list" where
  "created_indexes =
     [CreateCollection biz_collection client_fields,
      MakeIndex L2, CreateIndex biz_collection ''id'' L2, MakeIndex L2, CreateIndex biz_collection ''content'' L2,
      MakeIndex Hamming, CreateIndex biz_collection ''vector'' Hamming]"

lemma create_biz_Value:
  "create_biz a = (cs, Value u) \<longleftrightarrow> cs = created_indexes \<and> ma_create_collection a = None \<and>
     (\<forall>m \<in> {L2, Hamming}. ma_make_index a m = None) \<and>
     (\<forall>name \<in> {''id'', ''content'', ''vector''}. ma_create_index a name = None)"
  by (auto simp: create_biz_def and_then_Value call_or_Value index_on_Value created_indexes_def)

lemma create_biz_first: "create_biz a = (cs, r) \<Longrightarrow> \<exists>rest. cs = CreateCollection biz_collection client_fields # rest"
  by (cases "ma_create_collection a") (auto simp: create_biz_def)

text \<open>The connections after the first part: nothing is closed there.\<close>

lemma connect_agent_Value:
  assumes "connect_agent a = (cs, Value collections)"
  shows "open_after (client_events a cs) = [database_name, ''default'']" "ma_collections a = Inr collections"
    "CloseClient db \<notin> set cs" "CreateCollection c fs \<notin> set cs" "CreateIndex c f m \<notin> set cs"
  using assms
  by (auto simp: connect_agent_def and_then_Value call_or_Value ensure_database_def pure_def open_after_def split: if_splits)

lemma connect_agent_Failed:
  assumes "connect_agent a = (cs, r)" and "ma_connect a ''default'' = None"
  shows "''default'' \<in> set (open_after (client_events a cs))" "r \<noteq> Panicked"
    "CreateCollection c fs \<notin> set cs" "CreateIndex c f m \<notin> set cs" "CloseClient db \<notin> set cs"
proof -
  have "''default'' \<in> set (open_after (client_events a cs)) \<and> r \<noteq> Panicked \<and>
      CreateCollection c fs \<notin> set cs \<and> CreateIndex c f m \<notin> set cs \<and> CloseClient db \<notin> set cs"
  proof (cases "ma_databases a")
    case (Inl e)
    with assms show ?thesis by (auto simp: connect_agent_def open_after_def)
  next
    case (Inr dbs)
    obtain cs1 r1 where ens: "ensure_database a dbs = (cs1, r1)" by fastforce
    have q: "client_events a cs1 = []" "r1 \<noteq> Panicked" "set cs1 \<subseteq> {CreateDatabase database_name}"
      using quiet_ensure(2) [of a dbs] ens
      by (auto simp: quiet_def ensure_database_def pure_def call_or_def split: if_splits)
    show ?thesis
    proof (cases r1)
      case (Value u)
      with assms Inr ens q show ?thesis
        by (cases "ma_connect a database_name"; cases "ma_collections a") (auto simp: connect_agent_def open_after_def)
    qed (use assms Inr ens q in \<open>auto simp: connect_agent_def open_after_def\<close>)
  qed
  then show "''default'' \<in> set (open_after (client_events a cs))" "r \<noteq> Panicked"
    "CreateCollection c fs \<notin> set cs" "CreateIndex c f m \<notin> set cs" "CloseClient db \<notin> set cs" by auto
qed

section \<open>Properties\<close>

text \<open>A client is returned only for a loaded collection: the database connection is then the only one left
  open, and a collection that was not listed has been created with all its indexes in this order.\<close>

theorem bootstrap_ready:
  assumes "new_milvus_client a = (cs, Value db)"
  shows "db = database_name \<and> open_after (client_events a cs) = [database_name] \<and>
    (\<exists>before collections. ma_collections a = Inr collections \<and>
       cs = before @ (if biz_collection \<in> set collections then [] else created_indexes) @
         [CloseClient ''default'', LoadCollection biz_collection])"
proof -
  obtain cs1 collections cs2 where con: "connect_agent a = (cs1, Value collections)"
    and ens: "ensure_collection a collections = (cs2, Value ())"
    and cs: "cs = cs1 @ cs2 @ [CloseClient ''default'', LoadCollection biz_collection]" and db: "db = database_name"
    using assms by (cases "ma_load a") (auto simp: new_milvus_client_def and_then_Value pure_def)
  have "client_events a cs2 = []" using quiet_ensure(1) [of a collections] ens by (simp add: quiet_def)
  moreover have "cs2 = (if biz_collection \<in> set collections then [] else created_indexes)"
    using ens by (auto simp: ensure_collection_def create_biz_Value pure_def split: if_splits)
  ultimately show ?thesis
    using connect_agent_Value(1,2) [OF con] cs db by (auto simp: open_after_append database_name_def)
qed

text \<open>A start that fails leaves connections open: the default connection is closed only after the
  collection is there, and the second one is not even closed when the collection cannot be loaded.\<close>

theorem failed_bootstrap_leaks:
  assumes "new_milvus_client a = (cs, Failed e)" and "ma_connect a ''default'' = None"
  shows "open_after (client_events a cs) \<noteq> []"
proof -
  obtain cs1 r1 where con: "connect_agent a = (cs1, r1)" by fastforce
  note con' = connect_agent_Failed [OF con assms(2)]
  show ?thesis
  proof (cases r1)
    case (Value collections)
    obtain cs2 r2 where ens: "ensure_collection a collections = (cs2, r2)" by fastforce
    have q: "client_events a cs2 = []" "r2 \<noteq> Panicked"
      using quiet_ensure(1) [of a collections] ens by (simp_all add: quiet_def)
    note op = connect_agent_Value(1) [OF con [unfolded Value]]
    show ?thesis
    proof (cases r2)
      case (Value u)
      with assms con ens q op \<open>r1 = Value collections\<close> show ?thesis
        by (cases "ma_load a") (auto simp: new_milvus_client_def open_after_append pure_def database_name_def)
    qed (use assms con ens q op Value in \<open>auto simp: new_milvus_client_def open_after_append\<close>)
  qed (use assms con con'(1,2) in \<open>auto simp: new_milvus_client_def\<close>)
qed

text \<open>A collection that was created without all its indexes is never repaired: once the server lists it, no
  later start creates an index or the collection again.\<close>

theorem partial_collection_never_repaired:
  assumes "new_milvus_client a = (cs, Failed e)" and "CreateCollection biz_collection fs \<in> set cs"
    and "ma_create_collection a = None" and "ma_load a = None"
    and "ma_collections b = Inr collections" and "biz_collection \<in> set collections"
    and "new_milvus_client b = (cs', r)"
  shows "\<exists>f \<in> {''id'', ''content'', ''vector''}. \<exists>m. (ma_make_index a m \<noteq> None \<or> ma_create_index a f \<noteq> None) \<and>
    (\<forall>c fs f m. CreateIndex c f m \<notin> set cs' \<and> CreateCollection c fs \<notin> set cs')"
proof -
  have later: "CreateIndex c f m \<notin> set cs' \<and> CreateCollection c fs \<notin> set cs'" for c fs f m
  proof (cases "ma_connect b ''default''")
    case None
    obtain cs1 r1 where con: "connect_agent b = (cs1, r1)" by fastforce
    show ?thesis
    proof (cases r1)
      case (Value collections')
      then have "biz_collection \<in> set collections'" using connect_agent_Value(2) [OF con [unfolded Value]] assms(5,6) by simp
      with assms(7) con Value connect_agent_Failed(3,4) [OF con None] show ?thesis
        by (cases "ma_load b") (auto simp: new_milvus_client_def ensure_collection_def pure_def)
    qed (use assms(7) con connect_agent_Failed(3,4) [OF con None] in \<open>auto simp: new_milvus_client_def\<close>)
  next
    case (Some e')
    with assms(7) show ?thesis by (auto simp: new_milvus_client_def connect_agent_def)
  qed
  have "\<not> ((\<forall>m \<in> {L2, Hamming}. ma_make_index a m = None) \<and>
      (\<forall>f \<in> {''id'', ''content'', ''vector''}. ma_create_index a f = None))"
  proof
    assume ok: "(\<forall>m \<in> {L2, Hamming}. ma_make_index a m = None) \<and>
      (\<forall>f \<in> {''id'', ''content'', ''vector''}. ma_create_index a f = None)"
    then have biz: "create_biz a = (created_indexes, Value ())" using assms(3) by (simp add: create_biz_Value)
    obtain cs1 r1 where con: "connect_agent a = (cs1, r1)" by fastforce
    have default_ok: "ma_connect a ''default'' = None"
      using assms(1,2) by (cases "ma_connect a ''default''") (auto simp: new_milvus_client_def connect_agent_def)
    show False
    proof (cases r1)
      case (Value collections')
      with assms(1,4) con biz show False
        by (auto simp: new_milvus_client_def ensure_collection_def pure_def split: if_splits)
    qed (use assms(1,2) con connect_agent_Failed(2,3) [OF con default_ok] in \<open>auto simp: new_milvus_client_def\<close>)
  qed
  with later show ?thesis by auto
qed

definition fresh_server :: milvus_answers where
  "fresh_server = \<lparr>ma_connect = (\<lambda>_. None), ma_databases = Inr [''default''], ma_create_database = None,
     ma_collections = Inr [], ma_create_collection = None, ma_make_index = (\<lambda>_. None),
     ma_create_index = (\<lambda>f. if f = ''vector'' then Some (ErrExternal ''deadline'') else None), ma_load = None\<rparr>"

definition seen_server :: milvus_answers where
  "seen_server = fresh_server\<lparr>ma_databases := Inr [''default'', database_name], ma_collections := Inr [biz_collection],
     ma_create_index := (\<lambda>_. None)\<rparr>"

lemmas bootstrap_run = new_milvus_client_def connect_agent_def ensure_database_def ensure_collection_def create_biz_def
  index_on_def fresh_server_def seen_server_def database_name_def biz_collection_def pure_def

theorem bootstrap_ready_witness:
  "\<exists>cs. new_milvus_client seen_server = (cs, Value database_name) \<and> open_after (client_events seen_server cs) = [database_name]"
proof -
  obtain cs where run: "new_milvus_client seen_server = (cs, Value database_name)"
    by (simp add: bootstrap_run)
  from bootstrap_ready [OF run] run show ?thesis by blast
qed

theorem failed_bootstrap_leaks_witness:
  "\<exists>cs e. new_milvus_client fresh_server = (cs, Failed e) \<and> open_after (client_events fresh_server cs) \<noteq> []"
proof -
  obtain cs e where run: "new_milvus_client fresh_server = (cs, Failed e)"
    by (simp add: bootstrap_run)
  moreover have "ma_connect fresh_server ''default'' = None" by (simp add: fresh_server_def)
  ultimately show ?thesis using failed_bootstrap_leaks by blast
qed

theorem partial_collection_never_repaired_witness:
  "\<exists>cs e cs'. new_milvus_client fresh_server = (cs, Failed e) \<and>
    new_milvus_client seen_server = (cs', Value database_name) \<and>
    (\<forall>c f m. CreateIndex c f m \<notin> set cs')"
proof -
  obtain cs e where a: "new_milvus_client fresh_server = (cs, Failed e)"
    and biz: "CreateCollection biz_collection client_fields \<in> set cs" by (simp add: bootstrap_run)
  obtain cs' where b: "new_milvus_client seen_server = (cs', Value database_name)" by (simp add: bootstrap_run)
  have "ma_create_collection fresh_server = None" "ma_load fresh_server = None"
    "ma_collections seen_server = Inr [biz_collection]" "biz_collection \<in> set [biz_collection]"
    by (simp_all add: fresh_server_def seen_server_def)
  from partial_collection_never_repaired [OF a biz this b] a b show ?thesis by blast
qed

end
