(* ===== verification/Knowledge.thy ===== *)
theory Knowledge
  imports Eval_Metrics Retriever Milvus_Client Tool_Policy
begin

text \<open>
  Building the knowledge index: the chunk IDs and the tenant stamp of the transformer and the graph of
  internal/ai/agent/knowledge_index_pipeline, the indexer of internal/ai/indexer, the upload handler of
  internal/controller/chat/chat_v1_file_upload.go and the command internal/ai/cmd/knowledge_cmd. Loader,
  splitter, vector store, file system and SHA-256 are parameters. The traces show what the two ways into
  the index delete before they rebuild.
\<close>

section \<open>Chunk IDs\<close>

text \<open>\<open>filepath.ToSlash\<close> with the separator of the platform.\<close>

definition to_slash :: "char \<Rightarrow> string \<Rightarrow> string" where
  "to_slash sep s = (if sep = CHR ''/'' then s else map (\<lambda>c. if c = sep then CHR ''/'' else c) s)"

text \<open>The byte positions that \<open>for i := range s\<close> visits, and the loop over them.\<close>

function rune_starts :: "nat \<Rightarrow> string \<Rightarrow> nat list" where
  "rune_starts i s = (if s = [] then [] else i # rune_starts (i + snd (decode_rune s)) (drop (snd (decode_rune s)) s))"
  by pat_completeness auto
termination
  by (relation "measure (\<lambda>(_, s). length s)") (auto simp: decode_rune_width)

declare rune_starts.simps [simp del]

definition slash_at :: "nat \<Rightarrow> string \<Rightarrow> string" where
  "slash_at i t = (if t ! i = CHR 0x5C then take i t @ [CHR ''/''] @ drop (i + 1) t else t)"

definition normalize_separators :: "string \<Rightarrow> string" where
  "normalize_separators s = fold slash_at (rune_starts 0 s) s"

definition chunk_text :: "char \<Rightarrow> string \<Rightarrow> int \<Rightarrow> string" where
  "chunk_text sep original_id split_index =
     normalize_separators (to_slash sep original_id) @ '':'' @ show_int split_index"

definition stable_chunk_id :: "(string \<Rightarrow> 8 word list) \<Rightarrow> char \<Rightarrow> string \<Rightarrow> int \<Rightarrow> string" where
  "stable_chunk_id sha256 sep original_id split_index = hex_encode (sha256 (chunk_text sep original_id split_index))"

section \<open>The tenant stamp\<close>

definition stamp_tenant :: "string \<Rightarrow> 'j document \<Rightarrow> 'j document" where
  "stamp_tenant tenant d =
     d\<lparr>doc_meta := Some ((case doc_meta d of None \<Rightarrow> Map.empty | Some m \<Rightarrow> m)(''tenant_id'' \<mapsto> MetaString tenant))\<rparr>"

definition tenant_transform ::
  "('j document list \<Rightarrow> 'j document list result) \<Rightarrow> ctx \<Rightarrow> 'j document list \<Rightarrow> 'j document list result" where
  "tenant_transform inner c src =
     (case principal_from_context c of
        None \<Rightarrow> Inl (ErrText ''authenticated tenant scope is required for indexing'')
      | Some p \<Rightarrow>
          if p_tenant_id p = [] then Inl (ErrText ''authenticated tenant scope is required for indexing'')
          else case inner src of Inl e \<Rightarrow> Inl e | Inr ds \<Rightarrow> Inr (map (stamp_tenant (p_tenant_id p)) ds))"

section \<open>The graph\<close>

definition indexer_fields :: "field list" where
  "indexer_fields =
     [\<lparr>fd_name = ''id'', fd_type = VarChar, fd_params = [(''max_length'', ''255'')], fd_primary = True\<rparr>,
      \<lparr>fd_name = ''vector'', fd_type = BinaryVector, fd_params = [(''dim'', ''65536'')], fd_primary = False\<rparr>,
      \<lparr>fd_name = ''content'', fd_type = VarChar, fd_params = [(''max_length'', ''8192'')], fd_primary = False\<rparr>,
      \<lparr>fd_name = ''metadata'', fd_type = JSONField, fd_params = [], fd_primary = False\<rparr>]"

text \<open>\<open>NewMilvusIndexer\<close>: whether the opened client is left open, and the fields of the indexer.\<close>

definition new_milvus_indexer :: "string run \<Rightarrow> unit result \<Rightarrow> (field list \<Rightarrow> unit result) \<Rightarrow> bool \<times> field list result" where
  "new_milvus_indexer client embedder new_indexer =
     (case client of
        Value cli \<Rightarrow>
          (case embedder of
             Inl e \<Rightarrow> (True, Inl e)
           | Inr _ \<Rightarrow> (case new_indexer indexer_fields of Inl e \<Rightarrow> (True, Inl e) | Inr _ \<Rightarrow> (True, Inr indexer_fields)))
      | Failed e \<Rightarrow> (False, Inl e)
      | Panicked \<Rightarrow> (False, Inl (ErrText ''panic'')))"

definition index_edges :: "(string \<times> string) list" where
  "index_edges =
     [(''start'', ''FileLoader''), (''MilvusIndexer'', ''end''), (''FileLoader'', ''MarkdownSplitter''),
      (''MarkdownSplitter'', ''MilvusIndexer'')]"

text \<open>\<open>BuildKnowledgeIndexing\<close>: the constructors in order; the errors of the graph calls are dropped.\<close>

definition build_knowledge_indexing ::
  "unit result \<Rightarrow> unit result \<Rightarrow> bool \<times> field list result \<Rightarrow> ((string \<times> string) list \<Rightarrow> unit result) \<Rightarrow>
   bool \<times> (string \<times> string) list result" where
  "build_knowledge_indexing loader splitter indexer compile_graph =
     (case loader of Inl e \<Rightarrow> (False, Inl e) | Inr _ \<Rightarrow>
     (case splitter of Inl e \<Rightarrow> (False, Inl e) | Inr _ \<Rightarrow>
     (case indexer of
        (client_open, Inl e) \<Rightarrow> (client_open, Inl e)
      | (client_open, Inr _) \<Rightarrow>
          (client_open, case compile_graph index_edges of Inl e \<Rightarrow> Inl e | Inr _ \<Rightarrow> Inr index_edges))))"

section \<open>Purge and rebuild\<close>

text \<open>
  The calls of one indexing run. The answers: whether the graph could be built, the loader, the sources of
  the loaded documents as they are printed, the vector store, and the graph's own run with the IDs of the parts.
\<close>

datatype index_call =
    BuildGraph | NewLoader | LoadFile string | OpenMilvus | QueryIds string | DeleteIds string | InvokeGraph string

record index_answers =
  ia_build :: "go_error option"
  ia_loader :: "go_error option"
  ia_load :: "string \<Rightarrow> string list result"
  ia_milvus :: "go_error option"
  ia_query :: "string \<Rightarrow> column list result"
  ia_invoke :: "string \<Rightarrow> string list result"

definition column_ids :: "column list \<Rightarrow> string list" where
  "column_ids cols =
     concat (map (\<lambda>c. concat (map (\<lambda>cell. case cell of Inr i \<Rightarrow> [i] | Inl e \<Rightarrow> []) (col_cells c)))
       (filter (\<lambda>c. col_name c = ''id'') cols))"

definition quoted :: "string \<Rightarrow> string" where
  "quoted s = CHR 0x22 # s @ [CHR 0x22]"

definition delete_expression :: "string list \<Rightarrow> string" where
  "delete_expression ids = ''id in ['' @ quoted (join_with (CHR 0x22 # '','' @ [CHR 0x22]) ids) @ '']''"

text \<open>The query for the old IDs and their deletion, whose error is only printed.\<close>

definition purge :: "index_answers \<Rightarrow> string \<Rightarrow> (index_call, unit) traced" where
  "purge a expr =
     and_then ([QueryIds expr], to_run (ia_query a expr)) (\<lambda>cols.
       if cols = [] \<or> column_ids cols = [] then pure ()
       else ([DeleteIds (delete_expression (column_ids cols))], Value ()))"

definition load_sources :: "index_answers \<Rightarrow> string \<Rightarrow> (index_call, string list) traced" where
  "load_sources a path =
     and_then ([NewLoader], answer (ia_loader a)) (\<lambda>_.
     and_then ([LoadFile path], to_run (ia_load a path)) (\<lambda>sources.
     and_then ([OpenMilvus], answer (ia_milvus a)) (\<lambda>_. pure sources)))"

text \<open>\<open>buildIntoIndex\<close>: the error of the graph's construction is overwritten by the loader's, so a graph
  that could not be built is nil when it is invoked; a loader without documents panics at \<open>docs[0]\<close>.\<close>

definition upload_expression :: "string \<Rightarrow> string" where
  "upload_expression source = ''metadata['' @ quoted ''_source'' @ ''] == '' @ quoted source"

definition build_into_index :: "index_answers \<Rightarrow> string \<Rightarrow> (index_call, unit) traced" where
  "build_into_index a path =
     and_then ([BuildGraph], Value ()) (\<lambda>_.
     and_then (load_sources a path) (\<lambda>sources.
       case sources of
         [] \<Rightarrow> ([], Panicked)
       | source # _ \<Rightarrow>
           and_then (purge a (upload_expression source)) (\<lambda>_.
             if ia_build a \<noteq> None then ([], Panicked)
             else and_then (call_or ''invoke index graph failed: '' (InvokeGraph path) (to_run (ia_invoke a path)))
                    (\<lambda>_. pure ()))))"

text \<open>The command: one file of the walk, the walk itself up to its first error, and \<open>main\<close>, for which a
  panic is the end of every failure.\<close>

definition source_filter_expression :: "(string \<Rightarrow> string \<times> nat) \<Rightarrow> char \<Rightarrow> string \<Rightarrow> string" where
  "source_filter_expression high sep source =
     ''metadata['' @ quoted ''_source'' @ ''] == '' @ go_quote high (to_slash sep source)"

definition tenant_source_filter_expression :: "(string \<Rightarrow> string \<times> nat) \<Rightarrow> char \<Rightarrow> string \<Rightarrow> string \<Rightarrow> string" where
  "tenant_source_filter_expression high sep source tenant =
     ''metadata['' @ quoted ''_source'' @ ''] == '' @ go_quote high (to_slash sep source) @
     '' and metadata['' @ quoted ''tenant_id'' @ ''] == '' @ go_quote high tenant"

definition index_file :: "(string \<Rightarrow> string \<times> nat) \<Rightarrow> char \<Rightarrow> string \<Rightarrow> index_answers \<Rightarrow> string \<Rightarrow> (index_call, unit) traced" where
  "index_file high sep tenant a path =
     and_then (load_sources a path) (\<lambda>sources.
       case sources of
         [] \<Rightarrow> ([], Panicked)
       | source # _ \<Rightarrow>
           and_then (purge a (tenant_source_filter_expression high sep source tenant)) (\<lambda>_.
           and_then (call_or ''invoke index graph failed: '' (InvokeGraph path) (to_run (ia_invoke a path))) (\<lambda>_. pure ())))"

record walk_entry =
  we_path :: string
  we_dir :: bool
  we_err :: "go_error option"

fun walk_files ::
  "(string \<Rightarrow> string \<times> nat) \<Rightarrow> char \<Rightarrow> string \<Rightarrow> (string \<Rightarrow> index_answers) \<Rightarrow> walk_entry list \<Rightarrow> (index_call, unit) traced" where
  "walk_files high sep tenant a [] = pure ()"
| "walk_files high sep tenant a (w # ws) =
     (case we_err w of
        Some e \<Rightarrow> ([], Failed (ErrWrap ''walk dir failed: '' e))
      | None \<Rightarrow>
          if we_dir w \<or> \<not> suffix ''.md'' (we_path w) then walk_files high sep tenant a ws
          else and_then (index_file high sep tenant (a (we_path w)) (we_path w)) (\<lambda>_. walk_files high sep tenant a ws))"

definition knowledge_main ::
  "(string \<Rightarrow> string \<times> nat) \<Rightarrow> char \<Rightarrow> (string \<Rightarrow> string) \<Rightarrow> go_error option \<Rightarrow> (string \<Rightarrow> index_answers) \<Rightarrow> walk_entry list \<Rightarrow>
   (index_call, unit) traced" where
  "knowledge_main high sep env build a entries =
     (if env ''SUPERBIZ_KNOWLEDGE_TENANT_ID'' = [] then ([], Panicked)
      else case build of
             Some e \<Rightarrow> ([BuildGraph], Panicked)
           | None \<Rightarrow>
               (case walk_files high sep (env ''SUPERBIZ_KNOWLEDGE_TENANT_ID'') a entries of
                  (cs, Value u) \<Rightarrow> (BuildGraph # cs, Value u)
                | (cs, _) \<Rightarrow> (BuildGraph # cs, Panicked)))"

section \<open>The upload handler\<close>

text \<open>The calls of \<open>FileUpload\<close>: the directory, the saved file, the stat and the indexing run.\<close>

datatype upload_call = MakeDir string | SaveFile string | StatPath string | Indexing index_call

record upload_env =
  up_file :: "string option"
  up_dir_exists :: bool
  up_mkdir :: "go_error option"
  up_save :: "go_error option"
  up_stat :: "string \<Rightarrow> int result"

record upload_reply =
  ur_name :: string
  ur_path :: string
  ur_size :: int

definition ensure_dir :: "upload_env \<Rightarrow> string \<Rightarrow> (upload_call, unit) traced" where
  "ensure_dir u dir =
     (if up_dir_exists u then pure () else call_or ''mkdir: '' (MakeDir dir) (answer (up_mkdir u)))"

text \<open>\<open>clean\<close> is \<open>filepath.Join\<close> of the one directory; the file is indexed under the raw name.\<close>

definition file_upload ::
  "(string \<Rightarrow> string) \<Rightarrow> string \<Rightarrow> upload_env \<Rightarrow> index_answers \<Rightarrow> (upload_call, upload_reply) traced" where
  "file_upload clean dir u a =
     (case up_file u of
        None \<Rightarrow> ([], Failed (ErrText ''no file uploaded''))
      | Some name \<Rightarrow>
          and_then (ensure_dir u dir) (\<lambda>_.
          and_then (call_or ''save: '' (SaveFile (clean dir)) (answer (up_save u))) (\<lambda>_.
          and_then (call_or ''stat: '' (StatPath (clean dir)) (to_run (up_stat u (clean dir)))) (\<lambda>size.
          and_then (case build_into_index a (dir @ ''/'' @ name) of
                      (cs, Failed e) \<Rightarrow> (map Indexing cs, Failed (ErrWrap ''index: '' e))
                    | (cs, r) \<Rightarrow> (map Indexing cs, r)) (\<lambda>_.
          pure \<lparr>ur_name = name, ur_path = clean dir, ur_size = size\<rparr>)))))"

section \<open>Chunk IDs are stable\<close>

lemma decode_rune_tail:
  assumes "0 < j" and "j < snd (decode_rune s)"
  shows "128 \<le> byte_at s j"
proof -
  have 1: "128 \<le> byte_at s 1" if "1 < snd (decode_rune s)"
    using that by (auto simp: decode_rune_def Let_def in_range_def simp del: One_nat_def split: if_splits)
  have 2: "128 \<le> byte_at s 2" if "2 < snd (decode_rune s)"
    using that by (auto simp: decode_rune_def Let_def in_range_def simp del: One_nat_def split: if_splits)
  have 3: "128 \<le> byte_at s 3" if "3 < snd (decode_rune s)"
    using that by (auto simp: decode_rune_def Let_def in_range_def simp del: One_nat_def split: if_splits)
  have "snd (decode_rune s) \<le> 4" by (simp add: decode_rune_def Let_def)
  with assms have "j = 1 \<or> j = 2 \<or> j = 3" by linarith
  with assms 1 2 3 show ?thesis by blast
qed

lemma decode_rune_le: "s \<noteq> [] \<Longrightarrow> snd (decode_rune s) \<le> length s"
  by (auto simp: decode_rune_def Let_def in_range_def byte_at_def Suc_le_eq split: if_splits)

text \<open>Every backslash begins a rune.\<close>

lemma backslash_starts:
  assumes "j < length s" and "s ! j = CHR 0x5C"
  shows "i + j \<in> set (rune_starts i s)"
  using assms
proof (induction i s arbitrary: j rule: rune_starts.induct)
  case (1 i s)
  let ?w = "snd (decode_rune s)"
  have ne: "s \<noteq> []" using "1.prems" by auto
  have starts: "set (rune_starts i s) = insert i (set (rune_starts (i + ?w) (drop ?w s)))"
    using ne by (simp add: rune_starts.simps [of i s])
  show ?case
  proof (cases "j < ?w")
    case True
    have "byte_at s j = 92" using "1.prems" by (simp add: byte_at_def)
    with True decode_rune_tail [of j s] have "j = 0" by (cases j) auto
    with starts show ?thesis by simp
  next
    case False
    then have "i + ?w + (j - ?w) \<in> set (rune_starts (i + ?w) (drop ?w s))"
      using "1.prems" by (intro "1.IH" [OF ne]) auto
    with False starts show ?thesis by simp
  qed
qed

lemma rune_starts_bound: "j \<in> set (rune_starts i s) \<Longrightarrow> j < i + length s"
proof (induction i s rule: rune_starts.induct)
  case (1 i s)
  show ?case
  proof (cases "s = []")
    case False
    with 1 decode_rune_le [OF False] show ?thesis by (auto simp: rune_starts.simps [of i s])
  next
    case True
    with 1(2) show ?thesis by (simp add: rune_starts.simps)
  qed
qed

lemma slash_at_update: "i < length t \<Longrightarrow> slash_at i t = (if t ! i = CHR 0x5C then t[i := CHR ''/''] else t)"
  by (simp add: slash_at_def upd_conv_take_nth_drop)

lemma fold_slash_at:
  assumes "\<forall>i \<in> set starts. i < length t"
  shows "length (fold slash_at starts t) = length t \<and>
    (\<forall>j < length t. fold slash_at starts t ! j = (if j \<in> set starts \<and> t ! j = CHR 0x5C then CHR ''/'' else t ! j))"
  using assms
proof (induction starts arbitrary: t)
  case (Cons i starts)
  have len: "length (slash_at i t) = length t" using Cons.prems by (simp add: slash_at_update)
  have nth: "slash_at i t ! j = (if j = i \<and> t ! j = CHR 0x5C then CHR ''/'' else t ! j)" if "j < length t" for j
    using Cons.prems that by (auto simp: slash_at_update nth_list_update)
  show ?case using Cons.IH [of "slash_at i t"] Cons.prems len nth by auto
qed simp

lemma normalize_separators_map:
  "normalize_separators s = map (\<lambda>c. if c = CHR 0x5C then CHR ''/'' else c) s"
proof -
  have "\<forall>i \<in> set (rune_starts 0 s). i < length s" using rune_starts_bound [of _ 0 s] by auto
  from fold_slash_at [OF this] backslash_starts [of _ s 0] show ?thesis
    by (intro nth_equalityI) (auto simp: normalize_separators_def)
qed

lemma colon_not_in_show_int: "CHR '':'' \<notin> set (show_int i)"
  using digits_chars [of "CHR '':''"] by (auto simp: show_int_def)

text \<open>A text that ends with a colon-free part splits at its last colon.\<close>

lemma last_sep_eq:
  assumes "c \<notin> set x" and "c \<notin> set y" and "a @ c # x = b @ c # y"
  shows "a = b \<and> x = y"
proof -
  have "rev x @ c # rev a = rev y @ c # rev b" using arg_cong [OF assms(3), of rev] by simp
  from sep_append_eq [OF _ _ this] assms(1,2) show ?thesis by simp
qed

section \<open>Properties\<close>

definition plain_path :: "char \<Rightarrow> string \<Rightarrow> string" where
  "plain_path sep s = map (\<lambda>c. if c = sep \<or> c = CHR 0x5C then CHR ''/'' else c) s"

lemma normal_path: "normalize_separators (to_slash sep s) = plain_path sep s"
  by (auto simp: normalize_separators_map to_slash_def plain_path_def)

text \<open>(C39) A chunk's ID names the chunk's file and position: as long as SHA-256 does not collide on the two texts,
  two IDs are equal exactly for the same position of the same file name up to the path separators, whatever
  the platform's separator is; the tenant has no part in it.\<close>

theorem chunk_ids_name_chunks:
  assumes "sha256 (chunk_text sep p i) = sha256 (chunk_text sep' q j) \<Longrightarrow> chunk_text sep p i = chunk_text sep' q j"
  shows "stable_chunk_id sha256 sep p i = stable_chunk_id sha256 sep' q j \<longleftrightarrow> plain_path sep p = plain_path sep' q \<and> i = j"
proof
  assume "stable_chunk_id sha256 sep p i = stable_chunk_id sha256 sep' q j"
  then have "sha256 (chunk_text sep p i) = sha256 (chunk_text sep' q j)"
    using hex_encode_inj unfolding stable_chunk_id_def by blast
  from assms [OF this] have "plain_path sep p @ CHR '':'' # show_int i = plain_path sep' q @ CHR '':'' # show_int j"
    by (simp add: chunk_text_def normal_path)
  from last_sep_eq [OF colon_not_in_show_int colon_not_in_show_int this] show_int_inj
  show "plain_path sep p = plain_path sep' q \<and> i = j" by blast
qed (simp add: stable_chunk_id_def chunk_text_def normal_path)

theorem chunk_ids_name_chunks_witness:
  "stable_chunk_id (map (\<lambda>c. of_nat (of_char c))) (CHR ''/'') ''runbooks/cpu.md'' 2 =
   stable_chunk_id (map (\<lambda>c. of_nat (of_char c))) (CHR 0x5C) (''runbooks'' @ CHR 0x5C # ''cpu.md'') 2 \<and>
   stable_chunk_id (map (\<lambda>c. of_nat (of_char c))) (CHR ''/'') ''runbooks/cpu.md'' 2 \<noteq>
   stable_chunk_id (map (\<lambda>c. of_nat (of_char c))) (CHR ''/'') ''runbooks/cpu.md'' 3"
proof -
  let ?sha = "map (\<lambda>c. of_nat (of_char c) :: 8 word)"
  have inj: "?sha s = ?sha t \<Longrightarrow> s = t" for s t :: string
  proof (rule map_injective [of _ s t], assumption)
    show "inj (\<lambda>c :: char. of_nat (of_char c) :: 8 word)"
    proof (rule injI)
      fix c d :: char
      assume "(of_nat (of_char c) :: 8 word) = of_nat (of_char d)"
      then have "take_bit 8 (of_char c :: nat) = take_bit 8 (of_char d)" by (simp add: word_of_nat_eq_iff)
      then show "c = d" by (simp add: take_bit_eq_mod)
    qed
  qed
  show ?thesis
    using chunk_ids_name_chunks [of ?sha "CHR ''/''" "''runbooks/cpu.md''" 2 "CHR 0x5C" "''runbooks'' @ CHR 0x5C # ''cpu.md''" 2, OF inj]
      chunk_ids_name_chunks [of ?sha "CHR ''/''" "''runbooks/cpu.md''" 2 "CHR ''/''" "''runbooks/cpu.md''" 3, OF inj]
    by (simp add: plain_path_def)
qed

text \<open>What both ways into the index call when the documents of the file are there: the query for the old IDs,
  their deletion, whatever comes of it, and only then the rebuild.\<close>

lemma load_sources_calls:
  "load_sources a path = (cs, Value sources) \<Longrightarrow>
     cs = [NewLoader, LoadFile path, OpenMilvus] \<and> ia_load a path = Inr sources"
  by (cases "ia_loader a"; cases "ia_load a path"; cases "ia_milvus a") (auto simp: load_sources_def pure_def)

lemma purge_calls:
  assumes "ia_query a expr = Inr cols"
  shows "purge a expr =
    (QueryIds expr # (if column_ids cols = [] then [] else [DeleteIds (delete_expression (column_ids cols))]), Value ())"
proof -
  have "column_ids [] = []" by (simp add: column_ids_def)
  then show ?thesis using assms by (auto simp: purge_def pure_def)
qed

text \<open>Rows of the vector store and the expression that deletes them; \<open>id_column\<close> is the answer of a query for IDs.\<close>

record row =
  row_id :: string
  row_source :: string
  row_tenant :: string

definition id_column :: "row list \<Rightarrow> column list" where
  "id_column rows = [\<lparr>col_name = ''id'', col_cells = map (\<lambda>r. Inr (row_id r)) rows\<rparr>]"

lemma column_ids_id_column [simp]: "column_ids (id_column rows) = map row_id rows"
  by (induction rows) (auto simp: column_ids_def id_column_def)

lemma build_into_index_calls:
  assumes "ia_loader a = None" "ia_load a path = Inr (source # others)" "ia_milvus a = None"
    and "ia_query a (upload_expression source) = Inr cols" "column_ids cols \<noteq> []"
  shows "build_into_index a path =
    ([BuildGraph, NewLoader, LoadFile path, OpenMilvus, QueryIds (upload_expression source),
      DeleteIds (delete_expression (column_ids cols))] @ (if ia_build a = None then [InvokeGraph path] else []),
     if ia_build a \<noteq> None then Panicked
     else case ia_invoke a path of Inl e \<Rightarrow> Failed (ErrWrap ''invoke index graph failed: '' e) | Inr _ \<Rightarrow> Value ())"
  using assms by (cases "ia_invoke a path") (auto simp: build_into_index_def load_sources_def purge_calls pure_def)

lemma index_file_calls:
  assumes "ia_loader a = None" "ia_load a path = Inr (source # others)" "ia_milvus a = None"
    and "ia_query a (tenant_source_filter_expression high sep source tenant) = Inr cols" "column_ids cols \<noteq> []"
  shows "index_file high sep tenant a path =
    ([NewLoader, LoadFile path, OpenMilvus, QueryIds (tenant_source_filter_expression high sep source tenant),
      DeleteIds (delete_expression (column_ids cols)), InvokeGraph path],
     case ia_invoke a path of Inl e \<Rightarrow> Failed (ErrWrap ''invoke index graph failed: '' e) | Inr _ \<Rightarrow> Value ())"
  using assms by (cases "ia_invoke a path") (auto simp: index_file_def load_sources_def purge_calls pure_def)

text \<open>An upload deletes the chunks of every tenant that has a file of the same name: for a vector store that
  answers a filter on the source with all rows of that source, the deleted IDs are those of all tenants. The
  command, whose filter names its tenant, deletes only that tenant's.\<close>

theorem upload_deletes_other_tenants:
  assumes "ia_loader a = None" "ia_load a path = Inr (source # others)" "ia_milvus a = None"
    and "ia_query a (upload_expression source) = Inr (id_column (filter (\<lambda>r. row_source r = source) rows))"
    and "ia_query a (tenant_source_filter_expression high sep source tenant) =
      Inr (id_column (filter (\<lambda>r. row_source r = source \<and> row_tenant r = tenant) rows))"
    and "r \<in> set rows" "row_source r = source" "row_tenant r \<noteq> tenant" "ia_build a = None"
    and "own \<in> set rows" "row_source own = source" "row_tenant own = tenant"
  shows "\<exists>ids own_ids. DeleteIds (delete_expression ids) \<in> set (fst (build_into_index a path)) \<and> row_id r \<in> set ids \<and>
    DeleteIds (delete_expression own_ids) \<in> set (fst (index_file high sep tenant a path)) \<and>
    own_ids = map row_id (filter (\<lambda>r. row_source r = source \<and> row_tenant r = tenant) rows)"
proof -
  let ?all = "filter (\<lambda>r. row_source r = source) rows"
  let ?own = "filter (\<lambda>r. row_source r = source \<and> row_tenant r = tenant) rows"
  have "column_ids (id_column ?all) \<noteq> []" "column_ids (id_column ?own) \<noteq> []"
    using assms(6,7,10-12) by (auto simp: filter_empty_conv)
  then have "DeleteIds (delete_expression (map row_id ?all)) \<in> set (fst (build_into_index a path))"
    "DeleteIds (delete_expression (map row_id ?own)) \<in> set (fst (index_file high sep tenant a path))"
    using build_into_index_calls [OF assms(1-4)] index_file_calls [OF assms(1-3,5)] by auto
  with assms(6,7) show ?thesis by (auto intro!: exI [of _ "map row_id ?all"])
qed

text \<open>A rebuild that fails, or a graph that could not be built, loses the document: the old chunks are
  deleted before the graph runs, and a graph that was not built is noticed only by a panic after that.\<close>

theorem failed_rebuild_loses_document:
  assumes "ia_loader a = None" "ia_load a path = Inr (source # others)" "ia_milvus a = None"
    and "ia_query a (upload_expression source) = Inr (id_column rows)" "rows \<noteq> []"
    and "ia_build a = Some e \<or> ia_invoke a path = Inl e"
  shows "DeleteIds (delete_expression (map row_id rows)) \<in> set (fst (build_into_index a path)) \<and>
    snd (build_into_index a path) = (if ia_build a = None then Failed (ErrWrap ''invoke index graph failed: '' e) else Panicked)"
  using assms(5,6) build_into_index_calls [OF assms(1-4)] by auto

definition meta_tenant :: "'j document \<Rightarrow> 'j meta_value option" where
  "meta_tenant d = (case doc_meta d of None \<Rightarrow> None | Some m \<Rightarrow> m ''tenant_id'')"

text \<open>Every indexed chunk carries the tenant of the caller, and without a tenant nothing is split.\<close>

theorem index_stamps_tenant:
  "tenant_transform inner c src = Inr ds \<longleftrightarrow>
     (\<exists>p ds0. principal_from_context c = Some p \<and> p_tenant_id p \<noteq> [] \<and> inner src = Inr ds0 \<and>
        ds = map (stamp_tenant (p_tenant_id p)) ds0 \<and>
        (\<forall>d \<in> set ds. meta_tenant d = Some (MetaString (p_tenant_id p))))"
  by (auto simp: tenant_transform_def stamp_tenant_def meta_tenant_def split: option.splits sum.splits if_splits)

definition two_tenants :: "row list" where
  "two_tenants = [\<lparr>row_id = ''a0'', row_source = ''cpu.md'', row_tenant = ''acme''\<rparr>,
     \<lparr>row_id = ''b0'', row_source = ''cpu.md'', row_tenant = ''globex''\<rparr>]"

definition shared_store :: index_answers where
  "shared_store = \<lparr>ia_build = None, ia_loader = None, ia_load = (\<lambda>_. Inr [''cpu.md'']), ia_milvus = None,
     ia_query = (\<lambda>expr. Inr (id_column (filter (\<lambda>r. row_source r = ''cpu.md'' \<and>
        (expr = upload_expression ''cpu.md'' \<or> row_tenant r = ''acme'')) two_tenants))),
     ia_invoke = (\<lambda>_. Inl (ErrExternal ''embedding: quota exceeded''))\<rparr>"

theorem upload_deletes_other_tenants_witness:
  "\<exists>ids. DeleteIds (delete_expression ids) \<in> set (fst (build_into_index shared_store ''docs/cpu.md'')) \<and> ''b0'' \<in> set ids"
proof -
  define high :: "string \<Rightarrow> string \<times> nat" where "high = (\<lambda>_. ([], 0))"
  have ne: "tenant_source_filter_expression high (CHR ''/'') ''cpu.md'' ''acme'' \<noteq> upload_expression ''cpu.md''"
    by (simp add: tenant_source_filter_expression_def upload_expression_def quoted_def go_quote_def to_slash_def escape_ascii_def)
  have "ia_loader shared_store = None" "ia_load shared_store ''docs/cpu.md'' = Inr [''cpu.md'']" "ia_milvus shared_store = None"
    "ia_query shared_store (upload_expression ''cpu.md'') = Inr (id_column (filter (\<lambda>r. row_source r = ''cpu.md'') two_tenants))"
    "ia_query shared_store (tenant_source_filter_expression high (CHR ''/'') ''cpu.md'' ''acme'') =
      Inr (id_column (filter (\<lambda>r. row_source r = ''cpu.md'' \<and> row_tenant r = ''acme'') two_tenants))"
    "two_tenants ! 1 \<in> set two_tenants" "row_source (two_tenants ! 1) = ''cpu.md''" "row_tenant (two_tenants ! 1) \<noteq> ''acme''"
    "ia_build shared_store = None"
    "two_tenants ! 0 \<in> set two_tenants" "row_source (two_tenants ! 0) = ''cpu.md''" "row_tenant (two_tenants ! 0) = ''acme''"
    using ne by (simp_all add: shared_store_def two_tenants_def)
  from upload_deletes_other_tenants [OF this] show ?thesis by (auto simp: two_tenants_def)
qed

theorem failed_rebuild_loses_document_witness:
  "DeleteIds (delete_expression [''a0'', ''b0'']) \<in> set (fst (build_into_index shared_store ''docs/cpu.md'')) \<and>
   snd (build_into_index shared_store ''docs/cpu.md'') =
     Failed (ErrWrap ''invoke index graph failed: '' (ErrExternal ''embedding: quota exceeded''))"
proof -
  have "ia_loader shared_store = None" "ia_load shared_store ''docs/cpu.md'' = Inr [''cpu.md'']" "ia_milvus shared_store = None"
    "ia_query shared_store (upload_expression ''cpu.md'') = Inr (id_column two_tenants)" "two_tenants \<noteq> []"
    "ia_build shared_store = Some (ErrExternal ''embedding: quota exceeded'') \<or>
     ia_invoke shared_store ''docs/cpu.md'' = Inl (ErrExternal ''embedding: quota exceeded'')"
    by (simp_all add: shared_store_def two_tenants_def)
  from failed_rebuild_loses_document [OF this] show ?thesis by (simp add: two_tenants_def shared_store_def)
qed

text \<open>An upload is answered only after the graph has run over the file; the size in the answer is that of the
  directory.\<close>

lemma build_into_index_Value:
  assumes "build_into_index a path = (cs, Value ())"
  shows "InvokeGraph path \<in> set cs \<and> ia_build a = None \<and> (\<exists>ids. ia_invoke a path = Inr ids)"
proof -
  obtain cs1 sources where ls: "load_sources a path = (cs1, Value sources)"
    using assms by (auto simp: build_into_index_def and_then_def split: prod.splits run.splits)
  obtain source others where sources: "sources = source # others"
    using assms ls by (cases sources) (auto simp: build_into_index_def)
  obtain cs2 where pg: "purge a (upload_expression source) = (cs2, Value ())"
    using assms ls sources by (auto simp: build_into_index_def and_then_def split: prod.splits run.splits)
  show ?thesis
    using assms ls sources pg
    by (cases "ia_invoke a path") (auto simp: build_into_index_def pure_def split: if_splits)
qed

lemma upload_reply_means_indexed:
  assumes "file_upload clean dir u a = (cs, Value reply)"
  shows "\<exists>name. up_file u = Some name \<and> ur_name reply = name \<and> Indexing (InvokeGraph (dir @ ''/'' @ name)) \<in> set cs \<and>
    ia_build a = None \<and> (\<exists>ids. ia_invoke a (dir @ ''/'' @ name) = Inr ids) \<and>
    up_save u = None \<and> up_stat u (clean dir) = Inr (ur_size reply)"
proof -
  obtain name where name: "up_file u = Some name" using assms by (auto simp: file_upload_def split: option.splits)
  obtain cs0 where dir: "ensure_dir u dir = (cs0, Value ())"
    using assms name by (auto simp: file_upload_def and_then_def split: prod.splits run.splits)
  have save: "up_save u = None"
    using assms name dir by (cases "up_save u") (auto simp: file_upload_def)
  obtain size where stat: "up_stat u (clean dir) = Inr size"
    using assms name dir save by (cases "up_stat u (clean dir)") (auto simp: file_upload_def)
  obtain cs1 r1 where build: "build_into_index a (dir @ ''/'' @ name) = (cs1, r1)" by fastforce
  have r1: "r1 = Value ()"
    using assms name dir save stat build by (cases r1) (auto simp: file_upload_def)
  from build_into_index_Value [OF build [unfolded r1]] assms name dir save stat build r1 show ?thesis
    by (auto simp: file_upload_def pure_def)
qed

end
