(* ===== verification/Ops_Agent.thy ===== *)
theory Ops_Agent
  imports Tool_Policy Resources
begin

text \<open>
  The operations agent behind /api/ai_ops: internal/ai/agent/plan_execute_replan, the model constructors of
  internal/ai/models and the handler internal/controller/chat/chat_v1_ai_ops.go. The plan-execute library,
  its event stream and the configuration service are parameters.
\<close>

section \<open>Models\<close>

record model_config =
  mc_model :: string
  mc_api_key :: string
  mc_base_url :: string

text \<open>Both constructors of models/open_ai.go read three values under their own prefix and stop at the first
  error; \<open>get\<close> is the configuration service, \<open>make\<close> the library's constructor.\<close>

definition new_chat_model :: "(string \<Rightarrow> string result) \<Rightarrow> (model_config \<Rightarrow> 'm result) \<Rightarrow> string \<Rightarrow> 'm result" where
  "new_chat_model get mk prefix_name =
     bind_result (get (prefix_name @ ''.model'')) (\<lambda>model.
     bind_result (get (prefix_name @ ''.api_key'')) (\<lambda>api_key.
     bind_result (get (prefix_name @ ''.base_url'')) (\<lambda>base_url.
     mk \<lparr>mc_model = model, mc_api_key = api_key, mc_base_url = base_url\<rparr>)))"

definition think_model :: "(string \<Rightarrow> string result) \<Rightarrow> (model_config \<Rightarrow> 'm result) \<Rightarrow> 'm result" where
  "think_model get mk = new_chat_model get mk ''ds_think_chat_model''"

definition quick_model :: "(string \<Rightarrow> string result) \<Rightarrow> (model_config \<Rightarrow> 'm result) \<Rightarrow> 'm result" where
  "quick_model get mk = new_chat_model get mk ''ds_quick_chat_model''"

section \<open>The three agents\<close>

text \<open>
  What the library is given: the executor takes a model and the bare tools. \<open>mcp\<close> are the log tools of
  the MCP server, whose error is only logged; the other three are built by their own constructors.
\<close>

record 'w ops_tools =
  ot_mcp :: "'w base_tool list result"
  ot_alerts :: "'w invokable"
  ot_docs :: "'w invokable"
  ot_time :: "'w invokable"

definition executor_tools :: "'w ops_tools \<Rightarrow> 'w base_tool list" where
  "executor_tools t =
     (case ot_mcp t of Inl e \<Rightarrow> [] | Inr tools \<Rightarrow> tools) @
     [Invokable (ot_alerts t), Invokable (ot_docs t), Invokable (ot_time t)]"

text \<open>\<open>GetLogMcpTool\<close> keeps the tools and drops the closer of their client, so an open client has no owner left.
  A run of the operations agent builds a new executor.\<close>

definition get_log_mcp_tool :: "'w mcp_calls \<Rightarrow> 'w base_tool list result" where
  "get_log_mcp_tool m = snd (get_log_mcp_tools m)"

fun ops_client_events :: "nat \<Rightarrow> 'w mcp_calls list \<Rightarrow> nat handle_event list" where
  "ops_client_events i [] = []"
| "ops_client_events i (m # ms) = (if fst (get_log_mcp_tools m) then [Opened i] else []) @ ops_client_events (i + 1) ms"

definition new_planner :: "'m result \<Rightarrow> ('m \<Rightarrow> 'a result) \<Rightarrow> 'a result" where
  "new_planner model mk = bind_result model mk"

definition new_executor :: "'w ops_tools \<Rightarrow> 'm result \<Rightarrow> ('m \<Rightarrow> 'w base_tool list \<Rightarrow> 'a result) \<Rightarrow> 'a result" where
  "new_executor tools model mk = bind_result model (\<lambda>m. mk m (executor_tools tools))"

definition new_replanner :: "'m result \<Rightarrow> ('m \<Rightarrow> 'a result) \<Rightarrow> 'a result" where
  "new_replanner model mk = bind_result model mk"

section \<open>Running the agent\<close>

text \<open>
  An event of the run: its error, and its output, if it has one, with what \<open>adk.GetMessage\<close> makes of it.
  The library also returns the nil message with an error, so both are given.
\<close>

record ops_event =
  oe_err :: "go_error option"
  oe_output :: "(message option \<times> go_error option) option"

text \<open>The loop over the events: the last message and the details so far. The event's error and the error
  of \<open>GetMessage\<close> are not looked at; a nil message panics when it is printed.\<close>

fun ops_loop :: "(message \<Rightarrow> string) \<Rightarrow> ops_event list \<Rightarrow> message option \<Rightarrow> string list \<Rightarrow> (message option \<times> string list) run" where
  "ops_loop show_message [] last_message detail = Value (last_message, detail)"
| "ops_loop show_message (ev # evs) last_message detail =
     (case oe_output ev of
        None \<Rightarrow> ops_loop show_message evs last_message detail
      | Some (None, _) \<Rightarrow> Panicked
      | Some (Some m, _) \<Rightarrow> ops_loop show_message evs (Some m) (detail @ [show_message m]))"

definition build_plan_agent ::
  "'a result \<Rightarrow> 'a result \<Rightarrow> 'a result \<Rightarrow> ('a \<Rightarrow> 'a \<Rightarrow> 'a \<Rightarrow> 'p result) \<Rightarrow> ('p \<Rightarrow> string \<Rightarrow> ops_event list) \<Rightarrow>
   (message \<Rightarrow> string) \<Rightarrow> string \<Rightarrow> (string \<times> string list) run" where
  "build_plan_agent planner executor replanner combine query_events show_message query =
     (case planner of Inl e \<Rightarrow> Failed e | Inr p \<Rightarrow>
     (case executor of Inl e \<Rightarrow> Failed e | Inr x \<Rightarrow>
     (case replanner of Inl e \<Rightarrow> Failed e | Inr r \<Rightarrow>
     (case combine p x r of Inl e \<Rightarrow> Failed (ErrWrap ''build PlanExecuteAgent Error: '' e) | Inr agent \<Rightarrow>
     (case ops_loop show_message (query_events agent query) None [] of
        Value (Some m, detail) \<Rightarrow> Value (msg_content m, detail)
      | Value (None, detail) \<Rightarrow> Failed (ErrText ''get lastMessage Error'')
      | Failed e \<Rightarrow> Failed e
      | Panicked \<Rightarrow> Panicked)))))"

text \<open>The handler: an empty answer is an error of its own.\<close>

definition ai_ops :: "(string \<times> string list) run \<Rightarrow> (string \<times> string list) run" where
  "ai_ops answered =
     (case answered of
        Failed e \<Rightarrow> Failed e
      | Panicked \<Rightarrow> Panicked
      | Value (resp, detail) \<Rightarrow> if resp = [] then Failed (ErrText ''internal error'') else Value (resp, detail))"

section \<open>Properties\<close>

fun ops_messages :: "ops_event list \<Rightarrow> message list" where
  "ops_messages [] = []"
| "ops_messages (ev # evs) = (case oe_output ev of Some (Some m, _) \<Rightarrow> [m] | _ \<Rightarrow> []) @ ops_messages evs"

definition no_message :: "ops_event \<Rightarrow> bool" where
  "no_message ev = (case oe_output ev of Some (None, _) \<Rightarrow> True | _ \<Rightarrow> False)"

lemma ops_loop_cases:
  "ops_loop sm evs lm d =
     (if list_ex no_message evs then Panicked
      else Value (if ops_messages evs = [] then lm else Some (last (ops_messages evs)), d @ map sm (ops_messages evs)))"
proof (induction evs arbitrary: lm d)
  case (Cons ev evs)
  consider "oe_output ev = None" | e where "oe_output ev = Some (None, e)" | m e where "oe_output ev = Some (Some m, e)"
    by (metis option.exhaust surj_pair)
  then show ?case by cases (simp_all add: Cons.IH no_message_def)
qed simp

lemma ops_same_outputs:
  "map oe_output evs' = map oe_output evs \<Longrightarrow>
     ops_messages evs' = ops_messages evs \<and> list_ex no_message evs' = list_ex no_message evs"
proof (induction evs' arbitrary: evs)
  case (Cons ev evs')
  then obtain ev0 evs0 where "evs = ev0 # evs0" "oe_output ev = oe_output ev0" "map oe_output evs' = map oe_output evs0"
    by (cases evs) auto
  with Cons.IH [of evs0] show ?case by (simp add: no_message_def)
qed simp

text \<open>The answer of the operations agent is the last message of its event stream, in which errors are not
  looked at: a run that fails after a first message is answered like a run that succeeded, and an output
  without a message panics.\<close>

theorem ops_answer_ignores_errors:
  assumes "combine p x r = Inr agent" and "ops_messages (query_events agent query) \<noteq> []"
    and "map oe_output evs' = map oe_output (query_events agent query)"
  shows "build_plan_agent (Inr p) (Inr x) (Inr r) combine query_events sm query =
      (if list_ex no_message (query_events agent query) then Panicked
       else Value (msg_content (last (ops_messages (query_events agent query))), map sm (ops_messages (query_events agent query)))) \<and>
    build_plan_agent (Inr p) (Inr x) (Inr r) combine (\<lambda>a q. evs') sm query =
      build_plan_agent (Inr p) (Inr x) (Inr r) combine query_events sm query"
  using assms ops_same_outputs [OF assms(3)] by (simp add: build_plan_agent_def ops_loop_cases)

text \<open>No tool of the operations agent is wrapped with a policy. The tool that queries the alerts and every log
  tool run for every caller that reaches the handler, while the chat agent's wrapped tool denies a caller
  without one of the operator roles.\<close>

theorem ops_tools_unguarded:
  assumes "ot_mcp t = Inr mcp" and "Invokable iv \<in> set mcp \<or> iv = ot_alerts t"
    and "wrap_tool name (Some (Invokable iv)) operators = Inr guarded" and "\<not> tool_allowed c operators"
  shows "Invokable iv \<in> set (executor_tools t) \<and> policy_run guarded c args w = (w, Inl (ErrWrap name ErrToolDenied))"
  using assms by (auto simp: executor_tools_def wrap_tool_def policy_run_def)

definition sample_ops_tools :: "nat ops_tools" where
  "sample_ops_tools = \<lparr>ot_mcp = Inr [Invokable (echo_tool ''search_log'')], ot_alerts = echo_tool ''alerts'',
     ot_docs = echo_tool ''docs'', ot_time = echo_tool ''time''\<rparr>"

theorem ops_tools_unguarded_witness:
  "\<exists>guarded. wrap_tool ''search_log'' (Some (Invokable (echo_tool ''search_log''))) operators = Inr guarded \<and>
    Invokable (echo_tool ''search_log'') \<in> set (executor_tools sample_ops_tools) \<and>
    policy_run guarded (with_principal background \<lparr>p_user_id = ''u'', p_tenant_id = ''t'', p_username = ''u'', p_roles = [''viewer'']\<rparr>)
      ''{}'' 0 = (0, Inl (ErrWrap ''search_log'' ErrToolDenied))"
proof -
  let ?c = "with_principal background \<lparr>p_user_id = ''u'', p_tenant_id = ''t'', p_username = ''u'', p_roles = [''viewer'']\<rparr>"
  obtain guarded where g: "wrap_tool ''search_log'' (Some (Invokable (echo_tool ''search_log''))) operators = Inr guarded"
    by (simp add: wrap_tool_def)
  have "ot_mcp sample_ops_tools = Inr [Invokable (echo_tool ''search_log'')]"
    "Invokable (echo_tool ''search_log'') \<in> set [Invokable (echo_tool ''search_log'')] \<or>
     echo_tool ''search_log'' = ot_alerts sample_ops_tools"
    "\<not> tool_allowed ?c operators"
    by (simp_all add: sample_ops_tools_def tool_allowed_def operators_def)
  from ops_tools_unguarded [OF this(1,2) g this(3)] g show ?thesis by blast
qed

definition half_failed_run :: "ops_event list" where
  "half_failed_run = [\<lparr>oe_err = None, oe_output = Some (Some (assistant_message ''plan: check cpu''), None)\<rparr>,
     \<lparr>oe_err = Some (ErrExternal ''model: quota exceeded''), oe_output = None\<rparr>]"

theorem ops_answer_ignores_errors_witness:
  "ai_ops (build_plan_agent (Inr ()) (Inr ()) (Inr ()) (\<lambda>p x r. Inr ()) (\<lambda>a q. half_failed_run) msg_content ''analyse'') =
     Value (''plan: check cpu'', [''plan: check cpu''])"
proof -
  have m: "ops_messages half_failed_run = [assistant_message ''plan: check cpu'']" "\<not> list_ex no_message half_failed_run"
    by (simp_all add: half_failed_run_def no_message_def)
  have "build_plan_agent (Inr ()) (Inr ()) (Inr ()) (\<lambda>p x r. Inr ()) (\<lambda>a q. half_failed_run) msg_content ''analyse'' =
      Value (msg_content (last (ops_messages half_failed_run)), map msg_content (ops_messages half_failed_run))"
    using ops_answer_ignores_errors [where combine = "\<lambda>p x r. Inr ()" and query_events = "\<lambda>a q. half_failed_run"
      and sm = msg_content and query = "''analyse''" and p = "()" and x = "()" and r = "()" and agent = "()"
      and evs' = half_failed_run] m by simp
  then show ?thesis by (simp add: ai_ops_def m)
qed

text \<open>Every request whose log tools were available leaves its client open.\<close>

lemma ops_clients_open:
  "length (open_from hs (ops_client_events i ms)) =
     length hs + length (filter (\<lambda>m. \<exists>tools. get_log_mcp_tool m = Inr tools) ms)"
proof -
  have "fst (get_log_mcp_tools m) \<longleftrightarrow> (\<exists>tools. get_log_mcp_tool m = Inr tools)" for m :: "'a mcp_calls"
    by (auto simp: get_log_mcp_tool_def get_log_mcp_tools_def split: sum.splits)
  then show ?thesis by (induction i ms arbitrary: hs rule: ops_client_events.induct) auto
qed

lemma ops_requests_leak_clients:
  "length (open_after (ops_client_events 0 (replicate n m))) = (case get_log_mcp_tool m of Inl e \<Rightarrow> 0 | Inr tools \<Rightarrow> n)"
  by (simp add: open_after_def ops_clients_open split: sum.split)

end
