(* ===== verification/Embedding.thy ===== *)
theory Embedding
  imports Knowledge Ops_Agent
begin

text \<open>
  The constructors of the embedder (internal/ai/embedder) and of the document loaders (internal/ai/loader,
  knowledge_index_pipeline/loader.go), and what the embedder's dimension has to do with the rest: a query
  vector is encoded as bytes for a collection of binary vectors, whose dimension counts bits.
\<close>

record embedder_config =
  ec_model :: string
  ec_api_key :: string
  ec_dimensions :: int

definition doubao_embedding :: "(string \<Rightarrow> string result) \<Rightarrow> (embedder_config \<Rightarrow> 'e result) \<Rightarrow> 'e result" where
  "doubao_embedding get mk =
     bind_result (get ''doubao_embedding_model.model'') (\<lambda>model.
     bind_result (get ''doubao_embedding_model.api_key'') (\<lambda>api_key.
     mk \<lparr>ec_model = model, ec_api_key = api_key, ec_dimensions = 2048\<rparr>))"

text \<open>A loader's option is whether it names documents after their files.\<close>

definition new_file_loader :: "(bool \<Rightarrow> 'l result) \<Rightarrow> 'l result" where
  "new_file_loader mk = mk False"

definition new_loader :: "(bool \<Rightarrow> 'l result) \<Rightarrow> 'l result" where
  "new_loader mk = mk True"

lemma length_vector_to_bytes: "length (vector_to_bytes bits vs) = 4 * length vs"
  by (induction vs) (simp_all add: vector_to_bytes_def float_bytes_def)

lemma show_dimension: "show_int 65536 = ''65536''"
  by (simp add: show_int_def digits.simps char_of_eq_iff take_bit_eq_mod)

text \<open>A vector of the embedder's dimension, encoded for a search, has exactly the number of bits that the collection
  declares, as the bootstrap creates it and as the indexer describes it.\<close>

theorem query_vector_fits_collection:
  assumes "doubao_embedding get Inr = Inr cfg" and "int (length v) = ec_dimensions cfg"
  shows "map_of (map (\<lambda>f. (fd_name f, (fd_type f, fd_params f))) client_fields) ''vector'' =
      Some (BinaryVector, [(''dim'', show_int (8 * int (length (vector_to_bytes bits v))))]) \<and>
    map_of (map (\<lambda>f. (fd_name f, (fd_type f, fd_params f))) indexer_fields) ''vector'' =
      map_of (map (\<lambda>f. (fd_name f, (fd_type f, fd_params f))) client_fields) ''vector''"
proof -
  have "ec_dimensions cfg = 2048" using assms(1) by (auto simp: doubao_embedding_def bind_result_def split: sum.splits)
  with assms(2) have "8 * int (length (vector_to_bytes bits v)) = 65536" by (simp add: length_vector_to_bytes)
  then show ?thesis by (simp add: client_fields_def indexer_fields_def show_dimension)
qed

theorem query_vector_fits_collection_witness:
  "map_of (map (\<lambda>f. (fd_name f, (fd_type f, fd_params f))) client_fields) ''vector'' =
     Some (BinaryVector, [(''dim'', show_int (8 * int (length (vector_to_bytes (\<lambda>x :: 32 word. x) (replicate 2048 0)))))])"
proof -
  have "doubao_embedding (\<lambda>s. Inr s) Inr =
      Inr \<lparr>ec_model = ''doubao_embedding_model.model'', ec_api_key = ''doubao_embedding_model.api_key'', ec_dimensions = 2048\<rparr>"
    by (simp add: doubao_embedding_def bind_result_def)
  from query_vector_fits_collection [OF this, of "replicate 2048 (0 :: 32 word)" "\<lambda>x. x"] show ?thesis by simp
qed

end
