(* ===== verification/Simple_Memory.thy ===== *)
theory Simple_Memory
  imports Session_Types
begin

text \<open>
  The process-wide memory of the command line tools, utility/mem/mem.go: one memory for every id, created on
  first use, with a window of six messages from which pairs are dropped at the front. The lemmas relate it
  to the window that the conversation stores use.
\<close>

record simple_memory =
  sm_id :: string
  sm_messages :: "msgptr list"
  sm_window :: int

type_synonym memory_map = "string \<rightharpoonup> simple_memory"

definition get_simple_memory :: "string \<Rightarrow> memory_map \<Rightarrow> memory_map \<times> simple_memory" where
  "get_simple_memory i m =
     (case m i of
        Some mem \<Rightarrow> (m, mem)
      | None \<Rightarrow> (let mem = \<lparr>sm_id = i, sm_messages = [], sm_window = 6\<rparr> in (m(i \<mapsto> mem), mem)))"

definition set_messages :: "msgptr \<Rightarrow> simple_memory \<Rightarrow> simple_memory" where
  "set_messages msg c =
     (let ms = sm_messages c @ [msg];
          excess = int (length ms) - sm_window c;
          dropped = (if excess mod 2 \<noteq> 0 then excess + 1 else excess)
      in c\<lparr>sm_messages := (if int (length ms) > sm_window c then drop (nat dropped) ms else ms)\<rparr>)"

definition get_messages :: "simple_memory \<Rightarrow> msgptr list" where
  "get_messages c = sm_messages c"

text \<open>A sequence of messages for one id.\<close>

definition remember :: "string \<Rightarrow> msgptr \<Rightarrow> memory_map \<Rightarrow> memory_map" where
  "remember i msg m = (case get_simple_memory i m of (m', mem) \<Rightarrow> m'(i \<mapsto> set_messages msg mem))"

lemma set_messages_keep_recent:
  "set_messages msg c = c\<lparr>sm_messages := keep_recent (sm_window c) (sm_messages c @ [msg])\<rparr>"
  by (auto simp: set_messages_def keep_recent_def pair_excess_def Let_def)

definition recalled :: "string \<Rightarrow> memory_map \<Rightarrow> msgptr list" where
  "recalled i m = get_messages (snd (get_simple_memory i m))"

definition memories_ok :: "memory_map \<Rightarrow> bool" where
  "memories_ok m \<longleftrightarrow> (\<forall>i mem. m i = Some mem \<longrightarrow> sm_window mem = 6 \<and> length (sm_messages mem) \<le> 6)"

lemma remember_ok: "memories_ok m \<Longrightarrow> memories_ok (remember i msg m)"
  using length_keep_recent_le [of 6]
  by (auto simp: memories_ok_def remember_def get_simple_memory_def set_messages_keep_recent Let_def split: option.splits)

text \<open>What a memory recalls after any messages: at most six, the latest of what it was told, and the number of
  messages it has forgotten is even, so an exchange is forgotten as a whole. No other id is touched.\<close>

theorem memory_forgets_pairs:
  "\<exists>forgotten. even (length forgotten) \<and> msgs = forgotten @ recalled i (fold (remember i) msgs Map.empty) \<and>
     length (recalled i (fold (remember i) msgs Map.empty)) \<le> 6 \<and>
     (\<forall>j. j \<noteq> i \<longrightarrow> recalled j (fold (remember i) msgs Map.empty) = [])"
proof (induction msgs rule: rev_induct)
  case Nil
  show ?case by (simp add: recalled_def get_simple_memory_def get_messages_def Let_def)
next
  case (snoc msg msgs)
  let ?m = "fold (remember i) msgs Map.empty"
  obtain forgotten where f: "even (length forgotten)" "msgs = forgotten @ recalled i ?m" "length (recalled i ?m) \<le> 6"
    "\<forall>j. j \<noteq> i \<longrightarrow> recalled j ?m = []" using snoc.IH by blast
  have "memories_ok ?m"
    by (induction msgs rule: rev_induct) (simp_all add: remember_ok, simp add: memories_ok_def)
  then have win: "sm_window (snd (get_simple_memory i ?m)) = 6"
    by (auto simp: memories_ok_def get_simple_memory_def Let_def split: option.splits)
  have new: "recalled i (remember i msg ?m) = keep_recent 6 (recalled i ?m @ [msg])"
    using win by (auto simp: recalled_def remember_def get_simple_memory_def get_messages_def set_messages_keep_recent
        Let_def split: option.splits)
  have others: "j \<noteq> i \<Longrightarrow> recalled j (remember i msg ?m) = recalled j ?m" for j
    by (auto simp: recalled_def remember_def get_simple_memory_def Let_def split: option.splits)
  let ?all = "recalled i ?m @ [msg]"
  define d where "d = (if int (length ?all) > 6 then nat (pair_excess (int (length ?all)) 6) else 0)"
  have d: "even d" "keep_recent 6 ?all = drop d ?all" "d \<le> length ?all"
    using pair_excess_even [of "int (length ?all)" 6] pair_excess_le [of 6 "int (length ?all)"]
    by (auto simp: d_def keep_recent_def even_nat_iff)
  have "length (take d ?all) = d" using d(3) by (simp del: take_append length_append)
  then have "even (length (forgotten @ take d ?all))" using f(1) d(1) by (simp only: length_append even_add)
  moreover have "msgs @ [msg] = (forgotten @ take d ?all) @ keep_recent 6 ?all"
    using f(2) d(2) append_take_drop_id [of d ?all] by simp
  moreover have "length (keep_recent 6 ?all) \<le> 6"
    using length_keep_recent_le [of 6 ?all] by simp
  moreover have r: "recalled i (fold (remember i) (msgs @ [msg]) Map.empty) = keep_recent 6 ?all" using new by simp
  moreover have "\<forall>j. j \<noteq> i \<longrightarrow> recalled j (fold (remember i) (msgs @ [msg]) Map.empty) = []"
    using f(4) others by simp
  ultimately show ?case unfolding r by blast
qed

end
