(* ===== verification/Dev_Commands.thy ===== *)
theory Dev_Commands
  imports Chat_Pipeline Simple_Memory Ops_Agent
begin

text \<open>
  The manual commands of internal/ai/cmd (chat_cmd, recall_cmd, llm_tool_cmd) and the logging callback of
  utility/log_call_back. A command is the text it prints and how it ends; \<open>panic(err)\<close> and a nil pointer
  end it. The agent graph, the retriever, the models and JSON are parameters.
\<close>

type_synonym 'a printed = "string list \<times> 'a run"

section \<open>Commands\<close>

definition dev_principal :: principal where
  "dev_principal =
     \<lparr>p_user_id = ''local-development'', p_tenant_id = ''local-development'', p_username = ''local-development'', p_roles = []\<rparr>"

definition dev_ctx :: ctx where
  "dev_ctx = with_principal background dev_principal"

text \<open>The questions of the commands and the label of a retrieval's query and answers.\<close>

definition greeting_question :: string where
  "greeting_question = [CHR 0xE4, CHR 0xBD, CHR 0xA0, CHR 0xE5, CHR 0xA5, CHR 0xBD]"

definition time_question :: string where
  "time_question =
     [CHR 0xE7, CHR 0x8E, CHR 0xB0, CHR 0xE5, CHR 0x9C, CHR 0xA8, CHR 0xE6, CHR 0x98, CHR 0xAF, CHR 0xE5, CHR 0x87, CHR 0xA0,
      CHR 0xE7, CHR 0x82, CHR 0xB9]"

definition recall_question :: string where
  "recall_question =
     [CHR 0xE6, CHR 0x9C, CHR 0x8D, CHR 0xE5, CHR 0x8A, CHR 0xA1, CHR 0xE4, CHR 0xB8, CHR 0x8B, CHR 0xE7,
      CHR 0xBA, CHR 0xBF, CHR 0xE6, CHR 0x98, CHR 0xAF, CHR 0xE4, CHR 0xBB, CHR 0x80, CHR 0xE4, CHR 0xB9,
      CHR 0x88, CHR 0xE5, CHR 0x8E, CHR 0x9F, CHR 0xE5, CHR 0x9B, CHR 0xA0]"

definition tools_question :: string where
  "tools_question =
     [CHR 0xE5, CHR 0x91, CHR 0x8A, CHR 0xE8, CHR 0xAF, CHR 0x89, CHR 0xE6, CHR 0x88, CHR 0x91, CHR 0xE4,
      CHR 0xBD, CHR 0xA0, CHR 0xE6, CHR 0x9C, CHR 0x89, CHR 0xE5, CHR 0x93, CHR 0xAA, CHR 0xE4, CHR 0xBA,
      CHR 0x9B, CHR 0xE5, CHR 0xB7, CHR 0xA5, CHR 0xE5, CHR 0x85, CHR 0xB7, CHR 0xE5, CHR 0x8F, CHR 0xAF,
      CHR 0xE4, CHR 0xBB, CHR 0xA5, CHR 0xE4, CHR 0xBD, CHR 0xBF, CHR 0xE7, CHR 0x94, CHR 0xA8]"

definition wide_colon :: string where
  "wide_colon = [CHR 0xEF, CHR 0xBC, CHR 0x9A]"

text \<open>One turn of chat_cmd: the history is what the process-wide memory holds.\<close>

definition chat_turn :: "(user_input \<Rightarrow> msgptr result) \<Rightarrow> string \<Rightarrow> memory_map \<Rightarrow> memory_map \<times> message run" where
  "chat_turn invoke question m =
     (case get_simple_memory ''111'' m of
        (m', mem) \<Rightarrow>
          (m', case invoke \<lparr>ui_query = question, ui_history = get_messages mem\<rparr> of
                 Inl e \<Rightarrow> Panicked
               | Inr None \<Rightarrow> Panicked
               | Inr (Some reply) \<Rightarrow> Value reply))"

definition chat_cmd :: "((user_input \<Rightarrow> msgptr result) result) \<Rightarrow> memory_map \<Rightarrow> memory_map \<times> unit printed" where
  "chat_cmd build m =
     (let m0 = fst (get_simple_memory ''111'' m)
      in case build of
           Inl e \<Rightarrow> (m0, [], Panicked)
         | Inr invoke \<Rightarrow>
             (case chat_turn invoke greeting_question m0 of
                (m1, Value reply) \<Rightarrow>
                  (let said = [''Q: '' @ greeting_question, ''A: '' @ msg_content reply];
                       m2 = remember ''111'' (Some (plain_message System (msg_content reply)))
                              (remember ''111'' (Some (user_message greeting_question)) m1)
                   in case chat_turn invoke time_question m2 of
                        (m3, Value reply') \<Rightarrow>
                          (m3, said @ [''----------------'', ''Q: '' @ time_question, ''A: '' @ msg_content reply'], Value ())
                      | (m3, _) \<Rightarrow> (m3, said, Panicked))
              | (m1, _) \<Rightarrow> (m1, [], Panicked)))"

definition recall_cmd :: "(ctx \<Rightarrow> string \<Rightarrow> ('doc list) result) result \<Rightarrow> ('doc \<Rightarrow> string) \<Rightarrow> unit printed" where
  "recall_cmd retriever content =
     (case retriever of
        Inl e \<Rightarrow> ([], Panicked)
      | Inr retrieve \<Rightarrow>
          (case retrieve dev_ctx recall_question of
             Inl e \<Rightarrow> ([], Panicked)
           | Inr docs \<Rightarrow>
               ([''Q'' @ wide_colon @ '' '' @ recall_question] @ map (\<lambda>d. ''A'' @ wide_colon @ '' '' @ content d) docs @
                [''Done '' @ show_int (int (length docs))], Value ())))"

text \<open>llm_tool_cmd: the tools offered to the model are the log tools, when their server answers, and the clock.\<close>

record llm_env =
  le_api_key :: string
  le_model :: "model_config \<Rightarrow> unit result"
  le_bind :: "string list \<Rightarrow> unit result"
  le_compile :: "unit result"
  le_invoke :: "string \<Rightarrow> msgptr result"

definition llm_config :: "string \<Rightarrow> model_config" where
  "llm_config key =
     \<lparr>mc_model = ''deepseek-v3-1-terminus'', mc_api_key = key, mc_base_url = ''https://ark.cn-beijing.volces.com/api/v3''\<rparr>"

fun tool_infos :: "'w base_tool list \<Rightarrow> string list result" where
  "tool_infos [] = Inr []"
| "tool_infos (b # bs) =
     (case tool_info b of
        Inl e \<Rightarrow> Inl e
      | Inr i \<Rightarrow> (case tool_infos bs of Inl e \<Rightarrow> Inl e | Inr is \<Rightarrow> Inr (i # is)))"

definition llm_tools :: "'w mcp_calls \<Rightarrow> 'w invokable \<Rightarrow> 'w base_tool list" where
  "llm_tools mcp clock = (case get_log_mcp_tool mcp of Inl e \<Rightarrow> [] | Inr ts \<Rightarrow> ts) @ [Invokable clock]"

definition llm_tool_cmd :: "llm_env \<Rightarrow> 'w mcp_calls \<Rightarrow> 'w invokable \<Rightarrow> unit printed" where
  "llm_tool_cmd env mcp clock =
     (if le_api_key env = [] then ([], Panicked)
      else case bind_result (le_model env (llm_config (le_api_key env))) (\<lambda>_.
                bind_result (tool_infos (llm_tools mcp clock)) (\<lambda>infos.
                bind_result (le_bind env infos) (\<lambda>_.
                bind_result (le_compile env) (\<lambda>_. le_invoke env tools_question)))) of
             Inr (Some reply) \<Rightarrow> ([msg_content reply], Value ())
           | _ \<Rightarrow> ([], Panicked))"

section \<open>The logging callback\<close>

record log_config =
  lc_detail :: bool
  lc_debug :: bool

definition log_config_of :: "log_config option \<Rightarrow> log_config" where
  "log_config_of cfg = (case cfg of None \<Rightarrow> \<lparr>lc_detail = True, lc_debug = False\<rparr> | Some c \<Rightarrow> c)"

definition format_run_info :: "run_info option \<Rightarrow> string" where
  "format_run_info info =
     (case info of
        None \<Rightarrow> ''unknown:unknown:unknown''
      | Some i \<Rightarrow> ri_component i @ '':'' @ ri_type i @ '':'' @ ri_name i)"

text \<open>The JSON of an input, indented or not; the empty text stands for a failed encoding.\<close>

definition log_start :: "(bool \<Rightarrow> 'i \<Rightarrow> string) \<Rightarrow> log_config \<Rightarrow> run_info option \<Rightarrow> 'i \<Rightarrow> string list" where
  "log_start marshal cfg info input =
     (''[view start]:['' @ format_run_info info @ '']'') # (if lc_detail cfg then [marshal (lc_debug cfg) input] else [])"

definition log_end :: "run_info option \<Rightarrow> string list" where
  "log_end info = [''[view end]:['' @ format_run_info info @ '']'']"

section \<open>Properties\<close>

text \<open>The second question of the chat command follows the first exchange, whose answer is recorded as a system
  message.\<close>

lemma recalled_empty: "recalled ''111'' (fst (get_simple_memory ''111'' Map.empty)) = []"
  by (simp add: recalled_def get_simple_memory_def get_messages_def Let_def)

theorem chat_cmd_remembers:
  assumes "invoke \<lparr>ui_query = greeting_question, ui_history = []\<rparr> = Inr (Some reply)"
  shows "chat_cmd (Inr invoke) Map.empty =
    (let said = [''Q: '' @ greeting_question, ''A: '' @ msg_content reply];
         history = [Some (user_message greeting_question), Some (plain_message System (msg_content reply))]
     in ([''111'' \<mapsto> \<lparr>sm_id = ''111'', sm_messages = history, sm_window = 6\<rparr>],
         case invoke \<lparr>ui_query = time_question, ui_history = history\<rparr> of
           Inr (Some reply') \<Rightarrow>
             (said @ [''----------------'', ''Q: '' @ time_question, ''A: '' @ msg_content reply'], Value ())
         | _ \<Rightarrow> (said, Panicked)))"
  using assms
  by (auto simp: chat_cmd_def chat_turn_def get_simple_memory_def get_messages_def remember_def set_messages_def
      Let_def split: sum.splits option.splits)

text \<open>The clock is always among the bound tools, and the last of them.\<close>

lemma tool_infos_append:
  "tool_infos (bs @ bs') = (case tool_infos bs of Inl e \<Rightarrow> Inl e | Inr is \<Rightarrow>
     (case tool_infos bs' of Inl e \<Rightarrow> Inl e | Inr is' \<Rightarrow> Inr (is @ is')))"
  by (induction bs) (auto split: sum.splits)

lemma llm_tools_end_with_clock:
  "tool_infos (llm_tools mcp clock) = Inr infos \<Longrightarrow> \<exists>front i. infos = front @ [i] \<and> tool_info (Invokable clock) = Inr i"
  by (auto simp: llm_tools_def tool_infos_append split: sum.splits)

end
