(* ===== verification/Spec2Isabelle.thy ===== *)
theory Spec2Isabelle
  imports Chat_Properties Chat_Stream Replicas Eval_Runner Eino_Callback Http_Routes Alert_Tool Time_Tool Chat_Prompt
    Embedding Dev_Commands
begin

text \<open>
  A verification development for the Go service in this repository: a multi-tenant chat agent for
  operations teams with stored conversations, per-conversation turn loops, server-sent events, a
  knowledge base in a vector store, an offline evaluation and telemetry.

  \<^bold>\<open>How the program works.\<close> A request passes the bearer middleware (internal/auth), which puts the principal
  into its context. The chat handlers (internal/controller/chat) form the session key from tenant, user and
  conversation, take the distributed lock when there is one, get the session of the key from the turn loop
  registry, take a token of the run limiter and push a turn whose input is the stored history with the
  question. The session's goroutine runs the agent, the handler's receiver stores the question and the
  answer and hands the answer to the waiting handler, at once or as a stream of events. Conversations are
  stored in memory or in PostgreSQL, with an optional Redis cache. Tools of the chat agent are wrapped with
  policies; documents are retrieved with a filter on the caller's tenant.

  \<^bold>\<open>Conventions.\<close> A Go string is a list of bytes, an error a value of \<open>go_error\<close>, a fallible function returns
  \<open>'a result\<close>, and an operation on a state maps the state to the new state and a result. A nil pointer is
  \<open>None\<close>. Concurrency is a step relation or a list of possible results of a \<open>select\<close>, split at the points
  where another goroutine can run. What is not in this repository is a parameter: the agent library, the JSON of
  library types, JWT and bcrypt, SHA-256, the clock, random tokens and the answers of every server. A server whose state
  matters is a state with a schedule of failures: PostgreSQL is three tables with a statement schedule that
  may fail any statement or lose the acknowledgement of a commit, Redis is a key space with deadlines whose
  requests and replies may be lost. Of Go's standard library the string functions, UTF-8, hexadecimal, the
  calendar with the two time layouts, durations in double precision and the JSON encoder with a reader for
  its output are written out; HTTP, SQL and the decoding of foreign JSON are parameters.

  \<^bold>\<open>The theories and the code they model.\<close>

    \<^item> \<open>Prelude\<close>, \<open>Session_Types\<close>, \<open>Resources\<close>: errors, the string functions of Go that the code uses, the window
      over message pairs, principals, contexts, session keys, messages; handles that are opened and
      closed, and traces of calls.
    \<^item> \<open>Go_Utf8\<close>, \<open>Go_Json\<close>, \<open>Go_Time\<close>: what the program uses of Go's strings, \<open>encoding/json\<close> and \<open>time\<close>, each
      with the round trip between its printer and its reader.
    \<^item> \<open>Store_Interface\<close>: the contracts of a conversation store, of an idempotent one and of one that does nothing for
      a cancelled context, as locales.
      \<open>Memory_Store\<close> (store.go), \<open>SQL_Store\<close> with \<open>SQL_Store_Laws\<close> (sql_store.go) and \<open>Cached_Store\<close> (cache.go) model
      internal/conversation and interpret the contracts; \<open>Samples\<close> and \<open>Store_Properties\<close> hold the concrete
      instances and the properties of the stores.
    \<^item> \<open>Store_Config\<close>: config.go and postgres.go, the configuration of the store and its opening.
    \<^item> \<open>Run_Limiter\<close>: run_limiter.go and the \<open>Coordinator\<close> of store.go, as step relations.
      \<open>Redis_Lock\<close>: lock.go, with the contract of an exclusive lease as a locale.
    \<^item> \<open>Turn_Loop\<close>: turn_loop.go. \<open>Turn_Registry\<close>: turn_loop_registry.go over a heap of sessions, with the
      contract of a session pool as a locale.
    \<^item> \<open>Auth\<close>: internal/auth, the login handler and the response middleware.
    \<^item> \<open>Tool_Policy\<close>: internal/ai/tools and the assembly of the agent's tools in chat_pipeline/flow.go.
      \<open>Chat_Pipeline\<close>: the intent filter, the adapter, the graph and the runtime of chat_pipeline.
      \<open>Ops_Agent\<close>: plan_execute_replan, the model constructors and the operations handler.
      \<open>Alert_Tool\<close>, \<open>Time_Tool\<close>: query_metrics_alerts.go and get_current_time.go with their JSON replies.
      \<open>Chat_Prompt\<close>: prompt.go, and the graph from the user's message to the messages for the agent.
    \<^item> \<open>Sse\<close>: internal/logic/sse. \<open>Chat_Controller\<close>, \<open>Chat_Properties\<close>: chat_new.go, session.go, chat_v1_chat.go.
      \<open>Chat_Stream\<close>: chat_v1_chat_stream.go. \<open>Replicas\<close>: many requests of these handlers in several processes over one
      database and one Redis, as an interleaving of their steps, with its refinement of serial turns.
    \<^item> \<open>Retriever\<close>: internal/ai/retriever. \<open>Milvus_Client\<close>: utility/client. \<open>Knowledge\<close>: knowledge_index_pipeline,
      the indexer, the upload handler and the indexing command.
    \<^item> \<open>Eval_Metrics\<close>, \<open>Eval_Runner\<close>: internal/evaluation and cmd/eval.
    \<^item> \<open>Observability\<close>, \<open>Eino_Callback\<close>: internal/observability.
    \<^item> \<open>Embedding\<close>: the embedder's and the loaders' constructors, and the fit of a query vector to the collection.
    \<^item> \<open>Server\<close>: main.go up to the routes and the controller's constructor. \<open>Http_Routes\<close>: the routes of main.go, the
      request types of api/ and the middleware around the handlers.
    \<^item> \<open>Simple_Memory\<close>: utility/mem. \<open>Dev_Commands\<close>: internal/ai/cmd and utility/log_call_back.

  \<^bold>\<open>What the theorems show.\<close> Storage: appends are atomic and never exceed the window, a retried turn is stored
  once under every fault schedule, and a cached read after a write is the database's transcript. A chat
  request: a reply means that the turn is stored, the limiter's token comes back once, the session never
  blocks on the handler for agents with at most three messages, and the next turn continues the
  conversation. Replicas: with timely renewals, any interleaving of requests in several processes has the
  transcripts and answers of taking the requests one after the other; \<open>stalled_lease_loses_order\<close> shows that the
  hypothesis is needed. Isolation: no guarded route runs a handler without a verified token, sessions follow
  tokens, a lease is exclusive until its deadline, at most the configured number of turns run, every search
  carries the tenant. Tools: every tool of the chat agent is guarded by its policy; the replies of the alert and
  time tools read back as what they report, an alert's age is exact below 4096 hours, and every turn has a
  complete prompt. Evaluation: scores have their mathematical meaning and bounds, the report's means
  are means, its file is never torn. Telemetry: every request and component is counted once and every span
  ends once. The process: every way out closes what was opened. Other theorems record behaviour that a
  reader of the code should know: among them, a vector collection whose creation stopped halfway is never
  repaired, an upload deletes other tenants' chunks of the same file name, the operations agent's tools carry no
  policy, and a stream whose handler has left panics on its next message.

  \<^bold>\<open>Termination, bounds and fuel.\<close> Recursion is structural or has a measure. Loops that wait (the lock's polling,
  the renewal, the writer of the event client) run over a list of what the environment does next, so a list
  that ends is a loop that still waits; the properties that a loop ends bound the length of that list, such as one
  writer round for each buffered event and one more in \<open>sse_finish_terminates\<close>. Message versions are 64-bit
  words; times are integers of nanoseconds. The ages of alerts are computed in double precision with its rounding;
  the scores of the evaluation and the numbers of the telemetry are real and rational numbers. The JSON reader of
  \<open>Go_Json\<close> takes the length of its input as fuel, which \<open>weight_le_length\<close> shows to be enough.

  \<^bold>\<open>Not modelled.\<close> The libraries and servers above; the web framework's decoding and validation of request bodies;
  the constructors that only hand on another constructor's result (model.go, embedding.go, tools_node.go, the
  indexing pipeline's indexer.go); the command that prints the operations agent's answer; the constant text of
  its prompt; logging; the browser frontend.
\<close>

end
